(* ===== verification/Prelude.thy ===== *)
theory Prelude
  imports Complex_Main "HOL-Library.Word" "HOL-Library.Signed_Division"
begin

text \<open>
  Shared vocabulary of the development: the fixed-width integers of Go as words
  (\<open>uint8\<close>, \<open>uint16\<close>, \<open>uint32\<close>, \<open>uint64\<close>) or as integers that are wrapped after every
  operation (\<open>int16\<close>, \<open>int32\<close>, \<open>int64\<close>), the big-endian reads and writes of
  \<open>encoding/binary\<close>, results of fallible functions, and the lemma collections the component
  theories use.
\<close>

unbundle bit_operations_syntax

named_theorems go_bytes "conversion between integers and byte sequences"
named_theorems go_ints "arithmetic on integers of fixed width"
named_theorems inv_intros "invariants preserved by the operations of a component"

section \<open>Types\<close>

type_synonym byte = "8 word"
type_synonym u16 = "16 word"
type_synonym u32 = "32 word"
type_synonym u64 = "64 word"
type_synonym bytes = "byte list"

section \<open>Signed integers of fixed width\<close>

text \<open>
  A signed Go integer is an HOL integer in the range of its width; \<open>i16\<close>, \<open>i32\<close> and \<open>i64\<close> are
  the conversions \<open>int16(x)\<close>, \<open>int32(x)\<close> and \<open>int64(x)\<close>, which keep the low bits. Go's \<open>/\<close> and
  \<open>%\<close> truncate towards zero: they are \<open>sdiv\<close> and \<open>smod\<close> of the library.
\<close>

definition i16 :: "int \<Rightarrow> int" where
  "i16 x = signed_take_bit 15 x"

definition i32 :: "int \<Rightarrow> int" where
  "i32 x = signed_take_bit 31 x"

definition i64 :: "int \<Rightarrow> int" where
  "i64 x = signed_take_bit 63 x"

lemma i16_id [go_ints]: "-32768 \<le> x \<Longrightarrow> x \<le> 32767 \<Longrightarrow> i16 x = x"
  unfolding i16_def by (rule signed_take_bit_int_eq_self) simp_all

lemma i32_id [go_ints]: "-2147483648 \<le> x \<Longrightarrow> x \<le> 2147483647 \<Longrightarrow> i32 x = x"
  unfolding i32_def by (rule signed_take_bit_int_eq_self) simp_all

lemma i64_id [go_ints]:
  "-9223372036854775808 \<le> x \<Longrightarrow> x \<le> 9223372036854775807 \<Longrightarrow> i64 x = x"
  unfolding i64_def by (rule signed_take_bit_int_eq_self) simp_all

lemma i16_range: "-32768 \<le> i16 x \<and> i16 x \<le> 32767"
  unfolding i16_def
  using signed_take_bit_int_greater_eq_minus_exp [of 15 x] signed_take_bit_int_less_exp [of 15 x]
  by simp

lemma i32_range: "-2147483648 \<le> i32 x \<and> i32 x \<le> 2147483647"
  unfolding i32_def
  using signed_take_bit_int_greater_eq_minus_exp [of 31 x] signed_take_bit_int_less_exp [of 31 x]
  by simp

section \<open>Big-endian integers in byte sequences\<close>

text \<open>
  \<open>be16\<close> and \<open>be32\<close> are \<open>binary.BigEndian.PutUint16\<close> and \<open>PutUint32\<close> as the bytes they write;
  \<open>get16\<close> and \<open>get32\<close> read them at an offset. Reading past the end is a run-time panic in Go:
  the definitions that call them are guarded by the length checks of the code.
\<close>

definition be16 :: "u16 \<Rightarrow> bytes" where
  "be16 w = [ucast (drop_bit 8 w), ucast w]"

definition be32 :: "u32 \<Rightarrow> bytes" where
  "be32 w = [ucast (drop_bit 24 w), ucast (drop_bit 16 w), ucast (drop_bit 8 w), ucast w]"

definition get16 :: "bytes \<Rightarrow> nat \<Rightarrow> u16" where
  "get16 b i = push_bit 8 (ucast (b ! i)) OR ucast (b ! (i + 1))"

definition get32 :: "bytes \<Rightarrow> nat \<Rightarrow> u32" where
  "get32 b i = push_bit 24 (ucast (b ! i)) OR push_bit 16 (ucast (b ! (i + 1)))
     OR push_bit 8 (ucast (b ! (i + 2))) OR ucast (b ! (i + 3))"

lemma length_be16 [simp]: "length (be16 w) = 2"
  by (simp add: be16_def)

lemma length_be32 [simp]: "length (be32 w) = 4"
  by (simp add: be32_def)

lemma join16: "push_bit 8 (ucast (ucast (drop_bit 8 w) :: byte)) OR ucast (ucast w :: byte) = (w :: u16)"
  by (rule bit_word_eqI) (auto simp: bit_simps)

lemma join32:
  "push_bit 24 (ucast (ucast (drop_bit 24 w) :: byte)) OR push_bit 16 (ucast (ucast (drop_bit 16 w) :: byte))
     OR push_bit 8 (ucast (ucast (drop_bit 8 w) :: byte)) OR ucast (ucast w :: byte) = (w :: u32)"
  (is "?l = w")
proof (rule bit_word_eqI)
  fix n
  assume "n < LENGTH(32)"
  then show "bit ?l n = bit w n"
    by (cases "n < 8"; cases "n < 16"; cases "n < 24") (auto simp: bit_simps)
qed

lemma get16_be16 [go_bytes]: "get16 (xs @ be16 w @ ys) (length xs) = w"
  by (simp add: get16_def be16_def nth_append join16)

lemma get32_be32 [go_bytes]: "get32 (xs @ be32 w @ ys) (length xs) = w"
  by (simp add: get32_def be32_def nth_append join32)

text \<open>A read at a fixed offset, with the offset given as a number.\<close>

lemma get16_at [go_bytes]: "length xs = n \<Longrightarrow> get16 (xs @ be16 w @ ys) n = w"
  using get16_be16 by auto

lemma get32_at [go_bytes]: "length xs = n \<Longrightarrow> get32 (xs @ be32 w @ ys) n = w"
  using get32_be32 by auto

section \<open>Results\<close>

text \<open>
  A Go function that returns \<open>(value, error)\<close> is a function into \<open>'e + 'a\<close>: \<open>Inl\<close> the error,
  \<open>Inr\<close> the value. \<open>result_bind\<close> is the early return on an error.
\<close>

fun result_bind :: "'e + 'a \<Rightarrow> ('a \<Rightarrow> 'e + 'b) \<Rightarrow> 'e + 'b" where
  "result_bind (Inl e) f = Inl e"
| "result_bind (Inr a) f = f a"

lemma result_bind_Inr: "result_bind r f = Inr b \<longleftrightarrow> (\<exists>a. r = Inr a \<and> f a = Inr b)"
  by (cases r) auto

lemma result_bind_Inl: "result_bind r f = Inl e \<longleftrightarrow> r = Inl e \<or> (\<exists>a. r = Inr a \<and> f a = Inl e)"
  by (cases r) auto

section \<open>Lists\<close>

lemma take_Suc_drop: "i < length xs \<Longrightarrow> drop i xs = xs ! i # drop (Suc i) xs"
  by (simp add: Cons_nth_drop_Suc)

lemma sum_list_nonneg_int: "(\<And>x. x \<in> set xs \<Longrightarrow> 0 \<le> f x) \<Longrightarrow> (0::int) \<le> sum_list (map f xs)"
  by (induction xs) auto

lemma foldl_invariant:
  "P s \<Longrightarrow> (\<And>s x. P s \<Longrightarrow> P (f s x)) \<Longrightarrow> P (foldl f s xs)"
  by (induction xs arbitrary: s) auto

end
