(* ===== verification/Rtp_Session.thy ===== *)
theory Rtp_Session
  imports Prelude
begin

text \<open>
  The shared state of one RTP flow (\<open>core/rtp/session.go\<close>): the SSRC and the next sequence number
  and timestamp. Every sender of a call (audio, silence, PCAP replay, DTMF) draws its numbers
  from here, so the packets of a flow carry consecutive sequence numbers whatever the
  interleaving. Also the outbound counters \<open>SendStats\<close> and the packet the code hands to
  \<open>pion/rtp\<close>, whose marshalling is third-party code and therefore a parameter of the models.
\<close>

section \<open>The session\<close>

record rtp_session =
  SSRC :: u32
  sess_seq :: u16
  sess_ts :: u32

definition NewSession :: "u32 \<Rightarrow> rtp_session" where
  "NewSession ssrc = \<lparr>SSRC = ssrc, sess_seq = 0, sess_ts = 0\<rparr>"

definition NextSeqTS :: "u32 \<Rightarrow> rtp_session \<Rightarrow> (u16 \<times> u32) \<times> rtp_session" where
  "NextSeqTS tsIncrement s =
     ((sess_seq s, sess_ts s), s\<lparr>sess_seq := sess_seq s + 1, sess_ts := sess_ts s + tsIncrement\<rparr>)"

text \<open>A series of calls, one increment per call, and the numbers they hand out.\<close>

fun next_many :: "u32 list \<Rightarrow> rtp_session \<Rightarrow> (u16 \<times> u32) list \<times> rtp_session" where
  "next_many [] s = ([], s)"
| "next_many (d # ds) s =
     (let (x, s1) = NextSeqTS d s; (xs, s2) = next_many ds s1 in (x # xs, s2))"

lemma NextSeqTS_simps [simp]:
  "fst (NextSeqTS d s) = (sess_seq s, sess_ts s)"
  "SSRC (snd (NextSeqTS d s)) = SSRC s"
  "sess_seq (snd (NextSeqTS d s)) = sess_seq s + 1"
  "sess_ts (snd (NextSeqTS d s)) = sess_ts s + d"
  by (simp_all add: NextSeqTS_def)

lemma next_many_fst:
  "fst (next_many ds s)
     = map (\<lambda>i. (sess_seq s + of_nat i, sess_ts s + sum_list (take i ds))) [0..<length ds]"
proof (induction ds arbitrary: s)
  case Nil
  then show ?case by simp
next
  case (Cons d ds)
  have up: "[0..<length (d # ds)] = 0 # map Suc [0..<length ds]"
    by (simp add: map_Suc_upt upt_conv_Cons del: upt_Suc)
  show ?case
    by (simp only: up) (simp add: Cons split_beta Let_def NextSeqTS_def add.assoc add.commute)
qed

lemma next_many_snd:
  "snd (next_many ds s)
     = s\<lparr>sess_seq := sess_seq s + of_nat (length ds), sess_ts := sess_ts s + sum_list ds\<rparr>"
  by (induction ds arbitrary: s) (simp_all add: split_beta Let_def NextSeqTS_def add.assoc)

section \<open>Outbound counters\<close>

record send_stats =
  PacketsSent :: int
  OctetsSent :: int
  BytesSent :: int

definition send_stats0 :: send_stats where
  "send_stats0 = \<lparr>PacketsSent = 0, OctetsSent = 0, BytesSent = 0\<rparr>"

definition count_sent :: "bytes \<Rightarrow> bytes \<Rightarrow> send_stats \<Rightarrow> send_stats" where
  "count_sent payload wire s = s\<lparr>PacketsSent := PacketsSent s + 1,
     OctetsSent := OctetsSent s + int (length payload), BytesSent := BytesSent s + int (length wire)\<rparr>"

section \<open>Packets\<close>

text \<open>The fields of \<open>pionrtp.Packet\<close> that the code sets or reads.\<close>

record rtp_packet =
  Version :: nat
  Marker :: bool
  PayloadType :: byte
  SequenceNumber :: u16
  Timestamp :: u32
  packet_SSRC :: u32
  Payload :: bytes

text \<open>
  The wire format of \<open>pion/rtp\<close> is not under \<open>src/\<close>: \<open>marshal\<close> and \<open>unmarshal\<close> are parameters. What
  the code relies on is the documented behaviour for packets without padding, extension and
  contributing sources: the payload follows a header of 12 bytes that carries the sequence
  number in bytes 2 and 3, and unmarshalling gives the packet back.
\<close>

definition plain_packet :: "rtp_packet \<Rightarrow> bool" where
  "plain_packet p \<longleftrightarrow> Version p = 2 \<and> unat (PayloadType p) < 128"

locale rtp_wire =
  fixes marshal :: "rtp_packet \<Rightarrow> bytes option"
    and unmarshal :: "bytes \<Rightarrow> rtp_packet option"
  assumes marshal_some: "plain_packet p \<Longrightarrow> marshal p \<noteq> None"
    and marshal_payload: "plain_packet p \<Longrightarrow> marshal p = Some raw \<Longrightarrow> drop 12 raw = Payload p"
    and marshal_length: "plain_packet p \<Longrightarrow> marshal p = Some raw \<Longrightarrow> length raw = 12 + length (Payload p)"
    and marshal_seq: "plain_packet p \<Longrightarrow> marshal p = Some raw \<Longrightarrow> get16 raw 2 = SequenceNumber p"
    and unmarshal_marshal: "plain_packet p \<Longrightarrow> marshal p = Some raw \<Longrightarrow> unmarshal raw = Some p"
begin

lemma marshal_obtain:
  assumes "plain_packet p"
  obtains raw where "marshal p = Some raw" "length raw = 12 + length (Payload p)"
    "get16 raw 2 = SequenceNumber p" "unmarshal raw = Some p"
  using marshal_some marshal_length marshal_seq unmarshal_marshal assms by blast

end

text \<open>
  The format of RFC 3550, section 5.1, for such packets. It shows that the laws can hold, and
  gives the concrete parameter for evaluations.
\<close>

definition rfc3550_marshal :: "rtp_packet \<Rightarrow> bytes option" where
  "rfc3550_marshal p = (if plain_packet p
     then Some ([0x80, (if Marker p then 0x80 else 0) OR PayloadType p] @ be16 (SequenceNumber p)
       @ be32 (Timestamp p) @ be32 (packet_SSRC p) @ Payload p)
     else None)"

definition rfc3550_unmarshal :: "bytes \<Rightarrow> rtp_packet option" where
  "rfc3550_unmarshal b = (if length b < 12 \<or> b ! 0 \<noteq> 0x80 then None
     else Some \<lparr>Version = 2, Marker = bit (b ! 1) 7, PayloadType = b ! 1 AND 0x7F,
       SequenceNumber = get16 b 2, Timestamp = get32 b 4, packet_SSRC = get32 b 8,
       Payload = drop 12 b\<rparr>)"

lemma pt7_bit: "unat (w :: byte) < 128 \<Longrightarrow> \<not> bit w 7"
proof -
  assume "unat w < 128"
  then have "\<not> bit (unat w) 7" by (simp add: bit_iff_odd)
  then show ?thesis by (simp add: bit_unsigned_iff)
qed

lemma marker_byte:
  assumes "unat (pt :: byte) < 128"
  shows "bit ((if m then 0x80 else 0) OR pt) 7 = m"
    and "((if m then 0x80 else 0) OR pt) AND 0x7F = pt"
proof -
  have hi: "bit (0x80 :: byte) n \<longleftrightarrow> n = 7" for n
    using bit_exp_iff [of 7 n, where 'a = byte] by auto
  have lo: "bit (0x7F :: byte) n \<longleftrightarrow> n < 7" for n
    using bit_mask_iff [of 7 n, where 'a = byte] by (auto simp: mask_eq_exp_minus_1)
  from assms have p: "\<not> bit pt 7" by (rule pt7_bit)
  show "bit ((if m then 0x80 else 0) OR pt) 7 = m"
    using p by (simp add: bit_simps hi)
  show "((if m then 0x80 else 0) OR pt) AND 0x7F = pt"
  proof (rule bit_word_eqI)
    fix n
    assume "n < LENGTH(8)"
    then have "n < 7 \<or> n = 7" by auto
    then show "bit (((if m then 0x80 else 0) OR pt) AND 0x7F) n = bit pt n"
      using p by (cases m) (auto simp only: bit_and_iff bit_or_iff hi lo bit_0_eq if_True if_False)
  qed
qed

lemma rfc3550_layout:
  assumes "plain_packet p" "rfc3550_marshal p = Some raw"
  shows "length raw = 12 + length (Payload p)" "drop 12 raw = Payload p"
    "get16 raw 2 = SequenceNumber p" "get32 raw 4 = Timestamp p" "get32 raw 8 = packet_SSRC p"
    "raw ! 0 = 0x80" "raw ! 1 = (if Marker p then 0x80 else 0) OR PayloadType p"
proof -
  let ?h = "[0x80, (if Marker p then 0x80 else 0) OR PayloadType p]"
  from assms have raw: "raw = ?h @ be16 (SequenceNumber p) @ be32 (Timestamp p) @ be32 (packet_SSRC p) @ Payload p"
    by (simp add: rfc3550_marshal_def)
  then show "length raw = 12 + length (Payload p)" "drop 12 raw = Payload p"
    "raw ! 0 = 0x80" "raw ! 1 = (if Marker p then 0x80 else 0) OR PayloadType p"
    by (simp_all add: be16_def be32_def)
  show "get16 raw 2 = SequenceNumber p" unfolding raw by (rule get16_at) simp
  show "get32 raw 4 = Timestamp p"
    unfolding raw using get32_at [of "?h @ be16 (SequenceNumber p)" 4] by simp
  show "get32 raw 8 = packet_SSRC p"
    unfolding raw using get32_at [of "?h @ be16 (SequenceNumber p) @ be32 (Timestamp p)" 8] by simp
qed

lemma rfc3550_roundtrip:
  assumes "plain_packet p" "rfc3550_marshal p = Some raw"
  shows "rfc3550_unmarshal raw = Some p"
proof -
  from assms(1) have "Version p = 2" and pt: "unat (PayloadType p) < 128"
    by (simp_all add: plain_packet_def)
  then show ?thesis
    using rfc3550_layout [OF assms] marker_byte [OF pt, of "Marker p"]
    by (simp add: rfc3550_unmarshal_def)
qed

interpretation rfc3550: rtp_wire rfc3550_marshal rfc3550_unmarshal
  by unfold_locales
    (auto simp: rfc3550_marshal_def [of p for p] rfc3550_layout rfc3550_roundtrip)

end
