(* ===== verification/Float64.thy ===== *)
theory Float64
  imports Prelude "HOL-Library.Log_Nat"
begin

text \<open>
  The \<open>float64\<close> arithmetic of Go: a value is a rational number, and every operation rounds its
  exact result to the nearest binary64 number, ties to even, with gradual underflow. Infinities,
  NaN and the sign of zero are left out: the code modelled here adds, multiplies and divides
  by non-zero values of moderate size, far below the overflow threshold. Fused multiply-add,
  which Go permits on some architectures, is not modelled (amd64 does not fuse).

  The facts the components use: rounding is monotone and is the identity on the integers up to
  \<open>2 ^ 53\<close>; so a bound that is such an integer is kept by every operation.
\<close>

type_synonym float64 = rat

section \<open>Rounding to integers\<close>

definition round_even :: "rat \<Rightarrow> int" where
  "round_even x = (let f = \<lfloor>x\<rfloor>; d = x - of_int f
     in if d < 1 / 2 then f else if d > 1 / 2 then f + 1 else if even f then f else f + 1)"

lemma round_even_of_int [simp]: "round_even (of_int n) = n"
  by (simp add: round_even_def)

lemma round_even_near: "round_even x = \<lfloor>x\<rfloor> \<or> round_even x = \<lfloor>x\<rfloor> + 1"
  by (simp add: round_even_def Let_def)

lemma round_even_mono: "x \<le> y \<Longrightarrow> round_even x \<le> round_even y"
proof -
  assume le: "x \<le> y"
  then have fl: "\<lfloor>x\<rfloor> \<le> \<lfloor>y\<rfloor>" by (rule floor_mono)
  show ?thesis
  proof (cases "\<lfloor>x\<rfloor> = \<lfloor>y\<rfloor>")
    case True
    with le show ?thesis by (auto simp: round_even_def Let_def)
  next
    case False
    with fl have "\<lfloor>x\<rfloor> + 1 \<le> \<lfloor>y\<rfloor>" by simp
    with round_even_near [of x] round_even_near [of y] show ?thesis by linarith
  qed
qed

lemma round_even_ge: "of_int n \<le> x \<Longrightarrow> n \<le> round_even x"
  using round_even_mono [of "of_int n" x] by simp

lemma round_even_le: "x \<le> of_int n \<Longrightarrow> round_even x \<le> n"
  using round_even_mono [of x "of_int n"] by simp

section \<open>The binary exponent\<close>

definition expo :: "rat \<Rightarrow> int" where
  "expo x = (let (p, q) = quotient_of x; k = bitlen p - bitlen q
     in if 2 powi k \<le> x then k else k - 1)"

lemma bitlen_powi: "0 < n \<Longrightarrow> (2 powi (bitlen n - 1) :: rat) \<le> of_int n \<and> of_int n < (2 powi bitlen n :: rat)"
proof -
  assume n: "0 < n"
  from n have b: "1 \<le> bitlen n" by (auto simp: bitlen_alt_def)
  from bitlen_bounds [OF n] have lo: "2 ^ nat (bitlen n - 1) \<le> n" and hi: "n < 2 ^ nat (bitlen n)" by auto
  from lo have "(of_int (2 ^ nat (bitlen n - 1)) :: rat) \<le> of_int n" by (simp only: of_int_le_iff)
  moreover from hi have "(of_int n :: rat) < of_int (2 ^ nat (bitlen n))" by (simp only: of_int_less_iff)
  ultimately show ?thesis using b by (simp add: power_int_nonneg_exp)
qed

lemma expo_bounds:
  assumes "0 < x"
  shows "2 powi (expo x) \<le> x \<and> x < 2 powi (expo x + 1)"
proof -
  obtain p q where pq: "quotient_of x = (p, q)" by fastforce
  then have q: "0 < q" by (rule quotient_of_denom_pos)
  from quotient_of_div [OF pq] have x: "x = of_int p / of_int q" by simp
  with assms q have p: "0 < p" by (simp add: zero_less_divide_iff)
  note bp = bitlen_powi [OF p] and bq = bitlen_powi [OF q]
  let ?k = "bitlen p - bitlen q"
  have q': "(0::rat) < of_int q" using q by simp
  have "x < 2 powi (?k + 1)"
  proof -
    have "2 powi (?k + 1) * (of_int q :: rat) \<ge> 2 powi (?k + 1) * 2 powi (bitlen q - 1)"
      using bq by (intro mult_left_mono) simp_all
    moreover have "2 powi (?k + 1) * 2 powi (bitlen q - 1) = (2 powi bitlen p :: rat)"
      by (simp flip: power_int_add)
    ultimately have "of_int p < 2 powi (?k + 1) * (of_int q :: rat)" using bp by linarith
    with q' show ?thesis unfolding x by (simp add: pos_divide_less_eq)
  qed
  moreover have "2 powi (?k - 1) \<le> x"
  proof -
    have "2 powi (?k - 1) * (of_int q :: rat) \<le> 2 powi (?k - 1) * 2 powi (bitlen q)"
      using bq by (intro mult_left_mono) simp_all
    moreover have "2 powi (?k - 1) * 2 powi (bitlen q) = (2 powi (bitlen p - 1) :: rat)"
      by (simp flip: power_int_add)
    ultimately have "2 powi (?k - 1) * (of_int q :: rat) \<le> of_int p" using bp by linarith
    with q' show ?thesis unfolding x by (simp add: pos_le_divide_eq)
  qed
  ultimately show ?thesis by (auto simp: expo_def pq Let_def)
qed

lemma powi_less_cancel: "(2 powi a :: rat) < 2 powi b \<Longrightarrow> a < b"
  by (meson linorder_not_less one_le_numeral power_int_increasing)

lemma expo_mono: "0 < x \<Longrightarrow> x \<le> y \<Longrightarrow> expo x \<le> expo y"
proof -
  assume x: "0 < x" and le: "x \<le> y"
  then have "2 powi (expo x) < (2 powi (expo y + 1) :: rat)"
    using expo_bounds [of x] expo_bounds [of y] by linarith
  from powi_less_cancel [OF this] show ?thesis by simp
qed

lemma expo_le: "0 < x \<Longrightarrow> x < 2 powi (k + 1) \<Longrightarrow> expo x \<le> k"
  using expo_bounds [of x] powi_less_cancel [of "expo x" "k + 1"] by fastforce

section \<open>Rounding to binary64\<close>

text \<open>The exponent of the last place: 53 significant bits, at least \<open>-1074\<close>.\<close>

definition last_place :: "rat \<Rightarrow> int" where
  "last_place x = max (expo \<bar>x\<bar>) (-1022) - 52"

definition fl64 :: "rat \<Rightarrow> float64" where
  "fl64 x = (if x = 0 then 0
     else if 0 < x then of_int (round_even (x / 2 powi last_place x)) * 2 powi last_place x
     else - (of_int (round_even (- x / 2 powi last_place x)) * 2 powi last_place x))"

lemma fl64_0 [simp]: "fl64 0 = 0"
  by (simp add: fl64_def)

lemma fl64_minus: "fl64 (- x) = - fl64 x"
  by (simp add: fl64_def last_place_def)

lemma fl64_nonneg: "0 \<le> x \<Longrightarrow> 0 \<le> fl64 x"
  by (auto simp: fl64_def intro!: mult_nonneg_nonneg round_even_ge)

lemma fl64_nonpos: "x \<le> 0 \<Longrightarrow> fl64 x \<le> 0"
  using fl64_nonneg [of "- x"] by (simp add: fl64_minus)

text \<open>Within one binade the rounded value stays between the powers of two around it.\<close>

lemma fl64_upper:
  assumes "0 < x" "expo x \<le> e" "-1022 \<le> e"
  shows "fl64 x \<le> 2 powi (e + 1)"
proof -
  let ?l = "last_place x"
  from assms have le: "?l \<le> e - 52" by (auto simp: last_place_def)
  have "x < 2 powi (e + 1)"
    using expo_bounds [OF assms(1)] power_int_increasing [of "expo x + 1" "e + 1" "2 :: rat"] assms(2)
    by simp
  then have "x / 2 powi ?l \<le> 2 powi (e + 1) / 2 powi ?l"
    by (simp add: divide_right_mono)
  also have "\<dots> = 2 powi (e + 1 - ?l)" by (simp add: power_int_diff)
  also have "\<dots> = of_int (2 ^ nat (e + 1 - ?l))" using le by (simp add: power_int_nonneg_exp)
  finally have "round_even (x / 2 powi ?l) \<le> 2 ^ nat (e + 1 - ?l)" by (rule round_even_le)
  then have "(of_int (round_even (x / 2 powi ?l)) :: rat) \<le> of_int (2 ^ nat (e + 1 - ?l))"
    by (simp only: of_int_le_iff)
  also have "\<dots> = 2 powi (e + 1 - ?l)" using le by (simp add: power_int_nonneg_exp)
  finally have "of_int (round_even (x / 2 powi ?l)) * 2 powi ?l \<le> (2 powi (e + 1 - ?l) * 2 powi ?l :: rat)"
    by (intro mult_right_mono) simp_all
  also have "\<dots> = 2 powi (e + 1)" by (simp flip: power_int_add)
  finally show ?thesis using assms(1) by (simp add: fl64_def)
qed

lemma fl64_lower:
  assumes "0 < x" "-1022 \<le> expo x"
  shows "2 powi (expo x) \<le> fl64 x"
proof -
  let ?l = "last_place x"
  from assms have l: "?l = expo x - 52" by (auto simp: last_place_def)
  have "of_int (2 ^ 52) = (2 powi (expo x) / 2 powi ?l :: rat)"
    by (simp add: l flip: power_int_diff)
  also have "\<dots> \<le> x / 2 powi ?l"
    using expo_bounds [OF assms(1)] by (simp add: divide_right_mono)
  finally have "2 ^ 52 \<le> round_even (x / 2 powi ?l)" by (rule round_even_ge)
  then have "(of_int (2 ^ 52) :: rat) \<le> of_int (round_even (x / 2 powi ?l))"
    by (simp only: of_int_le_iff)
  then have "2 powi 52 * 2 powi ?l \<le> (of_int (round_even (x / 2 powi ?l)) * 2 powi ?l :: rat)"
    by (intro mult_right_mono) simp_all
  also have "2 powi 52 * 2 powi ?l = (2 powi (expo x) :: rat)"
    by (subst power_int_add [symmetric]) (simp_all add: l)
  finally have "2 powi (expo x) \<le> (of_int (round_even (x / 2 powi ?l)) * 2 powi ?l :: rat)" .
  then show ?thesis using assms(1) by (simp add: fl64_def)
qed

lemma fl64_mono_pos:
  assumes "0 < x" "x \<le> y"
  shows "fl64 x \<le> fl64 y"
proof (cases "last_place x = last_place y")
  case True
  from assms have "round_even (x / 2 powi last_place x) \<le> round_even (y / 2 powi last_place x)"
    by (intro round_even_mono divide_right_mono) simp_all
  with assms True show ?thesis by (auto simp: fl64_def intro!: mult_right_mono)
next
  case False
  with expo_mono [OF assms] assms have less: "expo x < expo y" "-1022 < expo y"
    by (auto simp: last_place_def max_def split: if_splits)
  from assms have y: "0 < y" by simp
  have "fl64 x \<le> 2 powi ((expo y - 1) + 1)"
    by (rule fl64_upper) (use assms less in auto)
  also have "\<dots> \<le> fl64 y" using fl64_lower [OF y] less by simp
  finally show ?thesis .
qed

theorem fl64_mono: "x \<le> y \<Longrightarrow> fl64 x \<le> fl64 y"
proof -
  assume le: "x \<le> y"
  consider "0 < x" | "x \<le> 0" "0 \<le> y" | "y < 0" by linarith
  then show ?thesis
  proof cases
    case 1
    then show ?thesis using le by (rule fl64_mono_pos)
  next
    case 2
    then show ?thesis using fl64_nonpos [of x] fl64_nonneg [of y] by linarith
  next
    case 3
    then have "fl64 (- y) \<le> fl64 (- x)" using le by (intro fl64_mono_pos) simp_all
    then show ?thesis by (simp add: fl64_minus)
  qed
qed

text \<open>Numbers with at most 53 significant bits are not changed.\<close>

lemma fl64_exact_pos:
  assumes "0 < m" "m < 2 ^ 53" "-1074 \<le> k"
  shows "fl64 (of_int m * 2 powi k) = of_int m * 2 powi k"
proof -
  let ?x = "of_int m * 2 powi k :: rat"
  from assms have x: "0 < ?x" by simp
  have "(of_int m :: rat) < of_int (2 ^ 53)" using assms(2) by (simp only: of_int_less_iff)
  then have "?x < 2 powi 53 * 2 powi k" by (intro mult_strict_right_mono) simp_all
  also have "\<dots> = 2 powi ((52 + k) + 1)" by (subst power_int_add [symmetric]) (simp_all add: algebra_simps)
  finally have "expo ?x \<le> 52 + k" using x by (intro expo_le)
  with assms(3) x have l: "last_place ?x \<le> k" by (simp add: last_place_def)
  let ?l = "last_place ?x"
  have "?x / 2 powi ?l = of_int m * 2 powi (k - ?l)" by (simp add: power_int_diff)
  also have "\<dots> = of_int (m * 2 ^ nat (k - ?l))" using l by (simp add: power_int_nonneg_exp)
  finally have "round_even (?x / 2 powi ?l) = m * 2 ^ nat (k - ?l)"
    by (simp only: round_even_of_int)
  moreover have "(2 ^ nat (k - ?l) * 2 powi ?l :: rat) = 2 powi k"
    using l by (simp add: power_int_nonneg_exp [symmetric] flip: power_int_add)
  ultimately show ?thesis using x by (simp add: fl64_def mult.assoc)
qed

lemma fl64_exact:
  assumes "\<bar>m\<bar> < 2 ^ 53" "-1074 \<le> k"
  shows "fl64 (of_int m * 2 powi k) = of_int m * 2 powi k"
proof -
  consider "m = 0" | "0 < m" | "m < 0" by linarith
  then show ?thesis
  proof cases
    case 3
    with assms have "fl64 (of_int (- m) * 2 powi k) = of_int (- m) * 2 powi k"
      by (intro fl64_exact_pos) simp_all
    then show ?thesis by (simp add: fl64_minus)
  qed (use assms in \<open>simp_all add: fl64_exact_pos\<close>)
qed

lemma fl64_of_int [simp]: "\<bar>n\<bar> < 2 ^ 53 \<Longrightarrow> fl64 (of_int n) = of_int n"
  using fl64_exact [of n 0] by simp

lemma fl64_numeral: "(numeral w :: int) < 2 ^ 53 \<Longrightarrow> fl64 (numeral w) = numeral w"
  using fl64_of_int [of "numeral w"] by simp

lemma fl64_le_int: "x \<le> of_int n \<Longrightarrow> \<bar>n\<bar> < 2 ^ 53 \<Longrightarrow> fl64 x \<le> of_int n"
  using fl64_mono [of x "of_int n"] by simp

lemma fl64_ge_int: "of_int n \<le> x \<Longrightarrow> \<bar>n\<bar> < 2 ^ 53 \<Longrightarrow> of_int n \<le> fl64 x"
  using fl64_mono [of "of_int n" x] by simp

section \<open>Evaluation\<close>

text \<open>
  The same function on numerator and denominator, with integer division only: the code equation
  the simplifier evaluates.
\<close>

definition scale :: "int \<Rightarrow> int \<Rightarrow> int \<Rightarrow> int \<times> int" where
  "scale l p q = (if 0 \<le> l then (p, q * 2 ^ nat l) else (p * 2 ^ nat (- l), q))"

definition round_div :: "int \<times> int \<Rightarrow> int" where
  "round_div = (\<lambda>(a, b). let f = a div b; r = 2 * (a mod b)
     in if r < b then f else if r > b then f + 1 else if even f then f else f + 1)"

definition expo_frac :: "int \<Rightarrow> int \<Rightarrow> int" where
  "expo_frac p q = (let k = bitlen p - bitlen q; (a, b) = scale k p q in if b \<le> a then k else k - 1)"

definition fl64_frac :: "int \<Rightarrow> int \<Rightarrow> rat" where
  "fl64_frac p q = (let l = max (expo_frac p q) (-1022) - 52
     in of_int (round_div (scale l p q)) * 2 powi l)"

lemma scale_div:
  "scale l p q = (a, b) \<Longrightarrow> 0 < q \<Longrightarrow> of_int p / of_int q / 2 powi l = (of_int a / of_int b :: rat) \<and> 0 < b"
  by (auto simp: scale_def power_int_def power_inverse field_simps split: if_splits)

lemma round_even_div: "0 < b \<Longrightarrow> round_even (of_int a / of_int b) = round_div (a, b)"
proof -
  assume b: "0 < b"
  have f: "\<lfloor>of_int a / of_int b :: rat\<rfloor> = a div b" by (rule floor_divide_of_int_eq)
  have "of_int a = of_int (a div b) * (of_int b :: rat) + of_int (a mod b)"
    by (simp flip: of_int_mult of_int_add)
  with b have d: "of_int a / of_int b - of_int (a div b) = (of_int (a mod b) / of_int b :: rat)"
    by (simp add: field_simps)
  have "(of_int (a mod b) / of_int b :: rat) < 1 / 2 \<longleftrightarrow> (of_int (2 * (a mod b)) :: rat) < of_int b"
    "(of_int (a mod b) / of_int b :: rat) > 1 / 2 \<longleftrightarrow> (of_int b :: rat) < of_int (2 * (a mod b))"
    using b by (simp_all add: field_simps)
  then show ?thesis by (simp only: round_even_def round_div_def f d Let_def prod.case of_int_less_iff)
qed

lemma expo_frac: "quotient_of x = (p, q) \<Longrightarrow> expo x = expo_frac p q"
proof -
  assume pq: "quotient_of x = (p, q)"
  obtain a b where ab: "scale (bitlen p - bitlen q) p q = (a, b)" by fastforce
  from scale_div [OF ab quotient_of_denom_pos [OF pq]] quotient_of_div [OF pq]
  have x: "x / 2 powi (bitlen p - bitlen q) = of_int a / of_int b" and b: "0 < b" by auto
  have "2 powi (bitlen p - bitlen q) \<le> x \<longleftrightarrow> 1 \<le> x / 2 powi (bitlen p - bitlen q)"
    by (simp add: pos_le_divide_eq)
  also have "\<dots> \<longleftrightarrow> b \<le> a" using b by (simp add: x pos_le_divide_eq)
  finally show ?thesis by (simp add: expo_def expo_frac_def pq ab Let_def)
qed

lemma fl64_frac:
  assumes "quotient_of x = (p, q)" "0 < p"
  shows "fl64 x = fl64_frac p q"
proof -
  from quotient_of_denom_pos [OF assms(1)] quotient_of_div [OF assms(1)] assms(2)
  have q: "0 < q" and x: "x = of_int p / of_int q" and pos: "0 < x" by simp_all
  obtain a b where ab: "scale (last_place x) p q = (a, b)" by fastforce
  from scale_div [OF ab q] have "x / 2 powi last_place x = of_int a / of_int b" "0 < b"
    unfolding x by blast+
  then have "round_even (x / 2 powi last_place x) = round_div (scale (last_place x) p q)"
    by (simp add: ab round_even_div)
  with pos show ?thesis
    by (simp add: fl64_def fl64_frac_def Let_def last_place_def expo_frac [OF assms(1)])
qed

lemma fl64_code [code]:
  "fl64 x = (let (p, q) = quotient_of x
     in if p = 0 then 0 else if 0 < p then fl64_frac p q else - fl64_frac (- p) q)"
proof -
  obtain p q where pq: "quotient_of x = (p, q)" by fastforce
  from quotient_of_denom_pos [OF pq] quotient_of_div [OF pq]
  have q: "0 < q" and x: "x = of_int p / of_int q" by simp_all
  consider "p = 0" | "0 < p" | "p < 0" by linarith
  then show ?thesis
  proof cases
    case 3
    have m: "quotient_of (- x) = (- p, q)" by (simp add: rat_uminus_code pq)
    from fl64_frac [OF m] 3 show ?thesis by (simp add: pq fl64_minus)
  qed (use x pq fl64_frac [OF pq] in simp_all)
qed

section \<open>Operations\<close>

definition fadd :: "float64 \<Rightarrow> float64 \<Rightarrow> float64" where "fadd a b = fl64 (a + b)"
definition fsub :: "float64 \<Rightarrow> float64 \<Rightarrow> float64" where "fsub a b = fl64 (a - b)"
definition fmul :: "float64 \<Rightarrow> float64 \<Rightarrow> float64" where "fmul a b = fl64 (a * b)"
definition fdiv :: "float64 \<Rightarrow> float64 \<Rightarrow> float64" where "fdiv a b = fl64 (a / b)"

text \<open>The conversion \<open>float64(n)\<close> of an integer, and a constant of the source, round once.\<close>

definition fint :: "int \<Rightarrow> float64" where "fint n = fl64 (of_int n)"

lemma fint_mono: "m \<le> n \<Longrightarrow> fint m \<le> fint n"
  by (simp add: fint_def fl64_mono)

lemma fint_exact: "\<bar>n\<bar> < 2 ^ 53 \<Longrightarrow> fint n = of_int n"
  by (simp add: fint_def)

lemma fint_nonneg: "0 \<le> n \<Longrightarrow> 0 \<le> fint n"
  by (simp add: fint_def fl64_nonneg)

text \<open>
  \<open>math.Round\<close> rounds half away from zero; \<open>math.Floor\<close> is the floor; the conversion of a
  \<open>float64\<close> to an integer type truncates towards zero.
\<close>

definition math_round :: "float64 \<Rightarrow> float64" where
  "math_round x = (if 0 \<le> x then of_int \<lfloor>x + 1 / 2\<rfloor> else - of_int \<lfloor>- x + 1 / 2\<rfloor>)"

definition trunc64 :: "float64 \<Rightarrow> int" where
  "trunc64 x = (if 0 \<le> x then \<lfloor>x\<rfloor> else \<lceil>x\<rceil>)"

lemma math_round_of_int [simp]: "math_round (of_int n) = of_int n"
proof -
  have "\<lfloor>of_int m + 1 / 2 :: rat\<rfloor> = m" for m by (simp add: floor_eq_iff)
  from this [of n] this [of "- n"] show ?thesis by (simp add: math_round_def)
qed

lemma math_round_numeral [simp]: "math_round (numeral w) = numeral w"
  using math_round_of_int [of "numeral w"] by simp

lemma math_round_int_bounds:
  assumes "of_int m \<le> x" "x \<le> of_int n" "0 \<le> m"
  shows "of_int m \<le> math_round x \<and> math_round x \<le> of_int n"
proof -
  from assms have x: "0 \<le> x" by (meson of_int_0_le_iff order_trans)
  have "m \<le> \<lfloor>x + 1 / 2\<rfloor>" using assms(1) by (simp add: le_floor_iff)
  moreover have "\<lfloor>x + 1 / 2\<rfloor> \<le> n" using assms(2) by (simp add: floor_le_iff)
  ultimately show ?thesis using x by (simp add: math_round_def)
qed

end
