(* ===== verification/Rtp_Stats.thy ===== *)
theory Rtp_Stats
  imports Rtp_Session Float64
begin

text \<open>
  Receive statistics (\<open>core/rtp/stats.go\<close>) and the quality estimate (\<open>core/rtp/mos.go\<close>). Every
  method holds the mutex for its whole body, so a method is one atomic step on the record.
  A \<open>time.Time\<close> is the number of nanoseconds since the zero time, so \<open>IsZero\<close> is equality
  with 0. Counters of type \<open>int\<close> are unbounded (they would need \<open>2 ^ 63\<close> packets to wrap); the
  16 and 32 bit fields are words. The theory shows what the counters mean for a stream that
  arrives in order, what a late packet does to them, and the ranges of the derived figures.
\<close>

section \<open>State\<close>

record rtp_stats =
  PacketsReceived :: int
  PacketsLost :: int
  Jitter :: float64
  BytesReceived :: int
  lastSeq :: u16
  lastArrival :: int
  initialized :: bool
  rollover :: u16
  highestSeqExtended :: u32
  RecvErrors :: int

definition rtp_stats0 :: rtp_stats where
  "rtp_stats0 = \<lparr>PacketsReceived = 0, PacketsLost = 0, Jitter = 0, BytesReceived = 0, lastSeq = 0,
     lastArrival = 0, initialized = False, rollover = 0, highestSeqExtended = 0, RecvErrors = 0\<rparr>"

record rtp_snapshot =
  snap_PacketsReceived :: int
  snap_PacketsLost :: int
  snap_Jitter :: float64
  snap_HighestSeqExtended :: u32
  snap_PacketLossPct :: float64
  snap_RecvErrors :: int
  snap_BytesReceived :: int

section \<open>Operations\<close>

definition lossPercent :: "rtp_stats \<Rightarrow> float64" where
  "lossPercent s = (let total = PacketsReceived s + PacketsLost s
     in if total = 0 then 0 else fdiv (fmul (fint (PacketsLost s)) 100) (fint total))"

definition Snapshot :: "rtp_stats \<Rightarrow> rtp_snapshot" where
  "Snapshot s = \<lparr>snap_PacketsReceived = PacketsReceived s, snap_PacketsLost = PacketsLost s,
     snap_Jitter = Jitter s, snap_HighestSeqExtended = highestSeqExtended s,
     snap_PacketLossPct = lossPercent s, snap_RecvErrors = RecvErrors s,
     snap_BytesReceived = BytesReceived s\<rparr>"

text \<open>\<open>time.Time.Sub\<close> saturates at the ends of \<open>int64\<close>; \<open>Milliseconds\<close> truncates.\<close>

definition time_sub :: "int \<Rightarrow> int \<Rightarrow> int" where
  "time_sub a b = max (- (2 ^ 63)) (min (2 ^ 63 - 1) (a - b))"

definition milliseconds :: "int \<Rightarrow> int" where
  "milliseconds d = d sdiv 1000000"

definition jitter_update :: "float64 \<Rightarrow> int \<Rightarrow> int \<Rightarrow> float64" where
  "jitter_update j arrival prev =
     (let intervalMs = fint (milliseconds (time_sub arrival prev));
          deviation = fsub intervalMs 20;
          deviation = (if deviation < 0 then - deviation else deviation)
      in fadd (fmul j (fl64 (9 / 10))) (fmul deviation (fl64 (1 / 10))))"

definition extended_seq :: "u16 \<Rightarrow> u16 \<Rightarrow> u32" where
  "extended_seq roll seq = push_bit 16 (ucast roll) OR ucast seq"

definition seq_gap :: "u16 \<Rightarrow> u16 \<Rightarrow> int" where
  "seq_gap seq prev = (let diff = uint seq - uint prev in if diff < 0 then diff + 65536 else diff)"

definition stats_update :: "u16 \<Rightarrow> int \<Rightarrow> rtp_stats \<Rightarrow> rtp_stats" where
  "stats_update seq arrival s =
     (if \<not> initialized s then
        s\<lparr>lastSeq := seq, lastArrival := arrival, initialized := True,
          PacketsReceived := PacketsReceived s + 1, highestSeqExtended := ucast seq\<rparr>
      else
        let seqDiff = i32 (uint seq - uint (lastSeq s));
            roll = (if seqDiff < -0x8000 then rollover s + 1 else rollover s);
            extended = extended_seq roll seq;
            highest = (if extended > highestSeqExtended s then extended else highestSeqExtended s);
            diff = seq_gap seq (lastSeq s);
            lost = (if diff > 1 then PacketsLost s + (diff - 1) else PacketsLost s);
            jit = (if lastArrival s \<noteq> 0 then jitter_update (Jitter s) arrival (lastArrival s)
                   else Jitter s)
        in s\<lparr>PacketsReceived := PacketsReceived s + 1, rollover := roll,
             highestSeqExtended := highest, PacketsLost := lost, lastSeq := seq, Jitter := jit,
             lastArrival := arrival\<rparr>)"

definition add_bytes :: "int \<Rightarrow> rtp_stats \<Rightarrow> rtp_stats" where
  "add_bytes n s = s\<lparr>BytesReceived := BytesReceived s + n\<rparr>"

definition add_recv_error :: "rtp_stats \<Rightarrow> rtp_stats" where
  "add_recv_error s = s\<lparr>RecvErrors := RecvErrors s + 1\<rparr>"

fun stats_run :: "(u16 \<times> int) list \<Rightarrow> rtp_stats \<Rightarrow> rtp_stats" where
  "stats_run [] s = s"
| "stats_run ((q, a) # ps) s = stats_run ps (stats_update q a s)"

lemma stats_run_append: "stats_run (ps @ qs) s = stats_run qs (stats_run ps s)"
  by (induction ps s rule: stats_run.induct) simp_all

section \<open>Well-formedness\<close>

text \<open>The counters never decrease below zero and the jitter average is never negative.\<close>

definition stats_inv :: "rtp_stats \<Rightarrow> bool" where
  "stats_inv s \<longleftrightarrow> 0 \<le> PacketsReceived s \<and> 0 \<le> PacketsLost s \<and> 0 \<le> Jitter s
     \<and> (initialized s \<longrightarrow> 0 < PacketsReceived s)"

lemma fl64_tenths_nonneg: "0 \<le> fl64 (9 / 10)" "0 \<le> fl64 (1 / 10)"
  by (simp_all add: fl64_nonneg)

lemma jitter_update_nonneg: "0 \<le> j \<Longrightarrow> 0 \<le> jitter_update j a l"
  unfolding jitter_update_def Let_def fadd_def fmul_def
  by (intro fl64_nonneg add_nonneg_nonneg mult_nonneg_nonneg fl64_tenths_nonneg) auto

lemma stats_inv_init [inv_intros]: "stats_inv rtp_stats0"
  by (simp add: stats_inv_def rtp_stats0_def)

lemma stats_inv_update [inv_intros]: "stats_inv s \<Longrightarrow> stats_inv (stats_update q a s)"
  by (auto simp: stats_inv_def stats_update_def Let_def jitter_update_nonneg)

lemma stats_inv_run [inv_intros]: "stats_inv s \<Longrightarrow> stats_inv (stats_run ps s)"
  by (induction ps s rule: stats_run.induct) (auto intro: inv_intros)

lemma stats_run_received: "PacketsReceived (stats_run ps s) = PacketsReceived s + int (length ps)"
  by (induction ps s rule: stats_run.induct) (simp_all add: stats_update_def Let_def)

section \<open>Streams that arrive in order\<close>

text \<open>
  The reference: a sender numbers its packets \<open>e\<^sub>0 < e\<^sub>1 < \<dots>\<close> with unbounded numbers and puts the
  low 16 bits on the wire. \<open>tracks s e n l\<close> says that the statistics know the true number of the
  last packet, the number of packets that arrived and the number that are missing.
\<close>

definition tracks :: "rtp_stats \<Rightarrow> nat \<Rightarrow> int \<Rightarrow> int \<Rightarrow> bool" where
  "tracks s e n l \<longleftrightarrow> initialized s \<and> lastSeq s = of_nat e \<and> rollover s = of_nat (e div 65536)
     \<and> highestSeqExtended s = of_nat e \<and> PacketsReceived s = n \<and> PacketsLost s = l"

lemma extended_seq_nat: "e < 2 ^ 32 \<Longrightarrow> extended_seq (of_nat (e div 65536)) (of_nat e) = of_nat e"
proof -
  assume e: "e < 2 ^ 32"
  let ?hi = "push_bit 16 (ucast (of_nat (e div 65536) :: u16)) :: u32"
  let ?lo = "ucast (of_nat e :: u16) :: u32"
  have "extended_seq (of_nat (e div 65536)) (of_nat e) = ?hi + ?lo"
    unfolding extended_seq_def
    by (rule disjunctive_add_eq_or [symmetric], rule bit_eqI) (auto simp: bit_simps)
  moreover have "?lo = of_nat (e mod 65536)"
    by (simp add: unsigned_of_nat take_bit_eq_mod)
  moreover have "?hi = of_nat (65536 * (e div 65536))"
    using e by (simp add: unsigned_of_nat take_bit_eq_mod push_bit_eq_mult mult.commute)
  ultimately have "extended_seq (of_nat (e div 65536)) (of_nat e)
      = of_nat (65536 * (e div 65536) + e mod 65536)"
    by (simp only: of_nat_add)
  then show ?thesis by (simp only: mult_div_mod_eq)
qed

lemma uint_u16_nat: "uint (of_nat e :: u16) = int (e mod 65536)"
  by (simp add: unsigned_of_nat take_bit_eq_mod zmod_int)

text \<open>Where the next packet of an in-order stream lies in the 16-bit circle.\<close>

lemma next_wrap:
  fixes e e' :: nat
  assumes "e < e'" "e' - e < 32768"
  shows "e' div 65536 = e div 65536 \<and> int (e' mod 65536) - int (e mod 65536) = int (e' - e)
    \<or> e' div 65536 = Suc (e div 65536) \<and> int (e' mod 65536) - int (e mod 65536) = int (e' - e) - 65536"
proof -
  have m: "e = 65536 * (e div 65536) + e mod 65536" "e' = 65536 * (e' div 65536) + e' mod 65536"
    and l: "e mod 65536 < 65536" "e' mod 65536 < 65536" by simp_all
  from assms have "e div 65536 \<le> e' div 65536" by (simp add: div_le_mono)
  moreover have "e' div 65536 < Suc (Suc (e div 65536))" using assms m l by linarith
  ultimately have "e' div 65536 = e div 65536 \<or> e' div 65536 = Suc (e div 65536)" by auto
  moreover have "int x = 65536 * int (x div 65536) + int (x mod 65536)" for x
    by (metis mult_div_mod_eq of_nat_add of_nat_mult of_nat_numeral)
  note this [of e] this [of e']
  moreover have "int (e' - e) = int e' - int e" using assms(1) by simp
  ultimately show ?thesis by (elim disjE) linarith+
qed

lemma gap_nat: "e < e' \<Longrightarrow> e' - e < 32768 \<Longrightarrow> seq_gap (of_nat e') (of_nat e) = int e' - int e"
  using next_wrap [of e e'] by (auto simp: seq_gap_def uint_u16_nat Let_def of_nat_diff)

lemma roll_nat:
  assumes "e < e'" "e' - e < 32768"
  shows "(if i32 (uint (of_nat e' :: u16) - uint (of_nat e :: u16)) < -0x8000
      then of_nat (e div 65536) + 1 else of_nat (e div 65536)) = (of_nat (e' div 65536) :: u16)"
proof -
  have small: "i32 (int (e' mod 65536) - int (e mod 65536)) = int (e' mod 65536) - int (e mod 65536)"
    using mod_less_divisor [of 65536 e] mod_less_divisor [of 65536 e'] by (intro i32_id) linarith+
  from next_wrap [OF assms] assms show ?thesis
    by (auto simp: uint_u16_nat small of_nat_diff)
qed

lemma tracks_update:
  assumes "tracks s e n l" "e < e'" "e' - e < 32768" "e' < 2 ^ 32"
  shows "tracks (stats_update (of_nat e') a s) e' (n + 1) (l + (int e' - int e - 1))"
proof -
  have le: "(of_nat e :: u32) < of_nat e'"
    using assms by (simp add: word_less_nat_alt unsigned_of_nat take_bit_eq_mod)
  let ?s = "stats_update (of_nat e') a s"
  from assms(1) have i: "initialized s" and q: "lastSeq s = of_nat e"
    and r: "rollover s = of_nat (e div 65536)" and h: "highestSeqExtended s = of_nat e"
    and c: "PacketsReceived s = n" "PacketsLost s = l" by (simp_all add: tracks_def)
  have "rollover ?s = (if i32 (uint (of_nat e' :: u16) - uint (of_nat e :: u16)) < -0x8000
      then of_nat (e div 65536) + 1 else of_nat (e div 65536))"
    using i by (simp add: stats_update_def Let_def q r)
  then have roll: "rollover ?s = of_nat (e' div 65536)" by (simp only: roll_nat [OF assms(2,3)])
  have "highestSeqExtended ?s = (let x = extended_seq (rollover ?s) (of_nat e')
      in if x > of_nat e then x else of_nat e)"
    using i by (simp add: stats_update_def Let_def h)
  also have "\<dots> = of_nat e'"
    using le assms(4) by (simp add: roll extended_seq_nat)
  finally have "highestSeqExtended ?s = of_nat e'" .
  moreover have "PacketsLost ?s = l + (int e' - int e - 1)"
    using i assms(2) by (auto simp: stats_update_def Let_def q c gap_nat [OF assms(2,3)])
  moreover have "initialized ?s" "lastSeq ?s = of_nat e'" "PacketsReceived ?s = n + 1"
    using i c by (simp_all add: stats_update_def Let_def)
  ultimately show ?thesis using roll by (simp add: tracks_def)
qed

text \<open>The whole stream: \<open>arrivals\<close> pairs the true numbers with the arrival times.\<close>

fun in_order :: "nat \<Rightarrow> nat list \<Rightarrow> bool" where
  "in_order e [] = True"
| "in_order e (e' # es) = (e < e' \<and> e' - e < 32768 \<and> e' < 2 ^ 32 \<and> in_order e' es)"

definition on_wire :: "nat \<Rightarrow> int \<Rightarrow> u16 \<times> int" where
  "on_wire e a = (of_nat e, a)"

lemma tracks_run:
  assumes "tracks s e n l" "in_order e (map fst ps)"
  shows "tracks (stats_run (map (\<lambda>(e, a). on_wire e a) ps) s) (last (e # map fst ps))
    (n + int (length ps)) (l + (int (last (e # map fst ps)) - int e - int (length ps)))"
  using assms
proof (induction ps arbitrary: s e n l)
  case Nil
  then show ?case by simp
next
  case (Cons p ps)
  obtain e' a where p: "p = (e', a)" by fastforce
  with Cons.prems have st: "e < e'" "e' - e < 32768" "e' < 2 ^ 32" and rest: "in_order e' (map fst ps)"
    by simp_all
  from tracks_update [OF Cons.prems(1) st, of a]
  have "tracks (stats_update (of_nat e') a s) e' (n + 1) (l + (int e' - int e - 1))" .
  from Cons.IH [OF this rest] show ?case
    by (simp add: p on_wire_def algebra_simps split: if_splits)
qed

lemma tracks_first: "e < 65536 \<Longrightarrow> tracks (stats_update (of_nat e) a rtp_stats0) e 1 0"
  by (simp add: tracks_def stats_update_def rtp_stats0_def unsigned_of_nat take_bit_eq_mod)

lemmas tracks_facts = tracks_def tracks_run tracks_first

text \<open>C27: For a stream of packets that arrive in the order of their numbers, with fewer than 32768
  numbers between two arrivals, the counters are exact across any number of 16-bit rollovers:
  every arrival is counted, \<open>PacketsLost\<close> is the number of missing packets and
  \<open>highestSeqExtended\<close> is the true number of the last one.\<close>
theorem stats_in_order:
  assumes "e < 65536" "in_order e (map fst ps)"
  shows "let s = stats_run (map (\<lambda>(e, a). on_wire e a) ((e, a) # ps)) rtp_stats0;
             z = last (e # map fst ps)
    in PacketsReceived s = int (length ps) + 1
       \<and> PacketsLost s = int z - int e - int (length ps)
       \<and> highestSeqExtended s = of_nat z"
  using tracks_run [OF tracks_first [OF assms(1), of a] assms(2)]
  by (simp add: on_wire_def tracks_def)

theorem stats_in_order_witness:
  "let s = stats_run (map (\<lambda>(e, a). on_wire e a) [(65534, 0), (65535, 20), (65538, 40)]) rtp_stats0
    in PacketsReceived s = 3 \<and> PacketsLost s = 2 \<and> highestSeqExtended s = 65538"
  using stats_in_order [of 65534 "[(65535, 20), (65538, 40)]" 0] by simp

section \<open>Late packets\<close>

text \<open>A packet that arrives \<open>k\<close> numbers behind the last one (reordered by the network) is taken
  for a step forward of \<open>65536 - k\<close>: it adds \<open>65535 - k\<close> to \<open>PacketsLost\<close>, although nothing was
  lost.\<close>
theorem late_packet_counted_as_gap:
  assumes "initialized s" "1 \<le> k" "k \<le> 65534"
  shows "PacketsLost (stats_update (lastSeq s - of_nat k) a s) = PacketsLost s + (65535 - int k)"
proof -
  have k: "uint (of_nat k :: u16) = int k"
    using assms by (simp add: unsigned_of_nat take_bit_eq_mod)
  have "seq_gap (lastSeq s - of_nat k) (lastSeq s) = 65536 - int k"
    using assms by (auto simp: seq_gap_def Let_def uint_sub_if' k)
  with assms show ?thesis by (simp add: stats_update_def Let_def)
qed

theorem late_packet_counted_as_gap_witness:
  "PacketsLost (stats_update (12 - of_nat 1) 60 (stats_run [(10, 20), (12, 40)] rtp_stats0)) = 1 + 65534"
proof -
  let ?s = "stats_run [(10, 20), (12, 40)] rtp_stats0"
  have s: "initialized ?s" "lastSeq ?s = 12" "PacketsLost ?s = 1"
    by (simp_all add: stats_update_def rtp_stats0_def seq_gap_def Let_def)
  show ?thesis using late_packet_counted_as_gap [OF s(1), of 1 60] s by simp
qed

section \<open>Derived figures\<close>

lemma seq_gap_bound: "seq_gap q p \<le> 65535"
proof -
  have "uint q < 65536" using uint_bounded [of q] by simp
  moreover have "0 \<le> uint p" by simp
  ultimately have "uint q - uint p \<le> 65535" by linarith
  then show ?thesis by (simp add: seq_gap_def Let_def)
qed

lemma stats_run_total:
  "PacketsReceived (stats_run ps s) + PacketsLost (stats_run ps s)
     \<le> PacketsReceived s + PacketsLost s + 65536 * int (length ps)"
proof (induction ps s rule: stats_run.induct)
  case (2 q a ps s)
  have "PacketsReceived (stats_update q a s) + PacketsLost (stats_update q a s)
      \<le> PacketsReceived s + PacketsLost s + 65536"
    using seq_gap_bound [of q "lastSeq s"] by (simp add: stats_update_def Let_def)
  with 2 show ?case by simp
qed simp

lemma lossPercent_range:
  assumes "stats_inv s" "PacketsReceived s + PacketsLost s < 2 ^ 46"
  shows "0 \<le> lossPercent s \<and> lossPercent s \<le> 100"
proof (cases "PacketsReceived s + PacketsLost s = 0")
  case True
  then show ?thesis by (simp add: lossPercent_def)
next
  case False
  let ?l = "PacketsLost s" and ?t = "PacketsReceived s + PacketsLost s"
  from assms False have b: "0 \<le> ?l" "?l \<le> ?t" "0 < ?t" by (auto simp: stats_inv_def)
  have f: "fint ?l = of_int ?l" "fint ?t = of_int ?t"
    using b assms(2) by (simp_all add: fint_exact)
  have "fmul (of_int ?l) 100 = fl64 (of_int (?l * 100))" by (simp add: fmul_def)
  also have "\<dots> = of_int (?l * 100)" using b assms(2) by (intro fl64_of_int) simp
  finally have e: "lossPercent s = fl64 (of_int (?l * 100) / of_int ?t)"
    using False by (simp add: lossPercent_def f fdiv_def)
  have t: "(0::rat) < of_int ?t" using b(3) by (simp only: of_int_0_less_iff)
  have "of_int (?l * 100) \<le> (of_int (100 * ?t) :: rat)"
    unfolding of_int_le_iff mult.commute [of _ 100] by (rule mult_left_mono [OF b(2)]) simp
  with t have "of_int (?l * 100) / of_int ?t \<le> (of_int 100 :: rat)"
    by (simp add: pos_divide_le_eq)
  moreover have "0 \<le> of_int (?l * 100) / (of_int ?t :: rat)"
    using b t by (intro divide_nonneg_pos) simp_all
  ultimately show ?thesis
    unfolding e using fl64_le_int [of _ 100] fl64_nonneg by simp
qed

text \<open>After any sequence of fewer than \<open>2 ^ 30\<close> packets, in whatever order and at whatever times,
  the loss percentage of a snapshot is between 0 and 100 and its jitter is not negative, in
  \<open>float64\<close> arithmetic.\<close>
theorem snapshot_ranges:
  assumes "length ps < 2 ^ 30"
  shows "0 \<le> snap_PacketLossPct (Snapshot (stats_run ps rtp_stats0))
    \<and> snap_PacketLossPct (Snapshot (stats_run ps rtp_stats0)) \<le> 100
    \<and> 0 \<le> snap_Jitter (Snapshot (stats_run ps rtp_stats0))"
proof -
  let ?s = "stats_run ps rtp_stats0"
  have inv: "stats_inv ?s" by (intro inv_intros)
  have "PacketsReceived ?s + PacketsLost ?s < 2 ^ 46"
    using stats_run_total [of ps rtp_stats0] assms by (simp add: rtp_stats0_def)
  from lossPercent_range [OF inv this] inv show ?thesis
    by (simp add: Snapshot_def stats_inv_def)
qed

theorem snapshot_ranges_witness:
  "0 \<le> snap_PacketLossPct (Snapshot (stats_run [(7, 20), (9, 40), (8, 60)] rtp_stats0))
    \<and> snap_PacketLossPct (Snapshot (stats_run [(7, 20), (9, 40), (8, 60)] rtp_stats0)) \<le> 100
    \<and> 0 \<le> snap_Jitter (Snapshot (stats_run [(7, 20), (9, 40), (8, 60)] rtp_stats0))"
  using snapshot_ranges [of "[(7, 20), (9, 40), (8, 60)]"] by simp

end
