(* ===== verification/Mos.thy ===== *)
theory Mos
  imports Rtp_Stats
begin

text \<open>
  The E-model estimate of call quality (\<open>core/rtp/mos.go\<close>), in \<open>float64\<close> arithmetic. A constant of
  the source is the binary64 number nearest to it.
\<close>

definition mos_R :: "float64 \<Rightarrow> float64 \<Rightarrow> float64" where
  "mos_R loss jitterMs =
     fsub (fsub (fl64 (942 / 10)) (fmul loss (5 / 2))) (fmul jitterMs (fl64 (1 / 10)))"

definition clamp_R :: "float64 \<Rightarrow> float64" where
  "clamp_R R = (if R < 0 then 0 else if R > 100 then 100 else R)"

definition mos_of_R :: "float64 \<Rightarrow> float64" where
  "mos_of_R R = fadd (fadd 1 (fmul (fl64 (35 / 1000)) R))
     (fmul (fmul (fmul R (fsub R 60)) (fsub 100 R)) (fl64 (7 / 1000000)))"

definition round2 :: "float64 \<Rightarrow> float64" where
  "round2 x = fdiv (math_round (fmul x 100)) 100"

definition CalculateMOS :: "float64 \<Rightarrow> float64 \<Rightarrow> float64" where
  "CalculateMOS loss jitterMs = round2 (max 1 (min 5 (mos_of_R (clamp_R (mos_R loss jitterMs)))))"

definition MOSGrade :: "float64 \<Rightarrow> string" where
  "MOSGrade mos =
     (if fl64 (43 / 10) \<le> mos then ''Excellent''
      else if 4 \<le> mos then ''Good''
      else if fl64 (35 / 10) \<le> mos then ''Fair''
      else if 3 \<le> mos then ''Poor''
      else ''Bad'')"

lemma mos_round_range:
  assumes "1 \<le> m" "m \<le> 5"
  shows "1 \<le> round2 m \<and> round2 m \<le> 5"
proof -
  have "of_int 100 \<le> fmul m 100" "fmul m 100 \<le> of_int 500"
    using assms fl64_ge_int [of 100 "m * 100"] fl64_le_int [of "m * 100" 500] by (simp_all add: fmul_def)
  from math_round_int_bounds [OF this] have "100 \<le> math_round (fmul m 100)" "math_round (fmul m 100) \<le> 500"
    by simp_all
  then have "1 \<le> math_round (fmul m 100) / 100" "math_round (fmul m 100) / 100 \<le> 5" by simp_all
  then show ?thesis
    using fl64_ge_int [of 1 "math_round (fmul m 100) / 100"]
      fl64_le_int [of "math_round (fmul m 100) / 100" 5] by (simp add: fdiv_def round2_def)
qed

text \<open>Whatever the loss and jitter figures, the estimate lies between 1.0 and 5.0 after all
  roundings of the \<open>float64\<close> computation.\<close>
theorem mos_range: "1 \<le> CalculateMOS loss jitterMs \<and> CalculateMOS loss jitterMs \<le> 5"
  unfolding CalculateMOS_def by (rule mos_round_range) simp_all

section \<open>The ends of the scale\<close>

lemma mos_R_lossy:
  assumes "40 \<le> loss" "0 \<le> jitterMs"
  shows "mos_R loss jitterMs \<le> 0"
proof -
  have "100 \<le> fmul loss (5 / 2)"
    using fl64_ge_int [of 100 "loss * (5 / 2)"] assms by (simp add: fmul_def)
  moreover have "fl64 (942 / 10) \<le> 100" using fl64_le_int [of "942 / 10" 100] by simp
  ultimately have "fsub (fl64 (942 / 10)) (fmul loss (5 / 2)) \<le> 0"
    by (simp add: fsub_def fl64_nonpos)
  moreover have "0 \<le> fmul jitterMs (fl64 (1 / 10))"
    using assms fl64_tenths_nonneg by (simp add: fmul_def fl64_nonneg)
  ultimately show ?thesis by (simp add: mos_R_def fsub_def [of "fsub _ _"] fl64_nonpos)
qed

text \<open>At 40\,\% packet loss or more the estimate is exactly 1.0, whatever the jitter.\<close>
theorem mos_floor:
  assumes "40 \<le> loss" "0 \<le> jitterMs"
  shows "CalculateMOS loss jitterMs = 1"
proof -
  from mos_R_lossy [OF assms]
  have "clamp_R (mos_R loss jitterMs) = 0" by (auto simp: clamp_R_def)
  then show ?thesis
    by (simp add: CalculateMOS_def mos_of_R_def round2_def fmul_def fadd_def fdiv_def fl64_numeral
        fl64_of_int [of 1, simplified])
qed

theorem mos_floor_witness: "CalculateMOS 50 3 = 1"
  using mos_floor [of 50 3] by simp

section \<open>A clean call\<close>

text \<open>Packets in order, none missing, exactly 20\,ms apart.\<close>

definition clean_packets :: "nat \<Rightarrow> int \<Rightarrow> nat \<Rightarrow> (u16 \<times> int) list" where
  "clean_packets e t n = map (\<lambda>i. (of_nat (e + i), t + 20000000 * int i)) [0..<n]"

lemma jitter_update_20ms: "jitter_update 0 (t + 20000000) t = 0"
proof -
  have "milliseconds (time_sub (t + 20000000) t) = 20" by (simp add: milliseconds_def time_sub_def)
  then show ?thesis
    by (simp add: jitter_update_def fint_exact fsub_def fmul_def fadd_def)
qed

lemma stats_update_clean:
  assumes "initialized s" "lastSeq s = of_nat e" "lastArrival s = t" "Jitter s = 0" "PacketsLost s = 0"
  shows "initialized (stats_update (of_nat (e + 1)) (t + 20000000) s)"
    "lastSeq (stats_update (of_nat (e + 1)) (t + 20000000) s) = of_nat (e + 1)"
    "lastArrival (stats_update (of_nat (e + 1)) (t + 20000000) s) = t + 20000000"
    "Jitter (stats_update (of_nat (e + 1)) (t + 20000000) s) = 0"
    "PacketsLost (stats_update (of_nat (e + 1)) (t + 20000000) s) = 0"
  using assms gap_nat [of e "e + 1"] by (simp_all add: stats_update_def Let_def jitter_update_20ms)

lemma clean_packets_Suc:
  "clean_packets e t (Suc n) = (of_nat e, t) # clean_packets (e + 1) (t + 20000000) n"
  by (simp add: clean_packets_def upt_conv_Cons map_Suc_upt [symmetric] algebra_simps del: upt_Suc)

lemma stats_run_clean:
  assumes "initialized s" "lastSeq s = of_nat e" "lastArrival s = t" "Jitter s = 0" "PacketsLost s = 0"
  shows "Jitter (stats_run (clean_packets (e + 1) (t + 20000000) n) s) = 0
    \<and> PacketsLost (stats_run (clean_packets (e + 1) (t + 20000000) n) s) = 0"
  using assms
proof (induction n arbitrary: s e t)
  case 0
  then show ?case by (simp add: clean_packets_def)
next
  case (Suc n)
  from Suc.IH [OF stats_update_clean [OF Suc.prems]] show ?case
    by (simp add: clean_packets_Suc)
qed

text \<open>A call whose packets arrive in order, 20\,ms apart and without gaps (from any first number,
  over any number of rollovers) is rated with the top of the scale the formula can reach:
  4.43, \<open>Excellent\<close>.\<close>
theorem clean_call_rating:
  "let snap = Snapshot (stats_run (clean_packets e t (Suc n)) rtp_stats0);
       mos = CalculateMOS (snap_PacketLossPct snap) (snap_Jitter snap)
   in snap_PacketLossPct snap = 0 \<and> mos = fl64 (443 / 100) \<and> MOSGrade mos = ''Excellent''"
proof -
  let ?s = "stats_update (of_nat e) t rtp_stats0"
  have "initialized ?s" "lastSeq ?s = of_nat e" "lastArrival ?s = t" "Jitter ?s = 0" "PacketsLost ?s = 0"
    by (simp_all add: stats_update_def rtp_stats0_def)
  from stats_run_clean [OF this, of n]
  have "lossPercent (stats_run (clean_packets e t (Suc n)) rtp_stats0) = 0"
    and "Jitter (stats_run (clean_packets e t (Suc n)) rtp_stats0) = 0"
    by (simp_all add: clean_packets_Suc lossPercent_def fint_def fmul_def fdiv_def Let_def)
  moreover have "CalculateMOS 0 0 = fl64 (443 / 100)" by code_simp
  moreover have "MOSGrade (fl64 (443 / 100)) = ''Excellent''" by code_simp
  ultimately show ?thesis by (simp add: Snapshot_def)
qed

end
