(* ===== verification/Recorder.thy ===== *)
theory Recorder
  imports Prelude "HOL-Library.Sublist"
begin

text \<open>
  The recorder of received audio (\<open>core/rtp/recorder.go\<close>): an in-memory buffer that every write
  extends at once, and a channel of 4096 frames to a goroutine that writes them to the file. The
  operations are the callers' \<open>Write\<close>, one iteration of the goroutine \<open>fileWriter\<close>, and \<open>Close\<close>;
  a panic of the code (a send on, or a second close of, the closed channel) is \<open>None\<close>. The
  theory shows that no frame is lost without being counted, that the file holds the accepted
  frames in order once the recorder is closed, and that it equals the buffer when no frame was
  dropped. The interface \<open>frame_sink\<close> is what the jitter buffer uses of it.
\<close>

section \<open>State and operations\<close>

text \<open>\<open>rec_queue\<close> is the content of \<open>writeCh\<close>, or \<open>None\<close> when the recorder has no file;
  \<open>rec_written\<close> the calls of \<open>file.Write\<close>, whose errors the code ignores.\<close>

record recorder =
  rec_buf :: bytes
  rec_queue :: "bytes list option"
  rec_written :: "bytes list"
  DroppedFrames :: int
  rec_closed :: bool

definition writeCh_cap :: nat where
  "writeCh_cap = 4096"

text \<open>\<open>create\<close> stands for \<open>os.Create\<close>: whether it succeeds on a path.\<close>

definition NewRecorder :: "(string \<Rightarrow> bool) \<Rightarrow> string \<Rightarrow> recorder option" where
  "NewRecorder create path =
     (if path \<noteq> '''' then
        (if \<not> create path then None
         else Some \<lparr>rec_buf = [], rec_queue = Some [], rec_written = [], DroppedFrames = 0, rec_closed = False\<rparr>)
      else Some \<lparr>rec_buf = [], rec_queue = None, rec_written = [], DroppedFrames = 0, rec_closed = False\<rparr>)"

definition rec_Write :: "bytes \<Rightarrow> recorder \<Rightarrow> recorder option" where
  "rec_Write payload r =
     (if length payload = 0 then Some r
      else let r = r\<lparr>rec_buf := rec_buf r @ payload\<rparr> in
        case rec_queue r of
          None \<Rightarrow> Some r
        | Some q \<Rightarrow>
            if rec_closed r then None
            else if length q < writeCh_cap then Some (r\<lparr>rec_queue := Some (q @ [payload])\<rparr>)
            else Some (r\<lparr>DroppedFrames := DroppedFrames r + 1\<rparr>))"

text \<open>One iteration of the loop of \<open>fileWriter\<close>; with nothing queued it waits.\<close>

definition fileWriter_step :: "recorder \<Rightarrow> recorder" where
  "fileWriter_step r = (case rec_queue r of
       Some (b # q) \<Rightarrow> r\<lparr>rec_queue := Some q, rec_written := rec_written r @ [b]\<rparr>
     | _ \<Rightarrow> r)"

text \<open>\<open>Close\<close> closes the channel and waits until the goroutine has drained it.\<close>

definition rec_Close :: "recorder \<Rightarrow> recorder option" where
  "rec_Close r = (case rec_queue r of
       None \<Rightarrow> Some r
     | Some q \<Rightarrow>
         if rec_closed r then None
         else Some ((fileWriter_step ^^ length q) (r\<lparr>rec_closed := True\<rparr>)))"

section \<open>Interleavings\<close>

datatype rec_event = Write bytes | Drain | Close

fun rec_step :: "rec_event \<Rightarrow> recorder \<Rightarrow> recorder option" where
  "rec_step (Write p) r = rec_Write p r"
| "rec_step Drain r = Some (fileWriter_step r)"
| "rec_step Close r = rec_Close r"

fun rec_run :: "rec_event list \<Rightarrow> recorder \<Rightarrow> recorder option" where
  "rec_run [] r = Some r"
| "rec_run (e # es) r = Option.bind (rec_step e r) (rec_run es)"

fun frames_of :: "rec_event list \<Rightarrow> bytes list" where
  "frames_of [] = []"
| "frames_of (Write p # es) = (if p = [] then frames_of es else p # frames_of es)"
| "frames_of (_ # es) = frames_of es"

definition rec_accepted :: "recorder \<Rightarrow> bytes list" where
  "rec_accepted r = rec_written r @ (case rec_queue r of None \<Rightarrow> [] | Some q \<Rightarrow> q)"

text \<open>What holds of a recorder with a file after the frames \<open>fs\<close> were written to it.\<close>

definition rec_inv :: "bytes list \<Rightarrow> recorder \<Rightarrow> bool" where
  "rec_inv fs r \<longleftrightarrow> (\<exists>q. rec_queue r = Some q \<and> length q \<le> writeCh_cap \<and> (rec_closed r \<longrightarrow> q = []))
     \<and> rec_buf r = concat fs \<and> subseq (rec_accepted r) fs
     \<and> 0 \<le> DroppedFrames r \<and> int (length (rec_accepted r)) + DroppedFrames r = int (length fs)"

lemma drain_all:
  "rec_queue r = Some q \<Longrightarrow>
   (fileWriter_step ^^ length q) r = r\<lparr>rec_queue := Some [], rec_written := rec_written r @ q\<rparr>"
proof (induction q arbitrary: r)
  case Nil
  then show ?case by simp
next
  case (Cons b q)
  let ?r = "fileWriter_step r"
  from Cons.prems have r: "?r = r\<lparr>rec_queue := Some q, rec_written := rec_written r @ [b]\<rparr>"
    by (simp add: fileWriter_step_def)
  then have "(fileWriter_step ^^ length q) ?r = ?r\<lparr>rec_queue := Some [], rec_written := rec_written ?r @ q\<rparr>"
    by (intro Cons.IH) simp
  then show ?case by (simp add: r funpow_swap1)
qed

lemma subseq_snoc: "subseq xs ys \<Longrightarrow> subseq (xs @ [y]) (ys @ [y])"
  by (simp add: list_emb_append_mono)

lemma rec_inv_write [inv_intros]:
  assumes "rec_inv fs r" "rec_Write p r = Some r'"
  shows "rec_inv (if p = [] then fs else fs @ [p]) r'"
  using assms subseq_snoc [of "rec_accepted r" fs p]
  by (auto simp: rec_inv_def rec_Write_def rec_accepted_def Let_def split: if_splits)

lemma rec_inv_drain [inv_intros]: "rec_inv fs r \<Longrightarrow> rec_inv fs (fileWriter_step r)"
  by (auto simp: rec_inv_def rec_accepted_def fileWriter_step_def split: list.splits)

lemma rec_inv_close [inv_intros]: "rec_inv fs r \<Longrightarrow> rec_Close r = Some r' \<Longrightarrow> rec_inv fs r'"
  by (auto simp: rec_inv_def rec_accepted_def rec_Close_def drain_all split: if_splits)

lemma rec_inv_run:
  "rec_inv fs r \<Longrightarrow> rec_run es r = Some r' \<Longrightarrow> rec_inv (fs @ frames_of es) r'"
proof (induction es arbitrary: fs r)
  case Nil
  then show ?case by simp
next
  case (Cons e es)
  then obtain r1 where step: "rec_step e r = Some r1" and rest: "rec_run es r1 = Some r'"
    by (auto simp: bind_eq_Some_conv)
  have "rec_inv (fs @ frames_of [e]) r1"
    using rec_inv_write [OF Cons.prems(1)] rec_inv_drain [OF Cons.prems(1)]
      rec_inv_close [OF Cons.prems(1)] step
    by (cases e) (fastforce split: if_splits)+
  from Cons.IH [OF this rest] show ?case by (cases e) auto
qed

lemma rec_inv_new: "NewRecorder create path = Some r \<Longrightarrow> path \<noteq> '''' \<Longrightarrow> rec_inv [] r"
  by (auto simp: NewRecorder_def rec_inv_def rec_accepted_def writeCh_cap_def split: if_splits)

text \<open>Whatever the interleaving of callers, file writer and \<open>Close\<close>, the in-memory buffer is the
  concatenation of all frames written, the frames that reached the file or the channel are a
  subsequence of them in order, and the frames missing from it are exactly as many as
  \<open>DroppedFrames\<close> says.\<close>
theorem recorder_accounts_for_frames:
  assumes "NewRecorder create path = Some r" "path \<noteq> ''''" "rec_run es r = Some r'"
  shows "rec_buf r' = concat (frames_of es) \<and> subseq (rec_accepted r') (frames_of es)
    \<and> int (length (frames_of es)) = int (length (rec_accepted r')) + DroppedFrames r'"
  using rec_inv_run [OF rec_inv_new [OF assms(1,2)] assms(3)] by (simp add: rec_inv_def)

theorem recorder_accounts_for_frames_witness:
  "\<exists>r'. rec_run [Write [1, 2], Drain, Write [], Write [3], Close]
      \<lparr>rec_buf = [], rec_queue = Some [], rec_written = [], DroppedFrames = 0, rec_closed = False\<rparr> = Some r'
    \<and> rec_buf r' = [1, 2, 3] \<and> subseq (rec_accepted r') [[1, 2], [3]]"
proof -
  let ?r = "\<lparr>rec_buf = [], rec_queue = Some [], rec_written = [], DroppedFrames = 0, rec_closed = False\<rparr>"
  let ?es = "[Write [1, 2], Drain, Write [], Write [3], Close]"
  have new: "NewRecorder (\<lambda>_. True) ''out.raw'' = Some ?r" by (simp add: NewRecorder_def)
  obtain r' where run: "rec_run ?es ?r = Some r'"
    by (simp add: rec_Write_def fileWriter_step_def rec_Close_def writeCh_cap_def)
  from recorder_accounts_for_frames [OF new _ run] run show ?thesis by simp
qed

lemma rec_accepted_closed:
  assumes "rec_inv fs r" "rec_closed r"
  shows "rec_queue r = Some [] \<and> rec_accepted r = rec_written r"
  using assms by (auto simp: rec_inv_def rec_accepted_def)

lemma rec_complete:
  assumes "rec_inv fs r" "DroppedFrames r = 0"
  shows "rec_accepted r = fs"
  using assms by (auto simp: rec_inv_def intro: subseq_same_length)

lemma rec_Close_closed: "rec_Close r = Some r' \<Longrightarrow> rec_queue r \<noteq> None \<Longrightarrow> rec_closed r'"
  by (auto simp: rec_Close_def drain_all split: if_splits)

lemma rec_run_snoc: "rec_run (es @ [e]) r = Option.bind (rec_run es r) (rec_step e)"
proof (induction es arbitrary: r)
  case Nil
  then show ?case by (cases "rec_step e r") auto
next
  case (Cons a es)
  then show ?case by (cases "rec_step a r") auto
qed

text \<open>When \<open>Close\<close> returns, every accepted frame has been written to the file; without dropped
  frames the file holds all the audio of the buffer.\<close>
theorem recorder_close_flushes:
  assumes "NewRecorder create path = Some r" "path \<noteq> ''''" "rec_run (es @ [Close]) r = Some r'"
  shows "rec_queue r' = Some [] \<and> (DroppedFrames r' = 0 \<longrightarrow> concat (rec_written r') = rec_buf r')"
proof -
  have inv: "rec_inv (frames_of (es @ [Close])) r'"
    using rec_inv_run [OF rec_inv_new [OF assms(1,2)] assms(3)] by simp
  obtain r1 where run1: "rec_run es r = Some r1" and close: "rec_Close r1 = Some r'"
    using assms(3) by (auto simp: rec_run_snoc bind_eq_Some_conv)
  have "rec_inv (frames_of es) r1"
    using rec_inv_run [OF rec_inv_new [OF assms(1,2)] run1] by simp
  then have "rec_queue r1 \<noteq> None" by (auto simp: rec_inv_def)
  from rec_accepted_closed [OF inv rec_Close_closed [OF close this]]
  have q: "rec_queue r' = Some []" "rec_accepted r' = rec_written r'" by simp_all
  have "DroppedFrames r' = 0 \<longrightarrow> rec_written r' = frames_of (es @ [Close])"
    using rec_complete [OF inv] q by simp
  moreover have "rec_buf r' = concat (frames_of (es @ [Close]))"
    using inv by (simp add: rec_inv_def)
  ultimately show ?thesis using q by simp
qed

theorem recorder_close_flushes_witness:
  "\<exists>r'. rec_run ([Write [1, 2], Write [3]] @ [Close])
      \<lparr>rec_buf = [], rec_queue = Some [], rec_written = [], DroppedFrames = 0, rec_closed = False\<rparr> = Some r'
    \<and> DroppedFrames r' = 0 \<and> concat (rec_written r') = rec_buf r'"
proof -
  let ?r = "\<lparr>rec_buf = [], rec_queue = Some [], rec_written = [], DroppedFrames = 0, rec_closed = False\<rparr>"
  let ?es = "[Write [1, 2], Write [3]]"
  have new: "NewRecorder (\<lambda>_. True) ''out.raw'' = Some ?r" by (simp add: NewRecorder_def)
  obtain r' where run: "rec_run (?es @ [Close]) ?r = Some r'" and "DroppedFrames r' = 0"
    by (simp add: rec_Write_def fileWriter_step_def rec_Close_def writeCh_cap_def numeral_2_eq_2)
  with recorder_close_flushes [OF new _ run] show ?thesis by simp
qed

section \<open>What the callers rely on\<close>

text \<open>A sink of audio frames: each write extends the audio heard so far.\<close>

primrec put_all :: "(bytes \<Rightarrow> 's \<Rightarrow> 's option) \<Rightarrow> bytes list \<Rightarrow> 's \<Rightarrow> 's option" where
  "put_all put [] s = Some s"
| "put_all put (p # ps) s = Option.bind (put p s) (put_all put ps)"

locale frame_sink =
  fixes put :: "bytes \<Rightarrow> 's \<Rightarrow> 's option"
    and heard :: "'s \<Rightarrow> bytes"
    and open_sink :: "'s \<Rightarrow> bool"
  assumes put_open: "open_sink s \<Longrightarrow> \<exists>s'. put p s = Some s' \<and> open_sink s' \<and> heard s' = heard s @ p"
begin

lemma put_all_heard:
  "open_sink s \<Longrightarrow> \<exists>s'. put_all put ps s = Some s' \<and> open_sink s' \<and> heard s' = heard s @ concat ps"
proof (induction ps arbitrary: s)
  case Nil
  then show ?case by simp
next
  case (Cons p ps)
  from put_open [OF Cons.prems, of p] obtain s1 where
    "put p s = Some s1" "open_sink s1" "heard s1 = heard s @ p" by blast
  with Cons.IH [of s1] show ?case by auto
qed

end

interpretation recorder_sink: frame_sink rec_Write rec_buf "\<lambda>r. \<not> rec_closed r"
proof unfold_locales
  fix r :: recorder and p
  assume "\<not> rec_closed r"
  then show "\<exists>r'. rec_Write p r = Some r' \<and> \<not> rec_closed r' \<and> rec_buf r' = rec_buf r @ p"
    by (cases "rec_queue r") (auto simp: rec_Write_def Let_def)
qed

end
