(* ===== verification/Crypto.thy ===== *)
theory Crypto
  imports Prelude
begin

text \<open>
  The parts of Go's standard library that the SRTP code calls: the block cipher of \<open>crypto/aes\<close> with
  a 16-byte key (FIPS 197), the counter mode of \<open>crypto/cipher\<close>, \<open>crypto/sha1\<close> and
  \<open>crypto/hmac\<close>. The definitions are executable. What the SRTP theory relies on is the interface
  \<open>block_cipher\<close>, in which counter mode is its own inverse and distinct counters never meet; it is
  interpreted on AES.
\<close>

section \<open>AES-128\<close>

definition aes_sbox :: "bytes" where
  "aes_sbox =
  [0x63, 0x7C, 0x77, 0x7B, 0xF2, 0x6B, 0x6F, 0xC5, 0x30, 0x01, 0x67, 0x2B, 0xFE, 0xD7, 0xAB, 0x76,
   0xCA, 0x82, 0xC9, 0x7D, 0xFA, 0x59, 0x47, 0xF0, 0xAD, 0xD4, 0xA2, 0xAF, 0x9C, 0xA4, 0x72, 0xC0,
   0xB7, 0xFD, 0x93, 0x26, 0x36, 0x3F, 0xF7, 0xCC, 0x34, 0xA5, 0xE5, 0xF1, 0x71, 0xD8, 0x31, 0x15,
   0x04, 0xC7, 0x23, 0xC3, 0x18, 0x96, 0x05, 0x9A, 0x07, 0x12, 0x80, 0xE2, 0xEB, 0x27, 0xB2, 0x75,
   0x09, 0x83, 0x2C, 0x1A, 0x1B, 0x6E, 0x5A, 0xA0, 0x52, 0x3B, 0xD6, 0xB3, 0x29, 0xE3, 0x2F, 0x84,
   0x53, 0xD1, 0x00, 0xED, 0x20, 0xFC, 0xB1, 0x5B, 0x6A, 0xCB, 0xBE, 0x39, 0x4A, 0x4C, 0x58, 0xCF,
   0xD0, 0xEF, 0xAA, 0xFB, 0x43, 0x4D, 0x33, 0x85, 0x45, 0xF9, 0x02, 0x7F, 0x50, 0x3C, 0x9F, 0xA8,
   0x51, 0xA3, 0x40, 0x8F, 0x92, 0x9D, 0x38, 0xF5, 0xBC, 0xB6, 0xDA, 0x21, 0x10, 0xFF, 0xF3, 0xD2,
   0xCD, 0x0C, 0x13, 0xEC, 0x5F, 0x97, 0x44, 0x17, 0xC4, 0xA7, 0x7E, 0x3D, 0x64, 0x5D, 0x19, 0x73,
   0x60, 0x81, 0x4F, 0xDC, 0x22, 0x2A, 0x90, 0x88, 0x46, 0xEE, 0xB8, 0x14, 0xDE, 0x5E, 0x0B, 0xDB,
   0xE0, 0x32, 0x3A, 0x0A, 0x49, 0x06, 0x24, 0x5C, 0xC2, 0xD3, 0xAC, 0x62, 0x91, 0x95, 0xE4, 0x79,
   0xE7, 0xC8, 0x37, 0x6D, 0x8D, 0xD5, 0x4E, 0xA9, 0x6C, 0x56, 0xF4, 0xEA, 0x65, 0x7A, 0xAE, 0x08,
   0xBA, 0x78, 0x25, 0x2E, 0x1C, 0xA6, 0xB4, 0xC6, 0xE8, 0xDD, 0x74, 0x1F, 0x4B, 0xBD, 0x8B, 0x8A,
   0x70, 0x3E, 0xB5, 0x66, 0x48, 0x03, 0xF6, 0x0E, 0x61, 0x35, 0x57, 0xB9, 0x86, 0xC1, 0x1D, 0x9E,
   0xE1, 0xF8, 0x98, 0x11, 0x69, 0xD9, 0x8E, 0x94, 0x9B, 0x1E, 0x87, 0xE9, 0xCE, 0x55, 0x28, 0xDF,
   0x8C, 0xA1, 0x89, 0x0D, 0xBF, 0xE6, 0x42, 0x68, 0x41, 0x99, 0x2D, 0x0F, 0xB0, 0x54, 0xBB, 0x16]"

definition sub_byte :: "byte \<Rightarrow> byte" where
  "sub_byte b = aes_sbox ! unat b"

text \<open>Multiplication by \<open>x\<close> in the field of AES.\<close>

definition xtime :: "byte \<Rightarrow> byte" where
  "xtime b = push_bit 1 b XOR (if bit b 7 then 0x1B else 0)"

definition xor_bytes :: "bytes \<Rightarrow> bytes \<Rightarrow> bytes" where
  "xor_bytes = map2 (XOR)"

definition aes_rcon :: "bytes" where
  "aes_rcon = [0x01, 0x02, 0x04, 0x08, 0x10, 0x20, 0x40, 0x80, 0x1B, 0x36]"

text \<open>The key schedule: each round key of 16 bytes from the one before.\<close>

definition next_round_key :: "byte \<Rightarrow> bytes \<Rightarrow> bytes" where
  "next_round_key rc k =
     (let t = [sub_byte (k ! 13) XOR rc, sub_byte (k ! 14), sub_byte (k ! 15), sub_byte (k ! 12)];
          w0 = xor_bytes (take 4 k) t;
          w1 = xor_bytes (take 4 (drop 4 k)) w0;
          w2 = xor_bytes (take 4 (drop 8 k)) w1;
          w3 = xor_bytes (take 4 (drop 12 k)) w2
      in w0 @ w1 @ w2 @ w3)"

fun round_keys :: "bytes \<Rightarrow> bytes \<Rightarrow> bytes list" where
  "round_keys [] k = [k]"
| "round_keys (rc # rcs) k = k # round_keys rcs (next_round_key rc k)"

text \<open>The state is kept column by column, as the bytes arrive.\<close>

definition sub_shift :: "bytes \<Rightarrow> bytes" where
  "sub_shift st = map (\<lambda>i. sub_byte (st ! i)) [0, 5, 10, 15, 4, 9, 14, 3, 8, 13, 2, 7, 12, 1, 6, 11]"

definition mix_column :: "byte \<Rightarrow> byte \<Rightarrow> byte \<Rightarrow> byte \<Rightarrow> bytes" where
  "mix_column a b c d =
     [xtime a XOR (xtime b XOR b) XOR c XOR d, a XOR xtime b XOR (xtime c XOR c) XOR d,
      a XOR b XOR xtime c XOR (xtime d XOR d), (xtime a XOR a) XOR b XOR c XOR xtime d]"

definition mix_columns :: "bytes \<Rightarrow> bytes" where
  "mix_columns st = concat (map (\<lambda>i. mix_column (st ! i) (st ! (i + 1)) (st ! (i + 2)) (st ! (i + 3))) [0, 4, 8, 12])"

fun aes_rounds :: "bytes list \<Rightarrow> bytes \<Rightarrow> bytes" where
  "aes_rounds [] st = st"
| "aes_rounds [k] st = xor_bytes k (sub_shift st)"
| "aes_rounds (k # ks) st = aes_rounds ks (xor_bytes k (mix_columns (sub_shift st)))"

definition aes_encrypt :: "bytes \<Rightarrow> bytes \<Rightarrow> bytes" where
  "aes_encrypt key block = (let ks = round_keys aes_rcon key
     in aes_rounds (tl ks) (xor_bytes (hd ks) block))"

section \<open>SHA-1 and HMAC\<close>

definition rotl :: "nat \<Rightarrow> u32 \<Rightarrow> u32" where
  "rotl n w = push_bit n w OR drop_bit (32 - n) w"

definition sha1_pad :: "bytes \<Rightarrow> bytes" where
  "sha1_pad m = m @ [0x80] @ replicate ((119 - length m mod 64) mod 64) 0
     @ be32 (ucast (drop_bit 32 (of_nat (8 * length m) :: u64))) @ be32 (of_nat (8 * length m))"

fun sha1_expand :: "nat \<Rightarrow> u32 list \<Rightarrow> u32 list" where
  "sha1_expand 0 ws = ws"
| "sha1_expand (Suc n) ws = sha1_expand n
     (ws @ [rotl 1 (ws ! (length ws - 3) XOR ws ! (length ws - 8) XOR ws ! (length ws - 14) XOR ws ! (length ws - 16))])"

definition sha1_fk :: "nat \<Rightarrow> u32 \<Rightarrow> u32 \<Rightarrow> u32 \<Rightarrow> u32 \<times> u32" where
  "sha1_fk t b c d =
     (if t < 20 then ((b AND c) OR (NOT b AND d), 0x5A827999)
      else if t < 40 then (b XOR c XOR d, 0x6ED9EBA1)
      else if t < 60 then ((b AND c) OR (b AND d) OR (c AND d), 0x8F1BBCDC)
      else (b XOR c XOR d, 0xCA62C1D6))"

type_synonym sha1_state = "u32 \<times> u32 \<times> u32 \<times> u32 \<times> u32"

fun sha1_rounds :: "nat \<Rightarrow> u32 list \<Rightarrow> sha1_state \<Rightarrow> sha1_state" where
  "sha1_rounds t [] h = h"
| "sha1_rounds t (w # ws) (a, b, c, d, e) =
     (let (f, k) = sha1_fk t b c d
      in sha1_rounds (t + 1) ws (rotl 5 a + f + e + k + w, a, rotl 30 b, c, d))"

fun sha1_block :: "bytes \<Rightarrow> sha1_state \<Rightarrow> sha1_state" where
  "sha1_block blk (a, b, c, d, e) =
     (let ws = sha1_expand 64 (map (\<lambda>i. get32 blk (4 * i)) [0..<16]);
          (a', b', c', d', e') = sha1_rounds 0 ws (a, b, c, d, e)
      in (a + a', b + b', c + c', d + d', e + e'))"

fun sha1_blocks :: "nat \<Rightarrow> bytes \<Rightarrow> sha1_state \<Rightarrow> sha1_state" where
  "sha1_blocks 0 m h = h"
| "sha1_blocks (Suc n) m h = sha1_blocks n (drop 64 m) (sha1_block (take 64 m) h)"

definition sha1 :: "bytes \<Rightarrow> bytes" where
  "sha1 m =
     (let p = sha1_pad m;
          (a, b, c, d, e) = sha1_blocks (length p div 64) p
            (0x67452301, 0xEFCDAB89, 0x98BADCFE, 0x10325476, 0xC3D2E1F0)
      in be32 a @ be32 b @ be32 c @ be32 d @ be32 e)"

definition hmac_sha1 :: "bytes \<Rightarrow> bytes \<Rightarrow> bytes" where
  "hmac_sha1 key msg =
     (let k = (if length key > 64 then sha1 key else key);
          k = k @ replicate (64 - length k) 0
      in sha1 (map (\<lambda>b. b XOR 0x5C) k @ sha1 (map (\<lambda>b. b XOR 0x36) k @ msg)))"

lemma length_sha1 [simp]: "length (sha1 m) = 20"
  by (simp add: sha1_def split_beta Let_def)

lemma length_hmac_sha1 [simp]: "length (hmac_sha1 k m) = 20"
  by (simp add: hmac_sha1_def Let_def)

section \<open>Counter mode\<close>

text \<open>The counter block is one big-endian number.\<close>

fun inc_rev :: "bytes \<Rightarrow> bytes" where
  "inc_rev [] = []"
| "inc_rev (b # bs) = (if b = 0xFF then 0 # inc_rev bs else (b + 1) # bs)"

definition ctr_next :: "bytes \<Rightarrow> bytes" where
  "ctr_next iv = rev (inc_rev (rev iv))"

fun ctr_keystream :: "(bytes \<Rightarrow> bytes) \<Rightarrow> nat \<Rightarrow> bytes \<Rightarrow> bytes" where
  "ctr_keystream E 0 iv = []"
| "ctr_keystream E (Suc n) iv = E iv @ ctr_keystream E n (ctr_next iv)"

definition blocks_for :: "bytes \<Rightarrow> nat" where
  "blocks_for p = (length p + 15) div 16"

definition XORKeyStream :: "(bytes \<Rightarrow> bytes) \<Rightarrow> bytes \<Rightarrow> bytes \<Rightarrow> bytes" where
  "XORKeyStream E iv p = xor_bytes p (ctr_keystream E (blocks_for p) iv)"

lemma length_xor_bytes [simp]: "length (xor_bytes a b) = min (length a) (length b)"
  by (simp add: xor_bytes_def)

lemma xor_bytes_involution: "length p \<le> length k \<Longrightarrow> xor_bytes (xor_bytes p k) k = p"
proof (induction p arbitrary: k)
  case Nil
  then show ?case by (simp add: xor_bytes_def)
next
  case (Cons a p)
  then obtain b k' where "k = b # k'" by (cases k) auto
  with Cons show ?case by (simp add: xor_bytes_def xor.assoc)
qed

lemma length_inc_rev [simp]: "length (inc_rev b) = length b"
  by (induction b) auto

lemma length_ctr_next [simp]: "length (ctr_next iv) = length iv"
  by (simp add: ctr_next_def)

locale block_cipher =
  fixes E :: "bytes \<Rightarrow> bytes \<Rightarrow> bytes"
  assumes block_size: "length k = 16 \<Longrightarrow> length b = 16 \<Longrightarrow> length (E k b) = 16"
begin

lemma length_keystream:
  "length k = 16 \<Longrightarrow> length iv = 16 \<Longrightarrow> length (ctr_keystream (E k) n iv) = 16 * n"
  by (induction n arbitrary: iv) (simp_all add: block_size)

lemma length_XORKeyStream:
  "length k = 16 \<Longrightarrow> length iv = 16 \<Longrightarrow> length (XORKeyStream (E k) iv p) = length p"
  by (simp add: XORKeyStream_def length_keystream blocks_for_def)

lemma XORKeyStream_involution:
  assumes "length k = 16" "length iv = 16"
  shows "XORKeyStream (E k) iv (XORKeyStream (E k) iv p) = p"
proof -
  have "blocks_for (XORKeyStream (E k) iv p) = blocks_for p"
    using length_XORKeyStream [OF assms, of p] by (simp add: blocks_for_def)
  then show ?thesis
    using length_keystream [OF assms, of "blocks_for p"]
    by (simp add: XORKeyStream_def xor_bytes_involution blocks_for_def)
qed

end

lemma length_sub_shift [simp]: "length (sub_shift st) = 16"
  by (simp add: sub_shift_def)

lemma length_mix_columns [simp]: "length (mix_columns st) = 16"
  by (simp add: mix_columns_def mix_column_def)

lemma length_next_round_key: "length k = 16 \<Longrightarrow> length (next_round_key rc k) = 16"
  by (simp add: next_round_key_def Let_def)

lemma length_round_keys: "length k = 16 \<Longrightarrow> k' \<in> set (round_keys rcs k) \<Longrightarrow> length k' = 16"
proof (induction rcs arbitrary: k)
  case Nil
  then show ?case by simp
next
  case (Cons rc rcs)
  from Cons.IH [OF length_next_round_key [OF Cons.prems(1)]] Cons.prems show ?case by auto
qed

lemma length_aes_rounds:
  "(\<And>k. k \<in> set ks \<Longrightarrow> length k = 16) \<Longrightarrow> length st = 16 \<Longrightarrow> length (aes_rounds ks st) = 16"
  by (induction ks st rule: aes_rounds.induct) auto

interpretation aes: block_cipher aes_encrypt
proof unfold_locales
  fix k b :: bytes
  assume k: "length k = 16" and b: "length b = 16"
  have "round_keys aes_rcon k = k # tl (round_keys aes_rcon k)" by (simp add: aes_rcon_def)
  moreover have "length k' = 16" if "k' \<in> set (tl (round_keys aes_rcon k))" for k'
    using that length_round_keys [OF k, of k' aes_rcon] by (cases "round_keys aes_rcon k") auto
  ultimately show "length (aes_encrypt k b) = 16"
    using k b unfolding aes_encrypt_def Let_def by (intro length_aes_rounds) (auto simp: aes_rcon_def)
qed

section \<open>Counters\<close>

text \<open>Counter blocks that share their first 14 bytes with no carry out of the last two.\<close>

definition ctr_block :: "bytes \<Rightarrow> nat \<Rightarrow> bytes" where
  "ctr_block prefix j = prefix @ be16 (of_nat j)"

lemma ucast_u16_of_nat: "ucast (of_nat j :: u16) = (of_nat j :: byte)"
  by (rule bit_word_eqI) (simp add: bit_simps)

lemma be16_of_nat:
  assumes "j < 65536"
  shows "be16 (of_nat j) = [of_nat (j div 256), of_nat j]"
proof -
  have "unat (ucast (drop_bit 8 (of_nat j :: u16)) :: byte) = unat (of_nat (j div 256) :: byte)"
    using assms by (simp add: unat_of_nat drop_bit_eq_div unsigned_ucast_eq take_bit_eq_mod unat_div)
  then have "ucast (drop_bit 8 (of_nat j :: u16)) = (of_nat (j div 256) :: byte)" by (rule unsigned_word_eqI)
  then show ?thesis by (simp add: be16_def ucast_u16_of_nat)
qed

lemma byte_of_nat_max: "(of_nat j :: byte) = 0xFF \<longleftrightarrow> j mod 256 = 255"
  by (simp add: word_unat_eq_iff unat_of_nat)

lemma byte_of_nat_zero: "(of_nat j :: byte) = 0 \<longleftrightarrow> j mod 256 = 0"
  by (simp add: word_unat_eq_iff unat_of_nat)

lemma ctr_next_pair:
  "lo = 0xFF \<longrightarrow> hi \<noteq> 0xFF \<Longrightarrow>
   ctr_next (prefix @ [hi, lo]) = prefix @ (if lo = 0xFF then [hi + 1, 0] else [hi, lo + 1])"
  by (simp add: ctr_next_def)

lemma ctr_next_block:
  assumes "j < 65535"
  shows "ctr_next (ctr_block prefix j) = ctr_block prefix (Suc j)"
proof -
  have blocks: "ctr_block prefix j = prefix @ [of_nat (j div 256), of_nat j]"
    "ctr_block prefix (Suc j) = prefix @ [of_nat (Suc j div 256), of_nat (Suc j)]"
    using assms unfolding ctr_block_def by (simp_all only: be16_of_nat)
  show ?thesis
  proof (cases "j mod 256 = 255")
    case True
    then have "j div 256 < 255" using assms div_mult_mod_eq [of j 256] by linarith
    then have "(of_nat (j div 256) :: byte) \<noteq> 0xFF" unfolding byte_of_nat_max by simp
    moreover have "Suc j div 256 = Suc (j div 256)" "Suc j mod 256 = 0"
      using True by (simp_all add: div_Suc mod_Suc)
    moreover have "(of_nat (Suc j) :: byte) = 0" unfolding byte_of_nat_zero by fact
    moreover have "(of_nat j :: byte) = 0xFF" using True by (simp only: byte_of_nat_max)
    ultimately show ?thesis
      unfolding blocks by (simp add: ctr_next_pair add.commute del: of_nat_Suc) (simp add: add.commute)
  next
    case False
    then have "Suc j div 256 = j div 256" by (simp add: div_Suc mod_Suc)
    moreover have "(of_nat j :: byte) \<noteq> 0xFF" using False by (simp only: byte_of_nat_max simp_thms)
    ultimately show ?thesis
      unfolding blocks by (simp add: ctr_next_pair add.commute)
  qed
qed

lemma keystream_blocks:
  "j + n \<le> 65536 \<Longrightarrow>
   ctr_keystream E n (ctr_block prefix j) = concat (map (\<lambda>i. E (ctr_block prefix i)) [j..<j + n])"
proof (induction n arbitrary: j)
  case 0
  then show ?case by simp
next
  case (Suc n)
  have up: "[j..<j + Suc n] = j # [Suc j..<Suc j + n]" by (simp add: upt_conv_Cons)
  show ?case
  proof (cases n)
    case (Suc m)
    then have "ctr_next (ctr_block prefix j) = ctr_block prefix (Suc j)"
      using \<open>j + _ \<le> 65536\<close> by (intro ctr_next_block) simp
    then show ?thesis using Suc.IH [of "Suc j"] \<open>j + _ \<le> 65536\<close> by (simp only: up) simp
  qed simp
qed

end
