(* ===== verification/Base64.thy ===== *)
theory Base64
  imports Prelude
begin

text \<open>
  \<open>base64.StdEncoding\<close> of Go's standard library, which carries the keys in SDP: encoding with
  padding, and the decoder, which skips newlines and refuses every other deviation from the
  format. Decoding inverts encoding.
\<close>

definition b64_alphabet :: string where
  "b64_alphabet = ''ABCDEFGHIJKLMNOPQRSTUVWXYZabcdefghijklmnopqrstuvwxyz0123456789+/''"

definition b64_char :: "nat \<Rightarrow> char" where
  "b64_char n = b64_alphabet ! n"

definition b64_value :: "char \<Rightarrow> nat option" where
  "b64_value c = map_of (zip b64_alphabet [0..<64]) c"

fun b64_encode :: "bytes \<Rightarrow> string" where
  "b64_encode [] = []"
| "b64_encode [x] = (let n = unat x * 65536 in
     [b64_char (n div 262144), b64_char (n div 4096 mod 64), CHR ''='', CHR ''=''])"
| "b64_encode [x, y] = (let n = unat x * 65536 + unat y * 256 in
     [b64_char (n div 262144), b64_char (n div 4096 mod 64), b64_char (n div 64 mod 64), CHR ''=''])"
| "b64_encode (x # y # z # rest) = (let n = unat x * 65536 + unat y * 256 + unat z in
     [b64_char (n div 262144), b64_char (n div 4096 mod 64), b64_char (n div 64 mod 64), b64_char (n mod 64)]
     @ b64_encode rest)"

text \<open>The three bytes of four 6-bit values.\<close>

definition b64_bytes :: "nat \<Rightarrow> nat \<Rightarrow> nat \<Rightarrow> nat \<Rightarrow> bytes" where
  "b64_bytes a b c d = (let n = ((a * 64 + b) * 64 + c) * 64 + d
     in [of_nat (n div 65536), of_nat (n div 256), of_nat n])"

fun b64_quads :: "string \<Rightarrow> bytes option" where
  "b64_quads [] = Some []"
| "b64_quads (a # b # c # d # rest) = (case (b64_value a, b64_value b) of
       (Some x, Some y) \<Rightarrow>
         if c = CHR ''='' then (if d = CHR ''='' \<and> rest = [] then Some (take 1 (b64_bytes x y 0 0)) else None)
         else (case b64_value c of
             None \<Rightarrow> None
           | Some z \<Rightarrow>
               if d = CHR ''='' then (if rest = [] then Some (take 2 (b64_bytes x y z 0)) else None)
               else (case b64_value d of
                   None \<Rightarrow> None
                 | Some w \<Rightarrow> map_option (\<lambda>bs. b64_bytes x y z w @ bs) (b64_quads rest)))
     | _ \<Rightarrow> None)"
| "b64_quads _ = None"

definition b64_DecodeString :: "string \<Rightarrow> bytes option" where
  "b64_DecodeString s = b64_quads (filter (\<lambda>c. c \<noteq> CHR 0x0A \<and> c \<noteq> CHR 0x0D) s)"

section \<open>Round trip\<close>

lemma b64_chars_all: "list_all (\<lambda>n. b64_value (b64_char n) = Some n \<and> b64_char n \<noteq> CHR ''=''
    \<and> b64_char n \<noteq> CHR 0x0A \<and> b64_char n \<noteq> CHR 0x0D \<and> b64_char n \<noteq> CHR ''|''
    \<and> b64_char n \<noteq> CHR '' '' \<and> b64_char n \<noteq> CHR 0x09 \<and> b64_char n \<noteq> CHR 0x0B \<and> b64_char n \<noteq> CHR 0x0C) [0..<64]"
  by code_simp

lemma b64_char_facts:
  assumes "n < 64"
  shows "b64_value (b64_char n) = Some n" "b64_char n \<noteq> CHR ''=''" "b64_char n \<noteq> CHR 0x0A"
    "b64_char n \<noteq> CHR 0x0D" "b64_char n \<noteq> CHR ''|''" "b64_char n \<noteq> CHR '' ''" "b64_char n \<noteq> CHR 0x09"
    "b64_char n \<noteq> CHR 0x0B" "b64_char n \<noteq> CHR 0x0C"
  using b64_chars_all assms by (simp_all add: list_all_iff)

lemma sextets:
  assumes "(n :: nat) < 2 ^ 24"
  shows "((n div 262144 * 64 + n div 4096 mod 64) * 64 + n div 64 mod 64) * 64 + n mod 64 = n"
    and "n div 262144 < 64"
proof -
  have "n div 4096 = n div 262144 * 64 + n div 4096 mod 64"
    using div_mult_mod_eq [of "n div 4096" 64] by (simp add: div_mult2_eq [symmetric])
  moreover have "n div 64 = n div 4096 * 64 + n div 64 mod 64"
    using div_mult_mod_eq [of "n div 64" 64] by (simp add: div_mult2_eq [symmetric])
  moreover have "n = n div 64 * 64 + n mod 64" by simp
  ultimately show "((n div 262144 * 64 + n div 4096 mod 64) * 64 + n div 64 mod 64) * 64 + n mod 64 = n"
    by metis
  show "n div 262144 < 64" using assms by (simp add: less_mult_imp_div_less)
qed

lemma b64_bytes_of:
  fixes x y z :: byte
  defines "n \<equiv> unat x * 65536 + unat y * 256 + unat z"
  shows "b64_bytes (n div 262144) (n div 4096 mod 64) (n div 64 mod 64) (n mod 64) = [x, y, z]"
    and "n < 2 ^ 24"
proof -
  have b: "unat x < 256" "unat y < 256" "unat z < 256"
    using unsigned_less [of x, where 'a = nat] unsigned_less [of y, where 'a = nat]
      unsigned_less [of z, where 'a = nat] by simp_all
  then show n: "n < 2 ^ 24" by (simp add: n_def)
  have "n div 65536 = unat x" "n div 256 = unat x * 256 + unat y"
    using b by (simp_all add: n_def div_mult2_eq [of n 256 256, simplified])
  moreover have "(256 :: byte) = 0" "(65536 :: byte) = 0" by code_simp+
  then have "w * 256 = 0" "w * 65536 = 0" for w :: byte by (simp_all only: mult_zero_right)
  ultimately have "(of_nat (n div 65536) :: byte) = x" "(of_nat (n div 256) :: byte) = y" "(of_nat n :: byte) = z"
    by (simp_all add: n_def)
  then show "b64_bytes (n div 262144) (n div 4096 mod 64) (n div 64 mod 64) (n mod 64) = [x, y, z]"
    unfolding b64_bytes_def Let_def sextets(1) [OF n] by simp
qed

lemma b64_quads_encode: "b64_quads (b64_encode bs) = Some bs"
proof (induction bs rule: b64_encode.induct)
  case 1
  then show ?case by simp
next
  case (2 x)
  then show ?case
    using b64_bytes_of [of x 0 0] by (simp add: b64_char_facts sextets Let_def)
next
  case (3 x y)
  then show ?case
    using b64_bytes_of [of x y 0] by (simp add: b64_char_facts sextets Let_def)
next
  case (4 x y z rest)
  then show ?case
    using b64_bytes_of [of x y z] by (simp add: b64_char_facts sextets Let_def)
qed

lemma b64_encode_chars:
  "c \<in> set (b64_encode bs) \<Longrightarrow> c \<noteq> CHR 0x0A \<and> c \<noteq> CHR 0x0D \<and> c \<noteq> CHR ''|'' \<and> c \<noteq> CHR '' ''
    \<and> c \<noteq> CHR 0x09 \<and> c \<noteq> CHR 0x0B \<and> c \<noteq> CHR 0x0C"
proof (induction bs rule: b64_encode.induct)
  case 1
  then show ?case by simp
next
  case (2 x)
  then show ?case using b64_bytes_of(2) [of x 0 0] by (auto simp: Let_def sextets b64_char_facts)
next
  case (3 x y)
  then show ?case using b64_bytes_of(2) [of x y 0] by (auto simp: Let_def sextets b64_char_facts)
next
  case (4 x y z rest)
  then show ?case using b64_bytes_of(2) [of x y z] by (auto simp: Let_def sextets b64_char_facts)
qed

lemma b64_roundtrip: "b64_DecodeString (b64_encode bs) = Some bs"
proof -
  have "filter (\<lambda>c. c \<noteq> CHR 0x0A \<and> c \<noteq> CHR 0x0D) (b64_encode bs) = b64_encode bs"
    using b64_encode_chars by (auto intro: filter_True)
  then show ?thesis by (simp add: b64_DecodeString_def b64_quads_encode)
qed

end
