(* ===== verification/Steps.thy ===== *)
theory Steps
  imports Prelude
begin

text \<open>
  Step relations, the form in which every component with goroutines is modelled: the three
  contracts that such a relation can meet (it keeps an invariant, it can always get to the end, it
  cannot go on for ever), and counting in a list of threads or legs: what one update does to the
  number of elements with a property and to a sum over the list.
\<close>

section \<open>Invariants\<close>

locale invariant_steps =
  fixes step :: "'s \<Rightarrow> 's \<Rightarrow> bool"
    and invar :: "'s \<Rightarrow> bool"
  assumes keeps: "step s s' \<Longrightarrow> invar s \<Longrightarrow> invar s'"
begin

lemma reached: "step\<^sup>*\<^sup>* s s' \<Longrightarrow> invar s \<Longrightarrow> invar s'"
  by (induction rule: rtranclp_induct) (auto intro: keeps)

lemma reached_power: "(step ^^ n) s s' \<Longrightarrow> invar s \<Longrightarrow> invar s'"
  by (blast intro: reached relpowp_imp_rtranclp)

end

section \<open>Getting to the end\<close>

text \<open>As long as the end is not reached there is a step that comes closer to it. Other steps may be
  possible too, such as those of the network.\<close>

locale draining_steps = invariant_steps step invar
  for step :: "'s \<Rightarrow> 's \<Rightarrow> bool" and invar +
  fixes left :: "'s \<Rightarrow> nat"
    and over :: "'s \<Rightarrow> bool"
  assumes moves: "invar s \<Longrightarrow> \<not> over s \<Longrightarrow> \<exists>s'. step s s' \<and> left s' < left s"
begin

lemma drains: "invar s \<Longrightarrow> \<exists>s'. step\<^sup>*\<^sup>* s s' \<and> over s' \<and> invar s'"
proof (induction "left s" arbitrary: s rule: less_induct)
  case less
  show ?case
  proof (cases "over s")
    case False
    with less.prems obtain s1 where s1: "step s s1" "left s1 < left s" using moves by blast
    with less.hyps [OF s1(2) keeps [OF s1(1) less.prems]] show ?thesis
      by (meson converse_rtranclp_into_rtranclp)
  qed (use less.prems in blast)
qed

end

section \<open>Coming to an end\<close>

text \<open>Every step uses up something, so that any run is finite.\<close>

locale terminating_steps = invariant_steps step invar
  for step :: "'s \<Rightarrow> 's \<Rightarrow> bool" and invar +
  fixes left :: "'s \<Rightarrow> nat"
  assumes uses_up: "step s s' \<Longrightarrow> invar s \<Longrightarrow> left s' < left s"
begin

lemma run_bounded: "(step ^^ n) s s' \<Longrightarrow> invar s \<Longrightarrow> n + left s' \<le> left s"
proof (induction n arbitrary: s')
  case (Suc n)
  then obtain t where t: "(step ^^ n) s t" "step t s'" by auto
  with Suc.IH [OF t(1) Suc.prems(2)] uses_up [OF t(2) reached_power [OF t(1) Suc.prems(2)]] show ?case by simp
qed simp

end

sublocale terminating_steps \<subseteq> ends: draining_steps step invar left "\<lambda>s. \<not> (\<exists>s'. step s s')"
  by unfold_locales (blast dest: uses_up)

section \<open>Admission\<close>

text \<open>A server that admits work up to a limit and keeps a counter: the counter moves with the
  number of live legs, and it grows only below the limit.\<close>

locale limited_steps =
  fixes step :: "'s \<Rightarrow> 's \<Rightarrow> bool"
    and start :: 's
    and active :: "'s \<Rightarrow> int"
    and live :: "'s \<Rightarrow> nat"
    and limit :: int
  assumes idle: "active start = 0" "live start = 0"
    and counted: "step s s' \<Longrightarrow> 0 < limit \<Longrightarrow> active s' - active s = int (live s') - int (live s)"
    and guarded: "step s s' \<Longrightarrow> 0 < limit \<Longrightarrow> active s < active s' \<Longrightarrow> active s' \<le> limit"
begin

definition in_limit :: "'s \<Rightarrow> bool" where
  "in_limit s \<longleftrightarrow> (0 < limit \<longrightarrow> active s = int (live s) \<and> active s \<le> limit)"

lemma in_limit_start: "in_limit start"
  using idle by (simp add: in_limit_def)

lemma in_limit_step: "step s s' \<Longrightarrow> in_limit s \<Longrightarrow> in_limit s'"
  using counted [of s s'] guarded [of s s'] by (fastforce simp: in_limit_def not_less)

end

sublocale limited_steps \<subseteq> bounded: invariant_steps step in_limit
  by unfold_locales (rule in_limit_step)

context limited_steps
begin

lemma in_limit_reached: "step\<^sup>*\<^sup>* start s \<Longrightarrow> in_limit s"
  by (rule bounded.reached [OF _ in_limit_start])

lemma capacity: "step\<^sup>*\<^sup>* start s \<Longrightarrow> 0 < limit \<Longrightarrow> active s = int (live s) \<and> int (live s) \<le> limit"
  using in_limit_reached [of s] by (simp add: in_limit_def)

end

section \<open>Counting\<close>

definition one :: "bool \<Rightarrow> nat" where
  "one b = (if b then 1 else 0)"

lemma one_simps [simp]: "one True = 1" "one False = 0"
  by (simp_all add: one_def)

lemma length_filter_update:
  "i < length xs \<Longrightarrow> length (filter P (xs[i := y])) + one (P (xs ! i)) = length (filter P xs) + one (P y)"
proof (induction xs arbitrary: i)
  case (Cons x xs)
  then show ?case by (cases i) (auto simp: one_def)
qed simp

lemma sum_list_update: "i < length xs \<Longrightarrow> sum_list (map f (xs[i := y])) + f (xs ! i) = sum_list (map f xs) + (f y :: nat)"
proof (induction xs arbitrary: i)
  case (Cons x xs)
  then show ?case by (cases i) auto
qed simp

end
