(* ===== verification/Reactor.thy ===== *)
theory Reactor
  imports Steps "HOL-Library.Multiset"
begin

text \<open>
  The sharded event loop that drives all media timers (\<open>core/rtp/reactor.go\<close>). A \<open>Tickable\<close> is a
  reference \<open>'o\<close>; what its \<open>Tick\<close> method returns and does to the rest of the program is an
  argument \<open>call\<close> of the model. A shard compacts its slice in place while it walks it, which the
  model does on the array; the fan-out goroutine and the shard goroutines are a step relation.
  The theory shows that the compaction keeps exactly the items that want to stay, that round
  robin balances the shards, that no shard runs more often than the master timer fires, and that
  items with a decreasing measure all leave the reactor.
\<close>

section \<open>One cycle of a shard\<close>

text \<open>The slice \<open>active\<close> shares the array \<open>a\<close> of \<open>s.items\<close>: it is its first \<open>k\<close> elements. \<open>None\<close>
  is a nil reference. The loop ranges over the \<open>n\<close> elements from position \<open>i\<close> on.\<close>

fun tick_loop :: "('o \<Rightarrow> 'w \<Rightarrow> bool \<times> 'w) \<Rightarrow> nat \<Rightarrow> nat \<Rightarrow> nat \<Rightarrow> 'o option list \<Rightarrow> 'w \<Rightarrow> 'o option list \<times> nat \<times> 'w" where
  "tick_loop call 0 i k a w = (a, k, w)"
| "tick_loop call (Suc n) i k a w =
     (case a ! i of
        None \<Rightarrow> tick_loop call n (i + 1) k a w
      | Some item \<Rightarrow>
          let (keep, w) = call item w in
          if keep then tick_loop call n (i + 1) (k + 1) (a[k := Some item]) w
          else tick_loop call n (i + 1) k a w)"

fun nil_tail :: "nat \<Rightarrow> nat \<Rightarrow> 'o option list \<Rightarrow> 'o option list" where
  "nil_tail 0 i a = a"
| "nil_tail (Suc n) i a = nil_tail n (i + 1) (a[i := None])"

text \<open>The backing array after the cycle and the length of the slice that is kept. No element of
  \<open>s.items\<close> is ever nil (a nil interface would panic on \<open>Tick\<close>), see \<open>shard_compaction\<close>.\<close>

definition shard_tick :: "('o \<Rightarrow> 'w \<Rightarrow> bool \<times> 'w) \<Rightarrow> 'o option list \<Rightarrow> 'w \<Rightarrow> 'o option list \<times> nat \<times> 'w" where
  "shard_tick call items w =
     (let n = length items; (a, k, w) = tick_loop call n 0 0 items w
      in (nil_tail (n - k) k a, k, w))"

text \<open>The reference: call every item once, in order, and keep those that answer true.\<close>

fun visit :: "('o \<Rightarrow> 'w \<Rightarrow> bool \<times> 'w) \<Rightarrow> 'o list \<Rightarrow> 'w \<Rightarrow> 'o list \<times> 'w" where
  "visit call [] w = ([], w)"
| "visit call (x # xs) w =
     (let (keep, w) = call x w; (ys, w) = visit call xs w in (if keep then x # ys else ys, w))"

lemma visit_length: "length (fst (visit call xs w)) \<le> length xs"
  by (induction xs arbitrary: w) (auto simp: split_beta Let_def le_SucI)

lemma tick_loop_visit:
  "k \<le> i \<Longrightarrow> length a = i + length xs \<Longrightarrow> drop i a = map Some xs \<Longrightarrow>
   \<exists>a'. tick_loop call (length xs) i k a w = (a', k + length (fst (visit call xs w)), snd (visit call xs w))
     \<and> take (k + length (fst (visit call xs w))) a' = take k a @ map Some (fst (visit call xs w))
     \<and> length a' = length a"
proof (induction xs arbitrary: i k a w)
  case Nil
  then show ?case by simp
next
  case (Cons x xs)
  have i: "i < length a" using Cons.prems(2) by simp
  then have ai: "a ! i = Some x" and di: "drop (i + 1) a = map Some xs"
    using Cons.prems(3) by (simp_all add: take_Suc_drop)
  obtain keep w1 where call: "call x w = (keep, w1)" by fastforce
  show ?case
  proof (cases keep)
    case True
    let ?a = "a[k := Some x]"
    have "drop (i + 1) ?a = map Some xs" using di Cons.prems(1) by simp
    with Cons.IH [of "k + 1" "i + 1" ?a w1] Cons.prems obtain a' where
      a': "tick_loop call (length xs) (i + 1) (k + 1) ?a w1
          = (a', k + 1 + length (fst (visit call xs w1)), snd (visit call xs w1))"
        "take (k + 1 + length (fst (visit call xs w1))) a' = take (k + 1) ?a @ map Some (fst (visit call xs w1))"
        "length a' = length a" by auto
    moreover have "take (k + 1) ?a = take k a @ [Some x]"
      using i Cons.prems(1) by (simp add: take_Suc_conv_app_nth)
    ultimately show ?thesis using True ai call by (simp add: split_beta Let_def)
  next
    case False
    with Cons.IH [of k "i + 1" a w1] Cons.prems di ai call show ?thesis
      by (auto simp: split_beta Let_def)
  qed
qed

lemma nil_tail_eq: "i + n = length a \<Longrightarrow> nil_tail n i a = take i a @ replicate n None"
proof (induction n arbitrary: i a)
  case 0
  then show ?case by simp
next
  case (Suc n)
  then have "nil_tail (Suc n) i a = take (i + 1) (a[i := None]) @ replicate n None" by simp
  with Suc.prems show ?case by (simp add: take_Suc_conv_app_nth replicate_append_same)
qed

lemma shard_compaction:
  "shard_tick call (map Some xs) w =
     (let (ys, w') = visit call xs w
      in (map Some ys @ replicate (length xs - length ys) None, length ys, w'))"
proof -
  from tick_loop_visit [of 0 0 "map Some xs" xs call w] obtain a where
    a: "tick_loop call (length xs) 0 0 (map Some xs) w
        = (a, length (fst (visit call xs w)), snd (visit call xs w))"
      "take (length (fst (visit call xs w))) a = map Some (fst (visit call xs w))"
      "length a = length xs" by auto
  with visit_length [of call xs w] show ?thesis
    by (simp add: shard_tick_def split_beta Let_def nil_tail_eq)
qed

section \<open>The reactor\<close>

record 'o reactor =
  shards :: "'o list list"
  nShards :: nat
  next_idx :: u64

definition NewReactor :: "nat \<Rightarrow> 'o reactor" where
  "NewReactor numCPU =
     (let n = (if numCPU < 2 then 2 else numCPU)
      in \<lparr>shards = replicate n [], nShards = n, next_idx = 0\<rparr>)"

definition Add :: "'o \<Rightarrow> 'o reactor \<Rightarrow> 'o reactor" where
  "Add t r =
     (let idx = unat (next_idx r) mod nShards r
      in r\<lparr>next_idx := next_idx r + 1, shards := (shards r)[idx := shards r ! idx @ [t]]\<rparr>)"

definition Len :: "'o reactor \<Rightarrow> nat" where
  "Len r = foldl (\<lambda>total s. total + length s) 0 (shards r)"

text \<open>The goroutine of shard \<open>i\<close> handles one tick.\<close>

definition run_shard :: "('o \<Rightarrow> 'w \<Rightarrow> bool \<times> 'w) \<Rightarrow> nat \<Rightarrow> 'o reactor \<Rightarrow> 'w \<Rightarrow> 'o reactor \<times> 'w" where
  "run_shard call i r w =
     (let (a, k, w') = shard_tick call (map Some (shards r ! i)) w
      in (r\<lparr>shards := (shards r)[i := map the (take k a)]\<rparr>, w'))"

lemma run_shard_visit:
  "run_shard call i r w =
     (r\<lparr>shards := (shards r)[i := fst (visit call (shards r ! i) w)]\<rparr>, snd (visit call (shards r ! i) w))"
  by (simp add: run_shard_def shard_compaction split_beta Let_def comp_def)

text \<open>One cycle of a shard, compacted in place, calls every item of the shard exactly once and in
  order, keeps exactly those that answered true, in order, leaves nil references only behind them
  and does not touch another shard.\<close>
theorem shard_cycle:
  "i < length (shards r) \<Longrightarrow>
   (let xs = shards r ! i; (ys, w') = visit call xs w; (r', w'') = run_shard call i r w in
     shards r' ! i = ys \<and> w'' = w' \<and> (\<forall>j. j \<noteq> i \<longrightarrow> shards r' ! j = shards r ! j)
     \<and> fst (shard_tick call (map Some xs) w) = map Some ys @ replicate (length xs - length ys) None)"
  by (simp add: run_shard_visit shard_compaction split_beta Let_def)

theorem shard_cycle_witness:
  "shards (fst (run_shard (\<lambda>x w. (even x, w @ [x])) 1 \<lparr>shards = [[7], [1, 2, 3, 4 :: nat]], nShards = 2, next_idx = 5\<rparr> []))
     ! 1 = [2, 4]"
  using shard_cycle [of 1 "\<lparr>shards = [[7], [1, 2, 3, 4 :: nat]], nShards = 2, next_idx = 5\<rparr>" "\<lambda>x w. (even x, w @ [x])" "[]"]
  by (simp add: split_beta Let_def)

subsection \<open>Round robin\<close>

definition add_all :: "'o list \<Rightarrow> 'o reactor \<Rightarrow> 'o reactor" where
  "add_all ts r = foldl (\<lambda>r t. Add t r) r ts"

text \<open>After \<open>m\<close> additions shard \<open>i\<close> holds those at the positions congruent to \<open>i\<close>.\<close>

definition rr_inv :: "'o list \<Rightarrow> 'o reactor \<Rightarrow> bool" where
  "rr_inv ts r \<longleftrightarrow> nShards r > 0 \<and> length (shards r) = nShards r
     \<and> unat (next_idx r) = length ts mod 2 ^ 64 
     \<and> mset (concat (shards r)) = mset ts
     \<and> (\<forall>i < nShards r. length (shards r ! i) = (length ts + nShards r - 1 - i) div nShards r)"

lemma mset_concat_snoc:
  "i < length xss \<Longrightarrow> mset (concat (xss[i := xss ! i @ [t]])) = add_mset t (mset (concat xss))"
  by (induction xss arbitrary: i) (auto split: nat.split simp: nth_Cons)

lemma div_unique_nat: "x = n * q + d \<Longrightarrow> d < n \<Longrightarrow> x div n = (q :: nat)"
  by simp

lemma rr_count:
  fixes n m i :: nat
  assumes "0 < n" "i < n"
  shows "(m + 1 + n - 1 - i) div n = (m + n - 1 - i) div n + (if m mod n = i then 1 else 0)"
proof -
  have m: "m = n * (m div n) + m mod n" by simp
  have lt: "m mod n < n" using assms(1) by simp
  show ?thesis
  proof (cases "m mod n < i")
    case True
    have "m + n - 1 - i = n * (m div n) + (m mod n + n - 1 - i)" using m True assms by linarith
    moreover have "m + 1 + n - 1 - i = n * (m div n) + (m mod n + n - i)" using m True assms by linarith
    moreover have "m mod n + n - i < n" "m mod n + n - 1 - i < n" using True assms by linarith+
    ultimately have "(m + n - 1 - i) div n = m div n" "(m + 1 + n - 1 - i) div n = m div n"
      by (blast intro: div_unique_nat)+
    then show ?thesis using True by simp
  next
    case False
    have "m + 1 + n - 1 - i = n * (m div n + 1) + (m mod n - i)"
      using m False assms(2) unfolding distrib_left by linarith
    moreover have "m mod n - i < n" using lt by linarith
    ultimately have up: "(m + 1 + n - 1 - i) div n = m div n + 1" by (rule div_unique_nat)
    show ?thesis
    proof (cases "m mod n = i")
      case True
      then have "m + n - 1 - i = n * (m div n) + (n - 1)" using m assms by linarith
      moreover have "n - 1 < n" using assms(1) by simp
      ultimately have "(m + n - 1 - i) div n = m div n" by (rule div_unique_nat)
      with up True show ?thesis by simp
    next
      case neq: False
      then have "m + n - 1 - i = n * (m div n + 1) + (m mod n - i - 1)"
        using m False assms(2) unfolding distrib_left by linarith
      moreover have "m mod n - i - 1 < n" using lt by linarith
      ultimately have "(m + n - 1 - i) div n = m div n + 1" by (rule div_unique_nat)
      with up neq show ?thesis by simp
    qed
  qed
qed

lemma rr_inv_Add [inv_intros]:
  assumes "rr_inv ts r" "length ts < 2 ^ 64"
  shows "rr_inv (ts @ [t]) (Add t r)"
proof -
  let ?n = "nShards r" and ?i = "length ts mod nShards r"
  have idx: "unat (next_idx r) = length ts" using assms by (simp add: rr_inv_def)
  have n: "0 < ?n" "length (shards r) = ?n" using assms(1) by (simp_all add: rr_inv_def)
  then have i: "?i < length (shards r)" by simp
  have "unat (next_idx r + 1) = Suc (length ts) mod 2 ^ 64"
    by (simp add: unat_word_ariths idx)
  moreover have "mset (concat ((shards r)[?i := shards r ! ?i @ [t]])) = mset (ts @ [t])"
    using mset_concat_snoc [OF i] assms(1) by (simp add: rr_inv_def)
  moreover have "length ((shards r)[?i := shards r ! ?i @ [t]] ! j)
      = (length (ts @ [t]) + ?n - 1 - j) div ?n" if "j < ?n" for j
    using rr_count [OF n(1) that, of "length ts"] assms(1) that n i
    by (cases "j = ?i") (auto simp: rr_inv_def)
  ultimately show ?thesis
    using n by (simp add: rr_inv_def Add_def idx Let_def)
qed

lemma rr_inv_new: "rr_inv [] (NewReactor numCPU)"
  by (auto simp: rr_inv_def NewReactor_def)

lemma rr_inv_add_all: "length ts \<le> 2 ^ 64 \<Longrightarrow> rr_inv ts (add_all ts (NewReactor numCPU))"
proof (induction ts rule: rev_induct)
  case Nil
  then show ?case using rr_inv_new by (simp add: add_all_def)
next
  case (snoc t ts)
  then have "rr_inv ts (add_all ts (NewReactor numCPU))" "length ts < 2 ^ 64" by simp_all
  then show ?case using rr_inv_Add by (simp add: add_all_def)
qed

lemma add_all_nShards: "nShards (add_all ts r) = nShards r"
  by (induction ts arbitrary: r) (auto simp: add_all_def Add_def Let_def)

lemma Len_sum: "Len r = length (concat (shards r))"
proof -
  have "foldl (\<lambda>total s. total + length s) a xss = a + length (concat xss)" for a and xss :: "'a list list"
    by (induction xss arbitrary: a) auto
  then show ?thesis by (simp add: Len_def)
qed

text \<open>C10: Streams added to a new reactor are neither lost nor duplicated, \<open>Len\<close> counts them, and the
  shards are balanced: shard \<open>i\<close> of \<open>n\<close> holds every \<open>n\<close>-th stream from the \<open>i\<close>-th on, so no shard
  has two more than another.\<close>
theorem reactor_balanced:
  assumes "length ts \<le> 2 ^ 64" "n = max 2 numCPU" "i < n" "j < n"
  shows "mset (concat (shards (add_all ts (NewReactor numCPU)))) = mset ts
    \<and> Len (add_all ts (NewReactor numCPU)) = length ts
    \<and> length (shards (add_all ts (NewReactor numCPU)) ! i) = (length ts + n - 1 - i) div n
    \<and> length (shards (add_all ts (NewReactor numCPU)) ! i) \<le> length (shards (add_all ts (NewReactor numCPU)) ! j) + 1"
proof -
  let ?r = "add_all ts (NewReactor numCPU)"
  have n: "nShards ?r = n" using assms(2) by (auto simp: add_all_nShards NewReactor_def)
  from rr_inv_add_all [OF assms(1), of numCPU] have
    ms: "mset (concat (shards ?r)) = mset ts" and
    len: "k < n \<Longrightarrow> length (shards ?r ! k) = (length ts + n - 1 - k) div n" for k
    by (auto simp: rr_inv_def n)
  have "(length ts + n - 1 - i) div n \<le> (length ts + n - 1 - j + n) div n"
    using assms(4) by (intro div_le_mono) simp
  also have "\<dots> = (length ts + n - 1 - j) div n + 1" using assms(3) by simp
  finally show ?thesis
    using ms len assms(3,4) mset_eq_length [OF ms] by (simp add: Len_sum)
qed

theorem reactor_balanced_witness:
  "length (shards (add_all [''a'', ''b'', ''c''] (NewReactor 1)) ! 0) = 2"
  using reactor_balanced [of "[''a'', ''b'', ''c'']" 2 1 0 1] by simp

section \<open>Fan-out of the timer\<close>

text \<open>
  One goroutine reads the master timer and puts a token into the channel of every shard, which
  holds one token at most; each shard's goroutine takes a token and runs one cycle. \<open>ml_fired\<close> and
  \<open>ml_runs\<close> count what happened.
\<close>

record ('o, 'w) media_loop =
  ml_pend :: "bool list"
  ml_quit :: bool
  ml_closed :: bool
  ml_reactor :: "'o reactor"
  ml_world :: 'w
  ml_fired :: nat
  ml_runs :: "nat list"

definition loop_start :: "'o reactor \<Rightarrow> 'w \<Rightarrow> ('o, 'w) media_loop" where
  "loop_start r w = \<lparr>ml_pend = replicate (nShards r) False, ml_quit = False, ml_closed = False,
     ml_reactor = r, ml_world = w, ml_fired = 0, ml_runs = replicate (nShards r) 0\<rparr>"

inductive loop_step :: "('o \<Rightarrow> 'w \<Rightarrow> bool \<times> 'w) \<Rightarrow> ('o, 'w) media_loop \<Rightarrow> ('o, 'w) media_loop \<Rightarrow> bool"
  for call where
  fire: "\<not> ml_closed s \<Longrightarrow>
    loop_step call s (s\<lparr>ml_pend := map (\<lambda>_. True) (ml_pend s), ml_fired := Suc (ml_fired s)\<rparr>)"
| stop: "\<not> ml_quit s \<Longrightarrow> loop_step call s (s\<lparr>ml_quit := True\<rparr>)"
| close: "ml_quit s \<Longrightarrow> \<not> ml_closed s \<Longrightarrow> loop_step call s (s\<lparr>ml_closed := True\<rparr>)"
| shard: "i < length (ml_pend s) \<Longrightarrow> ml_pend s ! i \<Longrightarrow>
    run_shard call i (ml_reactor s) (ml_world s) = (r, w) \<Longrightarrow>
    loop_step call s (s\<lparr>ml_pend := (ml_pend s)[i := False], ml_runs := (ml_runs s)[i := Suc (ml_runs s ! i)],
      ml_reactor := r, ml_world := w\<rparr>)"
| add: "loop_step call s (s\<lparr>ml_reactor := Add t (ml_reactor s)\<rparr>)"

inductive_cases loop_stepE: "loop_step call s s'"

definition loop_reachable :: "('o \<Rightarrow> 'w \<Rightarrow> bool \<times> 'w) \<Rightarrow> 'o reactor \<Rightarrow> 'w \<Rightarrow> ('o, 'w) media_loop \<Rightarrow> bool" where
  "loop_reachable call r w s = (loop_step call)\<^sup>*\<^sup>* (loop_start r w) s"

definition loop_inv :: "nat \<Rightarrow> ('o, 'w) media_loop \<Rightarrow> bool" where
  "loop_inv n s \<longleftrightarrow> length (ml_pend s) = n \<and> length (ml_runs s) = n
     \<and> (\<forall>i < n. ml_runs s ! i + (if ml_pend s ! i then 1 else 0) \<le> ml_fired s)
     \<and> (ml_closed s \<longrightarrow> ml_quit s)"

lemma loop_inv_step [inv_intros]: "loop_step call s s' \<Longrightarrow> loop_inv n s \<Longrightarrow> loop_inv n s'"
  by (erule loop_stepE) (force simp: loop_inv_def nth_list_update split: if_splits)+

interpretation media_loop: invariant_steps "loop_step call" "loop_inv n" for call n
  by unfold_locales (rule loop_inv_step)

lemma loop_inv_reachable: "loop_reachable call r w s \<Longrightarrow> loop_inv (nShards r) s"
  unfolding loop_reachable_def
  by (erule media_loop.reached) (simp add: loop_inv_def loop_start_def)

text \<open>C24: However the goroutines are scheduled, no shard has run more cycles than the master timer
  has fired, so no stream is ever ticked twice for one period.\<close>
theorem loop_no_extra_tick:
  assumes "loop_reachable call r w s" "i < nShards r"
  shows "ml_runs s ! i + (if ml_pend s ! i then 1 else 0) \<le> ml_fired s"
  using loop_inv_reachable [OF assms(1)] assms(2) by (simp add: loop_inv_def)

theorem loop_no_extra_tick_witness:
  "\<exists>s. loop_reachable (\<lambda>x w. (x, w + 1)) (Add True (NewReactor 2)) (0 :: nat) s
     \<and> ml_world s = 1 \<and> ml_runs s ! 0 + (if ml_pend s ! 0 then 1 else 0) \<le> ml_fired s"
proof -
  let ?call = "\<lambda>x w. (x, w + 1 :: nat)" and ?r = "Add True (NewReactor 2)"
  define s where "s = loop_start ?r (0 :: nat)"
  define s1 where "s1 = s\<lparr>ml_pend := map (\<lambda>_. True) (ml_pend s), ml_fired := Suc (ml_fired s)\<rparr>"
  have r: "nShards ?r = 2" "shards ?r = [[True], []]" by (simp_all add: Add_def NewReactor_def numeral_2_eq_2)
  have s1: "ml_reactor s1 = ?r" "ml_world s1 = 0" "length (ml_pend s1) = 2" "ml_pend s1 ! 0"
    by (simp_all add: s1_def s_def loop_start_def r)
  obtain r' where run: "run_shard ?call 0 (ml_reactor s1) (ml_world s1) = (r', 1)"
    by (simp add: run_shard_visit s1 r)
  define s2 where "s2 = s1\<lparr>ml_pend := (ml_pend s1)[0 := False],
      ml_runs := (ml_runs s1)[0 := Suc (ml_runs s1 ! 0)], ml_reactor := r', ml_world := 1\<rparr>"
  have "loop_step ?call s s1" unfolding s1_def by (rule fire) (simp add: s_def loop_start_def)
  moreover have "loop_step ?call s1 s2" unfolding s2_def using run s1 by (intro shard) simp_all
  ultimately have reach: "loop_reachable ?call ?r 0 s2"
    unfolding loop_reachable_def s_def by simp
  have "0 < nShards ?r" by (simp add: r)
  from loop_no_extra_tick [OF reach this] reach show ?thesis
    by (intro exI [of _ s2]) (simp add: s2_def)
qed

section \<open>Items that finish\<close>

fun cycles :: "('o \<Rightarrow> 'w \<Rightarrow> bool \<times> 'w) \<Rightarrow> nat \<Rightarrow> 'o list \<Rightarrow> 'w \<Rightarrow> 'o list \<times> 'w" where
  "cycles call 0 xs w = (xs, w)"
| "cycles call (Suc n) xs w = (let (xs, w) = visit call xs w in cycles call n xs w)"

text \<open>What a \<open>Tickable\<close> promises to the reactor: each tick that asks to stay has used up some of a
  finite budget, and ticks do not extend the budget of other items.\<close>

locale tickable =
  fixes call :: "'o \<Rightarrow> 'w \<Rightarrow> bool \<times> 'w"
    and budget :: "'o \<Rightarrow> 'w \<Rightarrow> nat"
  assumes progress: "fst (call x w) \<Longrightarrow> budget x (snd (call x w)) < budget x w"
    and apart: "y \<noteq> x \<Longrightarrow> budget y (snd (call x w)) \<le> budget y w"
begin

lemma visit_apart: "y \<notin> set xs \<Longrightarrow> budget y (snd (visit call xs w)) \<le> budget y w"
proof (induction xs arbitrary: w)
  case Nil
  then show ?case by simp
next
  case (Cons x xs)
  then have "budget y (snd (visit call xs (snd (call x w)))) \<le> budget y (snd (call x w))"
    and "budget y (snd (call x w)) \<le> budget y w" using apart by auto
  then show ?case by (simp add: split_beta Let_def)
qed

lemma visit_subset: "set (fst (visit call xs w)) \<subseteq> set xs"
  by (induction xs arbitrary: w) (auto simp: split_beta Let_def)

lemma visit_distinct: "distinct xs \<Longrightarrow> distinct (fst (visit call xs w))"
proof (induction xs arbitrary: w)
  case (Cons x xs)
  then show ?case using visit_subset [of xs "snd (call x w)"] by (auto simp: split_beta Let_def)
qed simp

lemma visit_progress:
  "distinct xs \<Longrightarrow> y \<in> set (fst (visit call xs w)) \<Longrightarrow> budget y (snd (visit call xs w)) < budget y w"
proof (induction xs arbitrary: w)
  case (Cons x xs)
  let ?w = "snd (call x w)"
  show ?case
  proof (cases "y = x")
    case True
    then have "fst (call x w)"
      using Cons.prems visit_subset [of xs ?w] by (auto simp: split_beta Let_def split: if_splits)
    with True progress [of x w] visit_apart [of x xs ?w] Cons.prems(1) show ?thesis
      by (simp add: split_beta Let_def)
  next
    case False
    then have "y \<in> set (fst (visit call xs ?w))"
      using Cons.prems(2) by (auto simp: split_beta Let_def split: if_splits)
    with Cons.IH Cons.prems(1) have "budget y (snd (visit call xs ?w)) < budget y ?w" by simp
    with apart [OF False, of w] show ?thesis by (simp add: split_beta Let_def)
  qed
qed simp

lemma all_leave:
  "distinct xs \<Longrightarrow> (\<And>x. x \<in> set xs \<Longrightarrow> budget x w < n) \<Longrightarrow> fst (cycles call n xs w) = []"
proof (induction n arbitrary: xs w)
  case 0
  then show ?case by (cases xs) auto
next
  case (Suc n)
  let ?xs = "fst (visit call xs w)" and ?w = "snd (visit call xs w)"
  have "budget x ?w < n" if "x \<in> set ?xs" for x
    using visit_progress [OF Suc.prems(1) that] Suc.prems(2) [of x] visit_subset [of xs w] that by force
  with Suc.IH [OF visit_distinct [OF Suc.prems(1)]] show ?case by (simp add: split_beta Let_def)
qed

end

end
