(* ===== verification/Sender.thy ===== *)
theory Sender
  imports Rtp_Session Reactor
begin

text \<open>
  The audio sender (\<open>core/rtp/sender.go\<close>): a \<open>StreamPlayer\<close> in the reactor that sends one
  pre-encoded frame per tick, numbered by the shared session. Marshalling is a parameter
  (\<open>rtp_wire\<close>), and so is whether the socket takes a datagram. The theory shows that an undisturbed
  stream sends all its frames in order with consecutive numbers and correct counters, that the
  completion callback runs exactly once, and that every stream leaves the reactor.
\<close>

section \<open>One tick\<close>

text \<open>\<open>st_onDone\<close> says whether the callback is still set; \<open>st_done_calls\<close> counts its runs and
  \<open>st_wire\<close> holds the datagrams the socket took.\<close>

record stream =
  st_sess :: rtp_session
  st_payloads :: "bytes list"
  st_pt :: byte
  st_stats :: send_stats
  st_stop :: bool
  st_idx :: nat
  st_onDone :: bool
  st_tsIncrement :: u32
  st_done_calls :: nat
  st_wire :: "bytes list"

definition Stream :: "rtp_session \<Rightarrow> bytes list \<Rightarrow> byte \<Rightarrow> u32 \<Rightarrow> bool \<Rightarrow> stream" where
  "Stream sess payloads pt tsIncrement onDone =
     \<lparr>st_sess = sess, st_payloads = payloads, st_pt = pt, st_stats = send_stats0, st_stop = False, st_idx = 0,
      st_onDone = onDone, st_tsIncrement = tsIncrement, st_done_calls = 0, st_wire = []\<rparr>"

definition finish :: "'a stream_scheme \<Rightarrow> 'a stream_scheme" where
  "finish p = (if st_onDone p then p\<lparr>st_done_calls := st_done_calls p + 1, st_onDone := False\<rparr> else p)"

definition audio_packet :: "byte \<Rightarrow> u16 \<Rightarrow> u32 \<Rightarrow> u32 \<Rightarrow> bytes \<Rightarrow> rtp_packet" where
  "audio_packet pt seq ts ssrc payload =
     \<lparr>Version = 2, Marker = False, PayloadType = pt, SequenceNumber = seq, Timestamp = ts,
      packet_SSRC = ssrc, Payload = payload\<rparr>"

definition StreamPlayer_Tick ::
    "(rtp_packet \<Rightarrow> bytes option) \<Rightarrow> (bytes \<Rightarrow> bool) \<Rightarrow> stream \<Rightarrow> bool \<times> stream" where
  "StreamPlayer_Tick marshal net p =
     (if st_stop p then (False, finish p)
      else if st_idx p \<ge> length (st_payloads p) then (False, finish p)
      else
        let payload = st_payloads p ! st_idx p;
            p = p\<lparr>st_idx := st_idx p + 1\<rparr>;
            ((seq, ts), sess) = NextSeqTS (st_tsIncrement p) (st_sess p);
            p = p\<lparr>st_sess := sess\<rparr>;
            pkt = audio_packet (st_pt p) seq ts (SSRC sess) payload
        in case marshal pkt of
             None \<Rightarrow> (True, p)
           | Some raw \<Rightarrow>
               if net raw
               then (True, p\<lparr>st_wire := st_wire p @ [raw], st_stats := count_sent payload raw (st_stats p)\<rparr>)
               else (True, p))"

section \<open>An undisturbed stream\<close>

text \<open>What \<open>k\<close> ticks have done to a fresh stream.\<close>

definition played :: "(bytes \<Rightarrow> rtp_packet option) \<Rightarrow> rtp_session \<Rightarrow> nat \<Rightarrow> stream \<Rightarrow> bool" where
  "played unmarshal s0 k p \<longleftrightarrow> st_idx p = k
     \<and> st_sess p = s0\<lparr>sess_seq := sess_seq s0 + of_nat k, sess_ts := sess_ts s0 + of_nat k * st_tsIncrement p\<rparr>
     \<and> map unmarshal (st_wire p) = map (\<lambda>i. Some (audio_packet (st_pt p) (sess_seq s0 + of_nat i)
          (sess_ts s0 + of_nat i * st_tsIncrement p) (SSRC s0) (st_payloads p ! i))) [0..<k]
     \<and> map length (st_wire p) = map (\<lambda>i. 12 + length (st_payloads p ! i)) [0..<k]
     \<and> PacketsSent (st_stats p) = int k
     \<and> OctetsSent (st_stats p) = (\<Sum>i<k. int (length (st_payloads p ! i)))
     \<and> BytesSent (st_stats p) = (\<Sum>i<k. int (length (st_payloads p ! i)) + 12)"

definition stream_inputs :: "stream \<Rightarrow> bytes list \<times> byte \<times> u32 \<times> bool \<times> bool \<times> nat" where
  "stream_inputs p = (st_payloads p, st_pt p, st_tsIncrement p, st_stop p, st_onDone p, st_done_calls p)"

text \<open>A tick on a network that takes every datagram.\<close>

definition send_tick :: "(rtp_packet \<Rightarrow> bytes option) \<Rightarrow> stream \<Rightarrow> stream" where
  "send_tick marshal p = snd (StreamPlayer_Tick marshal (\<lambda>_. True) p)"

context rtp_wire
begin

lemma played_tick:
  assumes pt: "unat (st_pt p) < 128"
    and p: "played unmarshal s0 k p" "k < length (st_payloads p)" "\<not> st_stop p"
  shows "\<exists>p'. StreamPlayer_Tick marshal (\<lambda>_. True) p = (True, p') \<and> played unmarshal s0 (Suc k) p'
    \<and> stream_inputs p' = stream_inputs p"
proof -
  let ?pkt = "audio_packet (st_pt p) (sess_seq s0 + of_nat k) (sess_ts s0 + of_nat k * st_tsIncrement p)
    (SSRC s0) (st_payloads p ! k)"
  have "plain_packet ?pkt" using pt by (simp add: plain_packet_def audio_packet_def)
  then obtain raw where raw: "marshal ?pkt = Some raw" "length raw = 12 + length (Payload ?pkt)"
      "unmarshal raw = Some ?pkt"
    by (rule marshal_obtain)
  let ?p = "p\<lparr>st_idx := Suc k, st_sess := snd (NextSeqTS (st_tsIncrement p) (st_sess p)),
    st_wire := st_wire p @ [raw], st_stats := count_sent (st_payloads p ! k) raw (st_stats p)\<rparr>"
  have "StreamPlayer_Tick marshal (\<lambda>_. True) p = (True, ?p)"
    using p raw(1) by (simp add: StreamPlayer_Tick_def played_def NextSeqTS_def Let_def split_beta)
  moreover have "played unmarshal s0 (Suc k) ?p"
    using p raw(2,3) by (simp add: played_def NextSeqTS_def count_sent_def audio_packet_def algebra_simps)
  ultimately show ?thesis by (intro exI [of _ ?p]) (simp add: stream_inputs_def)
qed

lemma played_ticks:
  assumes pt: "unat (st_pt p) < 128" and p: "played unmarshal s0 0 p" "\<not> st_stop p"
  shows "n \<le> length (st_payloads p) \<Longrightarrow>
    \<exists>p'. (send_tick marshal ^^ n) p = p' \<and> played unmarshal s0 n p'
      \<and> stream_inputs p' = stream_inputs p"
proof (induction n)
  case 0
  with p show ?case by simp
next
  case (Suc n)
  define p' where p: "p' = (send_tick marshal ^^ n) p"
  with Suc.IH Suc_leD [OF Suc.prems] have p': "played unmarshal s0 n p'" "stream_inputs p' = stream_inputs p"
    by blast+
  then have "unat (st_pt p') < 128" "n < length (st_payloads p')" "\<not> st_stop p'"
    using pt \<open>\<not> st_stop p\<close> Suc.prems by (simp_all add: stream_inputs_def)
  from played_tick [OF this(1) p'(1) this(2,3)] p' show ?case by (auto simp: p send_tick_def [of marshal "(send_tick marshal ^^ n) p0" for p0])
qed

end

text \<open>Left alone, a stream with \<open>n\<close> frames hands the network exactly \<open>n\<close> packets, which unmarshal to
  its frames in order with consecutive sequence numbers and timestamps \<open>tsIncrement\<close> apart, counts
  them and their octets, and the next tick runs the completion callback once and leaves.\<close>
theorem stream_sends_all:
  assumes "rtp_wire marshal unmarshal" "unat pt < 128" "n = length payloads"
    and "p = (send_tick marshal ^^ n) (Stream sess payloads pt inc True)"
  shows "map unmarshal (st_wire p) = map (\<lambda>i. Some (audio_packet pt (sess_seq sess + of_nat i)
        (sess_ts sess + of_nat i * inc) (SSRC sess) (payloads ! i))) [0..<n]
    \<and> PacketsSent (st_stats p) = int n
    \<and> OctetsSent (st_stats p) = (\<Sum>i<n. int (length (payloads ! i)))
    \<and> StreamPlayer_Tick marshal (\<lambda>_. True) p = (False, p\<lparr>st_done_calls := 1, st_onDone := False\<rparr>)"
proof -
  let ?p = "Stream sess payloads pt inc True"
  have "played unmarshal sess 0 ?p" by (simp add: played_def Stream_def send_stats0_def)
  moreover have "unat (st_pt ?p) < 128" "\<not> st_stop ?p" "n \<le> length (st_payloads ?p)"
    using assms(2,3) by (simp_all add: Stream_def)
  ultimately have p: "played unmarshal sess n p" "stream_inputs p = stream_inputs ?p"
    using rtp_wire.played_ticks [OF assms(1), of ?p sess n] assms(4) by auto
  then have "st_idx p = n" "st_payloads p = payloads" "\<not> st_stop p" "st_onDone p" "st_done_calls p = 0"
    "st_pt p = pt" "st_tsIncrement p = inc"
    by (simp_all add: played_def stream_inputs_def Stream_def)
  with p(1) assms(3) show ?thesis
    by (simp add: played_def StreamPlayer_Tick_def finish_def)
qed

theorem stream_sends_all_witness:
  "map rfc3550_unmarshal (st_wire ((send_tick rfc3550_marshal ^^ 2)
      (Stream (NewSession 9) [[1, 2], [3]] 0 160 True)))
    = [Some (audio_packet 0 0 0 9 [1, 2]), Some (audio_packet 0 1 160 9 [3])]"
  using stream_sends_all [OF rfc3550.rtp_wire_axioms, of 0 2 "[[1, 2], [3]]" _ "NewSession 9" 160]
  by (simp add: NewSession_def upt_rec numeral_2_eq_2)

section \<open>Completion\<close>

datatype stream_event = STick | SStop

fun stream_event_step :: "(rtp_packet \<Rightarrow> bytes option) \<Rightarrow> (bytes \<Rightarrow> bool) \<Rightarrow> stream_event \<Rightarrow> stream \<Rightarrow> stream" where
  "stream_event_step marshal net STick p = snd (StreamPlayer_Tick marshal net p)"
| "stream_event_step marshal net SStop p = p\<lparr>st_stop := True\<rparr>"

definition done_inv :: "stream \<Rightarrow> bool" where
  "done_inv p \<longleftrightarrow> st_idx p \<le> length (st_payloads p) \<and> st_done_calls p = (if st_onDone p then 0 else 1)"

lemma finish_simps [simp]:
  "st_onDone (finish p) = False" "st_idx (finish p) = st_idx p" "st_payloads (finish p) = st_payloads p"
  "st_stop (finish p) = st_stop p" "st_wire (finish p) = st_wire p"
  by (simp_all add: finish_def)

lemma Tick_cases:
  obtains (finished) "StreamPlayer_Tick marshal net p = (False, finish p)"
      "st_stop p \<or> length (st_payloads p) \<le> st_idx p"
  | (frame) p' where "StreamPlayer_Tick marshal net p = (True, p')" "\<not> st_stop p"
      "st_idx p < length (st_payloads p)" "st_idx p' = Suc (st_idx p)" "st_payloads p' = st_payloads p"
      "st_onDone p' = st_onDone p" "st_done_calls p' = st_done_calls p" "st_stop p' = st_stop p"
proof (cases "st_stop p \<or> length (st_payloads p) \<le> st_idx p")
  case True
  then show thesis by (intro finished) (auto simp: StreamPlayer_Tick_def)
next
  case False
  then show thesis
    by (intro frame [of "snd (StreamPlayer_Tick marshal net p)"])
      (auto simp: StreamPlayer_Tick_def Let_def split_beta split: option.split)
qed

lemma done_inv_step [inv_intros]: "done_inv p \<Longrightarrow> done_inv (stream_event_step marshal net e p)"
proof (cases e)
  case STick
  assume "done_inv p"
  with STick show ?thesis
    by (cases rule: Tick_cases [of marshal net p]) (simp_all add: done_inv_def finish_def)
qed (simp add: done_inv_def)

text \<open>Whatever the order of ticks and stop requests, marshalling errors and network failures, the
  completion callback runs at most once, and it has run when a tick has asked to leave.\<close>
theorem stream_done_once:
  assumes "p = fold (stream_event_step marshal net) es (Stream sess payloads pt inc True)"
  shows "st_done_calls p \<le> 1
    \<and> (fst (StreamPlayer_Tick marshal net p) = False \<longrightarrow> st_done_calls (snd (StreamPlayer_Tick marshal net p)) = 1)"
proof -
  have "done_inv q \<Longrightarrow> done_inv (fold (stream_event_step marshal net) es q)" for q
    by (induction es arbitrary: q) (auto intro: done_inv_step)
  then have p: "done_inv p" unfolding assms by (simp add: done_inv_def Stream_def)
  then show ?thesis
    by (cases rule: Tick_cases [of marshal net p]) (auto simp: done_inv_def finish_def)
qed

theorem stream_done_once_witness:
  "st_done_calls (fold (stream_event_step rfc3550_marshal (\<lambda>_. False)) [STick, SStop, STick, STick]
     (Stream (NewSession 1) [[1]] 0 160 True)) \<le> 1"
  using stream_done_once [OF refl, of rfc3550_marshal "\<lambda>_. False" "[STick, SStop, STick, STick]" "NewSession 1" "[[1]]" 0 160]
  by blast

section \<open>Streams in the reactor\<close>

text \<open>The reactor refers to streams by name; a tick of one updates its entry of the heap.\<close>

definition stream_call ::
    "(rtp_packet \<Rightarrow> bytes option) \<Rightarrow> (bytes \<Rightarrow> bool) \<Rightarrow> 'o \<Rightarrow> ('o \<Rightarrow> stream) \<Rightarrow> bool \<times> ('o \<Rightarrow> stream)" where
  "stream_call marshal net x h = (let (keep, p) = StreamPlayer_Tick marshal net (h x) in (keep, h(x := p)))"

definition frames_left :: "'o \<Rightarrow> ('o \<Rightarrow> stream) \<Rightarrow> nat" where
  "frames_left x h = length (st_payloads (h x)) - st_idx (h x)"

interpretation player: tickable "stream_call marshal net" frames_left for marshal net
proof unfold_locales
  fix x h
  assume "fst (stream_call marshal net x h)"
  then show "frames_left x (snd (stream_call marshal net x h)) < frames_left x h"
    by (cases rule: Tick_cases [of marshal net "h x"])
      (auto simp: stream_call_def frames_left_def split_beta Let_def)
next
  fix x y h
  assume "y \<noteq> x"
  then show "frames_left y (snd (stream_call marshal net x h)) \<le> frames_left y h"
    by (simp add: stream_call_def frames_left_def split_beta Let_def)
qed

text \<open>Streams with at most \<open>n\<close> frames have all left their shard after \<open>n + 1\<close> cycles, whatever the
  network does.\<close>
theorem streams_leave_reactor:
  assumes "distinct xs" "\<And>x. x \<in> set xs \<Longrightarrow> length (st_payloads (h x)) \<le> n"
  shows "fst (cycles (stream_call marshal net) (Suc n) xs h) = []"
  using player.all_leave [OF assms(1), of h "Suc n" marshal net] assms(2)
  by (force simp: frames_left_def)

theorem streams_leave_reactor_witness:
  "fst (cycles (stream_call rfc3550_marshal (\<lambda>_. True)) 3 [1, 2 :: nat]
      (\<lambda>_. Stream (NewSession 1) [[1], [2]] 0 160 True)) = []"
  using streams_leave_reactor [of "[1, 2 :: nat]" "\<lambda>_. Stream (NewSession 1) [[1], [2]] 0 160 True" 2
      rfc3550_marshal "\<lambda>_. True"]
  by (simp add: Stream_def numeral_3_eq_3)

end
