(* ===== verification/Srtp.thy ===== *)
theory Srtp
  imports Rtp_Stats Crypto Base64 Sender
begin

text \<open>
  SRTP (\<open>core/rtp/srtp.go\<close>): parsing of the SDP key, derivation of the session keys, the estimate of
  the packet index, protection and unprotection of packets, and the SRTP sender in the reactor.
  The theory shows that two sessions with the same key agree on every stream, also across
  rollovers and losses, that the sender never uses a keystream block twice, and what the design
  does not protect: replayed packets are accepted, and a forged packet moves the receiver's
  rollover counter although it is refused.
\<close>

section \<open>Configuration\<close>

record srtp_config =
  MasterKey :: bytes
  MasterSalt :: bytes
  Profile :: string

datatype srtp_error = InlineTooShort | DecodeKey | KeySaltLength nat | ConfigNil | MasterKeyLength nat
  | MasterSaltLength nat | AESKeyExpand | PacketTooShort nat | AuthTagMismatch

text \<open>The first seven characters are dropped whatever they are.\<close>

definition ParseSRTPConfig :: "string \<Rightarrow> srtp_error + srtp_config" where
  "ParseSRTPConfig inline =
     (if length inline < 7 then Inl InlineTooShort
      else
        let b64 = takeWhile (\<lambda>c. c \<noteq> CHR ''|'') (drop 7 inline)
        in case b64_DecodeString b64 of
             None \<Rightarrow> Inl DecodeKey
           | Some raw \<Rightarrow>
               if length raw \<noteq> 30 then Inl (KeySaltLength (length raw))
               else Inr \<lparr>MasterKey = take 16 raw, MasterSalt = drop 16 raw,
                         Profile = ''AES_CM_128_HMAC_SHA1_80''\<rparr>)"

definition validateConfig :: "srtp_config option \<Rightarrow> srtp_error + srtp_config" where
  "validateConfig cfg = (case cfg of
       None \<Rightarrow> Inl ConfigNil
     | Some c \<Rightarrow>
         if length (MasterKey c) \<noteq> 16 then Inl (MasterKeyLength (length (MasterKey c)))
         else if length (MasterSalt c) \<noteq> 14 then Inl (MasterSaltLength (length (MasterSalt c)))
         else Inr c)"

section \<open>Keys\<close>

text \<open>\<open>aes.NewCipher\<close>, for the 16-byte keys that \<open>validateConfig\<close> lets through.\<close>

definition aes_NewCipher :: "bytes \<Rightarrow> srtp_error + (bytes \<Rightarrow> bytes)" where
  "aes_NewCipher key = (if length key \<noteq> 16 then Inl AESKeyExpand else Inr (aes_encrypt key))"

text \<open>\<open>copy(dst, src)\<close> into a fresh slice of \<open>n\<close> zero bytes.\<close>

definition copy_into :: "nat \<Rightarrow> bytes \<Rightarrow> bytes" where
  "copy_into n src = take n (src @ replicate n 0)"

definition xor_at :: "nat \<Rightarrow> byte \<Rightarrow> bytes \<Rightarrow> bytes" where
  "xor_at i b iv = iv[i := iv ! i XOR b]"

definition deriveKey :: "bytes \<Rightarrow> bytes \<Rightarrow> byte \<Rightarrow> nat \<Rightarrow> srtp_error + bytes" where
  "deriveKey masterKey masterSalt label len =
     (let x = xor_at 7 label (copy_into 16 masterSalt)
      in result_bind (aes_NewCipher masterKey) (\<lambda>block.
        let segments = (len + 15) div 16;
            out = concat (map (\<lambda>i. block (xor_bytes x (replicate 14 0 @ be16 (of_nat i)))) [0..<segments])
        in Inr (take len out)))"

definition deriveKeys :: "srtp_config \<Rightarrow> srtp_error + bytes \<times> bytes \<times> bytes" where
  "deriveKeys cfg =
     result_bind (deriveKey (MasterKey cfg) (MasterSalt cfg) 0x00 16) (\<lambda>enc.
     result_bind (deriveKey (MasterKey cfg) (MasterSalt cfg) 0x02 14) (\<lambda>salt.
     result_bind (deriveKey (MasterKey cfg) (MasterSalt cfg) 0x01 20) (\<lambda>auth.
     Inr (enc, salt, auth))))"

section \<open>Sessions\<close>

record srtp_session =
  srtp_cfg :: srtp_config
  srtp_ssrc :: u32
  srtp_index :: u64
  srtp_lastSeq :: u16
  srtp_encrypt :: bool
  encKey :: bytes
  saltKey :: bytes
  authorKey :: bytes

definition NewSRTPSession :: "bool \<Rightarrow> srtp_config option \<Rightarrow> u32 \<Rightarrow> srtp_error + srtp_session" where
  "NewSRTPSession enc cfg ssrc =
     result_bind (validateConfig cfg) (\<lambda>c.
     result_bind (deriveKeys c) (\<lambda>(encK, saltK, authK).
     result_bind (aes_NewCipher encK) (\<lambda>_.
     Inr \<lparr>srtp_cfg = c, srtp_ssrc = ssrc, srtp_index = 0, srtp_lastSeq = 0, srtp_encrypt = enc,
          encKey = encK, saltKey = saltK, authorKey = authK\<rparr>)))"

definition NewSRTPSenderSession :: "srtp_config option \<Rightarrow> u32 \<Rightarrow> srtp_error + srtp_session" where
  "NewSRTPSenderSession = NewSRTPSession True"

definition NewSRTPReceiverSession :: "srtp_config option \<Rightarrow> u32 \<Rightarrow> srtp_error + srtp_session" where
  "NewSRTPReceiverSession = NewSRTPSession False"

definition estimateIndex :: "u16 \<Rightarrow> srtp_session \<Rightarrow> u64 \<times> srtp_session" where
  "estimateIndex seq s =
     (let roc = drop_bit 16 (srtp_index s);
          v = push_bit 16 roc OR ucast seq;
          diff = i32 (uint seq - uint (srtp_lastSeq s));
          v = (if diff < -0x8000 then push_bit 16 (roc + 1) OR ucast seq else v)
      in (v, s\<lparr>srtp_lastSeq := seq, srtp_index := v\<rparr>))"

definition nextIndex :: "bytes \<Rightarrow> srtp_session \<Rightarrow> u64 \<times> srtp_session" where
  "nextIndex raw s = estimateIndex (if length raw \<ge> 4 then get16 raw 2 else 0) s"

definition deriveIV :: "bytes \<Rightarrow> u32 \<Rightarrow> u64 \<Rightarrow> bytes" where
  "deriveIV salt ssrc index =
     (let iv = copy_into 16 salt;
          iv = xor_at 4 (ucast (drop_bit 24 ssrc)) iv;
          iv = xor_at 5 (ucast (drop_bit 16 ssrc)) iv;
          iv = xor_at 6 (ucast (drop_bit 8 ssrc)) iv;
          iv = xor_at 7 (ucast ssrc) iv;
          iv = xor_at 8 (ucast (drop_bit 40 index)) iv;
          iv = xor_at 9 (ucast (drop_bit 32 index)) iv;
          iv = xor_at 10 (ucast (drop_bit 24 index)) iv;
          iv = xor_at 11 (ucast (drop_bit 16 index)) iv;
          iv = xor_at 12 (ucast (drop_bit 8 index)) iv;
          iv = xor_at 13 (ucast index) iv
      in iv)"

text \<open>\<open>enc[12:]\<close> panics for a packet of fewer than 12 bytes: \<open>None\<close>.\<close>

definition protect :: "bytes \<Rightarrow> u64 \<Rightarrow> srtp_session \<Rightarrow> bytes option" where
  "protect raw index s =
     (if length raw < 12 then None
      else
        let ks = deriveIV (MasterSalt (srtp_cfg s)) (srtp_ssrc s) index;
            enc = take 12 raw @ XORKeyStream (aes_encrypt (encKey s)) ks (drop 12 raw);
            tag = take 10 (hmac_sha1 (authorKey s) enc)
        in Some (enc @ tag))"

definition EncryptPacket :: "bytes \<Rightarrow> srtp_session \<Rightarrow> bytes option \<times> srtp_session" where
  "EncryptPacket raw s = (let (index, s) = nextIndex raw s in (protect raw index s, s))"

definition DecryptPacket :: "bytes \<Rightarrow> srtp_session \<Rightarrow> (srtp_error + bytes) \<times> srtp_session" where
  "DecryptPacket srtp s =
     (if length srtp < 12 + 10 then (Inl (PacketTooShort (length srtp)), s)
      else
        let authData = take (length srtp - 10) srtp;
            authTag = drop (length srtp - 10) srtp;
            seq = get16 srtp 2;
            (index, s) = estimateIndex seq s;
            expected = take 10 (hmac_sha1 (authorKey s) authData)
        in if expected \<noteq> authTag then (Inl AuthTagMismatch, s)
           else
             let header = take 12 srtp;
                 payload = drop 12 authData;
                 ks = deriveIV (MasterSalt (srtp_cfg s)) (srtp_ssrc s) index
             in (Inr (header @ XORKeyStream (aes_encrypt (encKey s)) ks payload), s))"

section \<open>Shapes of keys and IVs\<close>

text \<open>The big-endian form of the low 48 bits of an index.\<close>

definition be48 :: "u64 \<Rightarrow> bytes" where
  "be48 w = [ucast (drop_bit 40 w), ucast (drop_bit 32 w), ucast (drop_bit 24 w), ucast (drop_bit 16 w),
     ucast (drop_bit 8 w), ucast w]"

definition iv_prefix :: "bytes \<Rightarrow> u32 \<Rightarrow> u64 \<Rightarrow> bytes" where
  "iv_prefix salt ssrc index = xor_bytes salt ([0, 0, 0, 0] @ be32 ssrc @ be48 index)"

lemma list14:
  assumes "length xs = 14"
  obtains a b c d e f g h i j k l m n where "xs = [a, b, c, d, e, f, g, h, i, j, k, l, m, n]"
  using assms by (auto simp: numeral_eq_Suc length_Suc_conv)

lemma deriveIV_block: "length salt = 14 \<Longrightarrow> deriveIV salt ssrc index = ctr_block (iv_prefix salt ssrc index) 0"
  by (erule list14)
    (simp add: deriveIV_def copy_into_def xor_at_def ctr_block_def iv_prefix_def xor_bytes_def be32_def be48_def
      be16_def Let_def numeral_2_eq_2)

lemma length_iv_prefix: "length salt = 14 \<Longrightarrow> length (iv_prefix salt ssrc index) = 14"
  by (simp add: iv_prefix_def be48_def)

lemma length_deriveIV: "length salt = 14 \<Longrightarrow> length (deriveIV salt ssrc index) = 16"
  by (simp add: deriveIV_block ctr_block_def length_iv_prefix)

lemma deriveKey_length:
  assumes "deriveKey mk ms l n = Inr k"
  shows "length k = n"
proof -
  from assms have mk: "length mk = 16"
    by (auto simp: deriveKey_def aes_NewCipher_def Let_def split: if_splits)
  let ?x = "xor_at 7 l (copy_into 16 ms)"
  have len: "length (aes_encrypt mk (xor_bytes ?x (replicate 14 0 @ be16 w))) = 16" for w
    by (rule aes.block_size [OF mk]) (simp add: xor_at_def copy_into_def)
  have "length (concat (map (\<lambda>i. aes_encrypt mk (xor_bytes ?x (replicate 14 0 @ be16 (of_nat i)))) [0..<m])) = 16 * m" for m
    by (induction m) (simp_all add: len)
  with assms mk show ?thesis
    by (auto simp: deriveKey_def aes_NewCipher_def Let_def)
qed

text \<open>A session as the constructors make it.\<close>

definition srtp_ok :: "srtp_session \<Rightarrow> bool" where
  "srtp_ok s \<longleftrightarrow> length (MasterKey (srtp_cfg s)) = 16 \<and> length (MasterSalt (srtp_cfg s)) = 14
     \<and> length (encKey s) = 16 \<and> length (saltKey s) = 14 \<and> length (authorKey s) = 20"

lemma NewSRTPSession_ok:
  assumes "NewSRTPSession e c ssrc = Inr s"
  shows "srtp_ok s" "srtp_index s = 0" "srtp_lastSeq s = 0" "srtp_ssrc s = ssrc" "c = Some (srtp_cfg s)"
  using assms
  by (auto simp: NewSRTPSession_def result_bind_Inr validateConfig_def deriveKeys_def srtp_ok_def
      deriveKey_length split: option.splits if_splits)

lemma NewSRTPSession_total:
  assumes "length (MasterKey c) = 16" "length (MasterSalt c) = 14"
  shows "\<exists>s. NewSRTPSession e (Some c) ssrc = Inr s"
proof -
  have "\<exists>k. deriveKey (MasterKey c) (MasterSalt c) l n = Inr k" for l n
    using assms by (simp add: deriveKey_def aes_NewCipher_def Let_def)
  then obtain k0 k1 k2 where k: "deriveKey (MasterKey c) (MasterSalt c) 0 16 = Inr k0"
    "deriveKey (MasterKey c) (MasterSalt c) 2 14 = Inr k1" "deriveKey (MasterKey c) (MasterSalt c) 1 20 = Inr k2"
    by metis
  with deriveKey_length [OF k(1)] assms show ?thesis
    by (simp add: NewSRTPSession_def validateConfig_def deriveKeys_def aes_NewCipher_def)
qed

text \<open>Two sessions on the same key material and SSRC.\<close>

definition same_keys :: "srtp_session \<Rightarrow> srtp_session \<Rightarrow> bool" where
  "same_keys s r \<longleftrightarrow> srtp_cfg s = srtp_cfg r \<and> srtp_ssrc s = srtp_ssrc r \<and> encKey s = encKey r
     \<and> authorKey s = authorKey r"

lemma same_keys_new:
  assumes "NewSRTPSession e1 c ssrc = Inr s" "NewSRTPSession e2 c ssrc = Inr r"
  shows "same_keys s r"
  using assms by (auto simp: NewSRTPSession_def result_bind_Inr same_keys_def)

lemma estimateIndex_keys [simp]:
  "srtp_cfg (snd (estimateIndex q s)) = srtp_cfg s" "srtp_ssrc (snd (estimateIndex q s)) = srtp_ssrc s"
  "encKey (snd (estimateIndex q s)) = encKey s" "authorKey (snd (estimateIndex q s)) = authorKey s"
  "saltKey (snd (estimateIndex q s)) = saltKey s"
  by (simp_all add: estimateIndex_def Let_def)

lemma EncryptPacket_state: "snd (EncryptPacket raw s) = snd (nextIndex raw s)"
  by (simp add: EncryptPacket_def split_beta Let_def)

lemma DecryptPacket_state:
  "22 \<le> length p \<Longrightarrow> snd (DecryptPacket p s) = snd (estimateIndex (get16 p 2) s)"
  by (simp add: DecryptPacket_def split_beta Let_def)

section \<open>Unprotecting what was protected\<close>

lemma protect_shape:
  assumes "srtp_ok s" "12 \<le> length raw" "protect raw index s = Some p"
  shows "length p = length raw + 10" "get16 p 2 = get16 raw 2"
    "take (length p - 10) p = take 12 raw
       @ XORKeyStream (aes_encrypt (encKey s)) (deriveIV (MasterSalt (srtp_cfg s)) (srtp_ssrc s) index) (drop 12 raw)"
    "drop (length p - 10) p = take 10 (hmac_sha1 (authorKey s) (take (length p - 10) p))"
proof -
  let ?iv = "deriveIV (MasterSalt (srtp_cfg s)) (srtp_ssrc s) index"
  let ?enc = "take 12 raw @ XORKeyStream (aes_encrypt (encKey s)) ?iv (drop 12 raw)"
  from assms have p: "p = ?enc @ take 10 (hmac_sha1 (authorKey s) ?enc)"
    by (simp add: protect_def Let_def)
  have len: "length ?enc = length raw"
    using assms aes.length_XORKeyStream [of "encKey s" ?iv] by (simp add: srtp_ok_def length_deriveIV)
  then show l: "length p = length raw + 10" by (simp add: p)
  show enc: "take (length p - 10) p = ?enc" using len assms(2) by (simp add: l p)
  then show "drop (length p - 10) p = take 10 (hmac_sha1 (authorKey s) (take (length p - 10) p))"
    using len assms(2) unfolding enc by (simp add: l p)
  show "get16 p 2 = get16 raw 2" using assms(2) by (simp add: p get16_def nth_append)
qed

lemma decrypt_any:
  assumes "srtp_ok s" "same_keys s r" "12 \<le> length raw" "protect raw index s = Some p"
    and "fst (estimateIndex (get16 raw 2) r) = index'"
  shows "fst (DecryptPacket p r) = Inr (take 12 raw
    @ XORKeyStream (aes_encrypt (encKey r)) (deriveIV (MasterSalt (srtp_cfg r)) (srtp_ssrc r) index')
        (XORKeyStream (aes_encrypt (encKey r)) (deriveIV (MasterSalt (srtp_cfg r)) (srtp_ssrc r) index) (drop 12 raw)))"
proof -
  note shape = protect_shape [OF assms(1,3,4)]
  let ?iv = "deriveIV (MasterSalt (srtp_cfg r)) (srtp_ssrc r) index"
  have "authorKey r = authorKey s" using assms(2) by (simp add: same_keys_def)
  with shape(4) have tag: "take 10 (hmac_sha1 (authorKey r) (take (length p - 10) p)) = drop (length p - 10) p"
    by simp
  have auth: "take (length p - 10) p = take 12 raw @ XORKeyStream (aes_encrypt (encKey r)) ?iv (drop 12 raw)"
    using shape(3) assms(2) by (simp add: same_keys_def)
  have "take 12 p = take 12 (take (length p - 10) p)" using assms(3) shape(1) by simp
  then have head: "take 12 p = take 12 raw" using assms(3) by (simp add: auth)
  show ?thesis
    using assms(3,5) shape(1,2) tag auth head by (simp add: DecryptPacket_def split_beta Let_def)
qed

lemma decrypt_protected:
  assumes "srtp_ok s" "same_keys s r" "12 \<le> length raw" "protect raw index s = Some p"
    and "fst (estimateIndex (get16 raw 2) r) = index"
  shows "fst (DecryptPacket p r) = Inr raw"
proof -
  have "length (encKey r) = 16" "length (deriveIV (MasterSalt (srtp_cfg r)) (srtp_ssrc r) index) = 16"
    using assms(1,2) by (simp_all add: srtp_ok_def same_keys_def length_deriveIV)
  then show ?thesis
    using decrypt_any [OF assms] aes.XORKeyStream_involution by simp
qed

text \<open>The two ends handle a stream packet by packet.\<close>

fun encrypt_all :: "bytes list \<Rightarrow> srtp_session \<Rightarrow> bytes list option \<times> srtp_session" where
  "encrypt_all [] s = (Some [], s)"
| "encrypt_all (raw # raws) s =
     (let (p, s1) = EncryptPacket raw s; (ps, s2) = encrypt_all raws s1
      in (case (p, ps) of (Some p, Some ps) \<Rightarrow> Some (p # ps) | _ \<Rightarrow> None, s2))"

fun decrypt_all :: "bytes list \<Rightarrow> srtp_session \<Rightarrow> (srtp_error + bytes) list \<times> srtp_session" where
  "decrypt_all [] s = ([], s)"
| "decrypt_all (p # ps) s =
     (let (raw, s1) = DecryptPacket p s; (raws, s2) = decrypt_all ps s1 in (raw # raws, s2))"

definition in_sync :: "srtp_session \<Rightarrow> srtp_session \<Rightarrow> bool" where
  "in_sync s r \<longleftrightarrow> srtp_ok s \<and> same_keys s r \<and> srtp_index s = srtp_index r \<and> srtp_lastSeq s = srtp_lastSeq r"

lemma estimateIndex_sync:
  assumes "in_sync s r"
  shows "fst (estimateIndex q r) = fst (estimateIndex q s)"
    and "in_sync (snd (estimateIndex q s)) (snd (estimateIndex q r))"
  using assms
  by (auto simp: in_sync_def same_keys_def srtp_ok_def estimateIndex_def Let_def)

lemma srtp_step:
  assumes "in_sync s r" "12 \<le> length raw"
  obtains p where "EncryptPacket raw s = (Some p, snd (estimateIndex (get16 raw 2) s))"
    "DecryptPacket p r = (Inr raw, snd (estimateIndex (get16 raw 2) r))"
    "in_sync (snd (EncryptPacket raw s)) (snd (DecryptPacket p r))"
proof -
  let ?q = "get16 raw 2"
  let ?s = "snd (estimateIndex ?q s)" and ?i = "fst (estimateIndex ?q s)"
  have enc: "EncryptPacket raw s = (protect raw ?i ?s, ?s)"
    using assms(2) by (simp add: EncryptPacket_def nextIndex_def split_beta Let_def)
  have ok: "srtp_ok ?s" "same_keys ?s r" using assms(1) by (auto simp: in_sync_def srtp_ok_def same_keys_def)
  obtain p where p: "protect raw ?i ?s = Some p" using assms(2) by (simp add: protect_def Let_def)
  have dec: "fst (DecryptPacket p r) = Inr raw"
    using decrypt_protected [OF ok assms(2) p] estimateIndex_sync(1) [OF assms(1)] by simp
  note shape = protect_shape [OF ok(1) assms(2) p]
  then have "snd (DecryptPacket p r) = snd (estimateIndex ?q r)"
    using assms(2) by (simp add: DecryptPacket_state)
  with dec enc p estimateIndex_sync(2) [OF assms(1)] show ?thesis
    by (intro that [of p]) (simp_all add: prod_eq_iff)
qed

lemma srtp_stream:
  "in_sync s r \<Longrightarrow> (\<And>raw. raw \<in> set raws \<Longrightarrow> 12 \<le> length raw) \<Longrightarrow>
   \<exists>ps. fst (encrypt_all raws s) = Some ps \<and> fst (decrypt_all ps r) = map Inr raws"
proof (induction raws arbitrary: s r)
  case Nil
  then show ?case by simp
next
  case (Cons raw raws)
  from Cons.prems(2) have "12 \<le> length raw" by simp
  from srtp_step [OF Cons.prems(1) this] obtain p where
    p: "EncryptPacket raw s = (Some p, snd (estimateIndex (get16 raw 2) s))"
      "DecryptPacket p r = (Inr raw, snd (estimateIndex (get16 raw 2) r))"
      "in_sync (snd (EncryptPacket raw s)) (snd (DecryptPacket p r))" by blast
  from Cons.IH [OF p(3)] Cons.prems(2) obtain ps where
    "fst (encrypt_all raws (snd (EncryptPacket raw s))) = Some ps"
    "fst (decrypt_all ps (snd (DecryptPacket p r))) = map Inr raws" by auto
  with p show ?case by (intro exI [of _ "p # ps"]) (simp add: split_beta Let_def)
qed

text \<open>C1: A receiver with the sender's key and SSRC recovers every packet of every stream exactly, with
  whatever sequence numbers, headers and payload sizes the packets have, and across any number
  of rollovers.\<close>
theorem srtp_roundtrip:
  assumes "NewSRTPSenderSession c ssrc = Inr s" "NewSRTPReceiverSession c ssrc = Inr r"
    and "\<And>raw. raw \<in> set raws \<Longrightarrow> 12 \<le> length raw"
  shows "\<exists>ps. fst (encrypt_all raws s) = Some ps \<and> fst (decrypt_all ps r) = map Inr raws"
proof -
  note new = assms(1) [unfolded NewSRTPSenderSession_def] assms(2) [unfolded NewSRTPReceiverSession_def]
  have "in_sync s r"
    using NewSRTPSession_ok [OF new(1)] NewSRTPSession_ok [OF new(2)] same_keys_new [OF new]
    by (simp add: in_sync_def)
  with assms(3) show ?thesis by (intro srtp_stream)
qed

definition zero_config :: srtp_config where
  "zero_config = \<lparr>MasterKey = replicate 16 0, MasterSalt = replicate 14 0, Profile = ''AES_CM_128_HMAC_SHA1_80''\<rparr>"

theorem srtp_roundtrip_witness:
  "\<exists>s r ps. fst (encrypt_all [replicate 12 1 @ [7, 8], replicate 12 2] s) = Some ps
     \<and> fst (decrypt_all ps r) = [Inr (replicate 12 1 @ [7, 8]), Inr (replicate 12 2)]"
proof -
  have z: "length (MasterKey zero_config) = 16" "length (MasterSalt zero_config) = 14"
    by (simp_all add: zero_config_def)
  from NewSRTPSession_total [OF z, of True 5] NewSRTPSession_total [OF z, of False 5] obtain s r where
    "NewSRTPSenderSession (Some zero_config) 5 = Inr s" "NewSRTPReceiverSession (Some zero_config) 5 = Inr r"
    by (auto simp: NewSRTPSenderSession_def NewSRTPReceiverSession_def)
  note sessions = this
  have "12 \<le> length raw" if "raw \<in> set [replicate 12 1 @ [7, 8], replicate 12 2]" for raw :: bytes
    using that by auto
  from srtp_roundtrip [OF sessions this] obtain ps where
    ps: "fst (encrypt_all [replicate 12 1 @ [7, 8], replicate 12 2] s) = Some ps"
      "fst (decrypt_all ps r) = map Inr [replicate 12 1 @ [7, 8], replicate 12 2]" by blast
  show ?thesis
    by (rule exI [of _ s], rule exI [of _ r], rule exI [of _ ps], rule conjI, rule ps(1))
      (simp only: ps(2) list.map)
qed

section \<open>Indices across rollovers and losses\<close>

text \<open>The reference: packets are numbered without bound and carry the low 16 bits. \<open>at_number e s\<close> says
  that the last packet of session \<open>s\<close> had the number \<open>e\<close>.\<close>

definition at_number :: "nat \<Rightarrow> srtp_session \<Rightarrow> bool" where
  "at_number e s \<longleftrightarrow> srtp_index s = of_nat e \<and> srtp_lastSeq s = of_nat e"

lemma roc_or_seq:
  assumes "e < 2 ^ 64"
  shows "push_bit 16 (of_nat (e div 65536) :: u64) OR ucast (of_nat e :: u16) = of_nat e"
proof -
  let ?hi = "push_bit 16 (of_nat (e div 65536) :: u64)" and ?lo = "ucast (of_nat e :: u16) :: u64"
  have "?hi OR ?lo = ?hi + ?lo"
    by (rule disjunctive_add_eq_or [symmetric], rule bit_eqI) (auto simp: bit_simps)
  moreover have "?lo = of_nat (e mod 65536)"
    by (simp add: unsigned_of_nat take_bit_eq_mod)
  moreover have "?hi = of_nat (65536 * (e div 65536))"
    by (simp add: push_bit_eq_mult mult.commute)
  ultimately have "?hi OR ?lo = of_nat (65536 * (e div 65536) + e mod 65536)" by (simp only: of_nat_add)
  then show ?thesis by (simp only: mult_div_mod_eq)
qed

lemma drop_bit_of_nat_64: "e < 2 ^ 64 \<Longrightarrow> drop_bit 16 (of_nat e :: u64) = of_nat (e div 65536)"
  by (simp add: drop_bit_eq_div word_unat_eq_iff unat_div unat_of_nat less_mult_imp_div_less
      div_le_dividend [THEN le_less_trans])

lemma rollover_test:
  assumes "e \<le> e'" "e' - e < 32768"
  shows "i32 (uint (of_nat e' :: u16) - uint (of_nat e :: u16)) < -0x8000 \<longleftrightarrow> e' div 65536 = Suc (e div 65536)"
    and "e' div 65536 = Suc (e div 65536) \<or> e' div 65536 = e div 65536"
proof -
  have small: "i32 (int (e' mod 65536) - int (e mod 65536)) = int (e' mod 65536) - int (e mod 65536)"
    using mod_less_divisor [of 65536 e] mod_less_divisor [of 65536 e'] by (intro i32_id) linarith+
  have "e = e' \<or> e < e'" using assms(1) by auto
  with next_wrap [of e e'] assms small
  show "i32 (uint (of_nat e' :: u16) - uint (of_nat e :: u16)) < -0x8000 \<longleftrightarrow> e' div 65536 = Suc (e div 65536)"
    and "e' div 65536 = Suc (e div 65536) \<or> e' div 65536 = e div 65536"
    unfolding uint_u16_nat by (auto simp: of_nat_diff)
qed

lemma estimate_at:
  assumes "at_number e s" "e \<le> e'" "e' - e < 32768" "e' < 2 ^ 64"
  shows "fst (estimateIndex (of_nat e') s) = of_nat e'" "at_number e' (snd (estimateIndex (of_nat e') s))"
proof -
  have e: "e < 2 ^ 64" using assms(2,4) by simp
  have "fst (estimateIndex (of_nat e') s) = push_bit 16 (of_nat (e' div 65536)) OR ucast (of_nat e' :: u16)"
    using assms(1) rollover_test [OF assms(2,3)]
    by (auto simp: estimateIndex_def at_number_def drop_bit_of_nat_64 [OF e] Let_def add.commute)
  then show "fst (estimateIndex (of_nat e') s) = of_nat e'" by (simp only: roc_or_seq [OF assms(4)])
  then show "at_number e' (snd (estimateIndex (of_nat e') s))"
    by (simp add: at_number_def estimateIndex_def Let_def)
qed

text \<open>The sender of a stream numbered from 0 protects packet \<open>i\<close> with index \<open>i\<close>.\<close>

definition numbered_from :: "nat \<Rightarrow> bytes list \<Rightarrow> bool" where
  "numbered_from e raws \<longleftrightarrow> (\<forall>i < length raws. 12 \<le> length (raws ! i) \<and> get16 (raws ! i) 2 = of_nat (e + i))"

lemma protect_cong: "same_keys s r \<Longrightarrow> protect raw index s = protect raw index r"
  by (simp add: protect_def same_keys_def Let_def)

lemma encrypt_all_numbered:
  "at_number e0 s \<Longrightarrow> e0 \<le> e \<Longrightarrow> e \<le> Suc e0 \<Longrightarrow> numbered_from e raws \<Longrightarrow> e + length raws \<le> 2 ^ 64 \<Longrightarrow>
   \<exists>ps. fst (encrypt_all raws s) = Some ps \<and> length ps = length raws
     \<and> (\<forall>i < length raws. protect (raws ! i) (of_nat (e + i)) s = Some (ps ! i))"
proof (induction raws arbitrary: e0 e s)
  case Nil
  then show ?case by simp
next
  case (Cons raw raws)
  then have raw: "12 \<le> length raw" "get16 raw 2 = of_nat e"
    by (auto simp: numbered_from_def dest: spec [of _ 0])
  let ?s = "snd (estimateIndex (of_nat e) s)"
  have est: "fst (estimateIndex (of_nat e) s) = of_nat e" "at_number e ?s"
    using estimate_at [OF Cons.prems(1,2)] Cons.prems(3,5) by auto
  have keys: "same_keys ?s s" by (simp add: same_keys_def)
  have enc: "EncryptPacket raw s = (protect raw (of_nat e) s, ?s)"
    using raw est(1) protect_cong [OF keys] by (simp add: EncryptPacket_def nextIndex_def split_beta Let_def)
  have num: "numbered_from (Suc e) raws"
    using Cons.prems(4) by (fastforce simp: numbered_from_def)
  have "Suc e + length raws \<le> 2 ^ 64" using Cons.prems(5) by simp
  from Cons.IH [OF est(2) le_SucI [OF order.refl] order.refl num this] obtain ps where
    ps: "fst (encrypt_all raws ?s) = Some ps" "length ps = length raws"
      "\<forall>i < length raws. protect (raws ! i) (of_nat (Suc e + i)) s = Some (ps ! i)"
    unfolding protect_cong [OF keys] by blast
  obtain p where "protect raw (of_nat e) s = Some p" using raw(1) by (simp add: protect_def Let_def)
  with ps enc show ?case
    by (intro exI [of _ "p # ps"]) (auto simp: split_beta Let_def nth_Cons ac_simps split: nat.split)
qed

fun gaps_ok :: "nat \<Rightarrow> nat list \<Rightarrow> bool" where
  "gaps_ok e [] = True"
| "gaps_ok e (e' # es) = (e \<le> e' \<and> e' - e < 32768 \<and> gaps_ok e' es)"

lemma decrypt_all_gaps:
  assumes "srtp_ok s"
    and "\<And>i. i < length raws \<Longrightarrow> protect (raws ! i) (of_nat i) s = Some (ps ! i)"
    and "numbered_from 0 raws" "length raws \<le> 2 ^ 64"
  shows "at_number e r \<Longrightarrow> same_keys s r \<Longrightarrow> gaps_ok e es \<Longrightarrow> (\<And>e. e \<in> set es \<Longrightarrow> e < length raws) \<Longrightarrow>
    fst (decrypt_all (map ((!) ps) es) r) = map (\<lambda>e. Inr (raws ! e)) es"
proof (induction es arbitrary: e r)
  case Nil
  then show ?case by simp
next
  case (Cons e' es)
  have "e' < length raws" using Cons.prems(4) by simp
  then have e': "e' < length raws" "e \<le> e'" "e' - e < 32768" "e' < 2 ^ 64" using Cons.prems(3) assms(4) by simp_all
  have raw: "12 \<le> length (raws ! e')" "get16 (raws ! e') 2 = of_nat e'"
    using assms(3) e'(1) by (simp_all add: numbered_from_def)
  note est = estimate_at [OF Cons.prems(1) e'(2,3,4)]
  have dec: "fst (DecryptPacket (ps ! e') r) = Inr (raws ! e')"
    using decrypt_protected [OF assms(1) Cons.prems(2) raw(1) assms(2) [OF e'(1)]] est(1) raw(2) by simp
  have "snd (DecryptPacket (ps ! e') r) = snd (estimateIndex (of_nat e') r)"
    using protect_shape [OF assms(1) raw(1) assms(2) [OF e'(1)]] raw by (simp add: DecryptPacket_state)
  moreover have "same_keys s (snd (estimateIndex (of_nat e') r))"
    using Cons.prems(2) by (simp add: same_keys_def)
  ultimately show ?case
    using Cons.IH [of e' "snd (DecryptPacket (ps ! e') r)"] est(2) dec Cons.prems(3,4)
    by (simp add: split_beta Let_def)
qed

text \<open>C7: Losses do not disturb the receiver: of a stream numbered from 0 it recovers every packet that
  arrives, in order and with fewer than 32768 numbers between two arrivals, across rollovers of
  the 16-bit sequence number.\<close>
theorem srtp_survives_loss:
  assumes "NewSRTPSenderSession c ssrc = Inr s" "NewSRTPReceiverSession c ssrc = Inr r"
    and "numbered_from 0 raws" "length raws \<le> 2 ^ 48"
    and "gaps_ok 0 es" "\<And>e. e \<in> set es \<Longrightarrow> e < length raws"
  shows "\<exists>ps. fst (encrypt_all raws s) = Some ps
    \<and> fst (decrypt_all (map ((!) ps) es) r) = map (\<lambda>e. Inr (raws ! e)) es"
proof -
  note new = assms(1) [unfolded NewSRTPSenderSession_def] assms(2) [unfolded NewSRTPReceiverSession_def]
  note s = NewSRTPSession_ok [OF new(1)] and r = NewSRTPSession_ok [OF new(2)]
  have at: "at_number 0 s" "at_number 0 r" using s r by (simp_all add: at_number_def)
  obtain ps where ps: "fst (encrypt_all raws s) = Some ps"
      "\<forall>i < length raws. protect (raws ! i) (of_nat i) s = Some (ps ! i)"
    using encrypt_all_numbered [OF at(1), of 0 raws] assms(3,4) by auto
  then have "fst (decrypt_all (map ((!) ps) es) r) = map (\<lambda>e. Inr (raws ! e)) es"
    using decrypt_all_gaps [OF s(1) _ assms(3) _ at(2) same_keys_new [OF new] assms(5,6)] assms(4) by auto
  with ps(1) show ?thesis by blast
qed

text \<open>A minimal RTP packet with a given sequence number.\<close>

definition bare_packet :: "nat \<Rightarrow> bytes \<Rightarrow> bytes" where
  "bare_packet i payload = [0x80, 0] @ be16 (of_nat i) @ replicate 8 0 @ payload"

lemma bare_packet_facts: "12 \<le> length (bare_packet i p)" "get16 (bare_packet i p) 2 = of_nat i"
  using get16_at [of "[0x80, 0]" 2 "of_nat i" "replicate 8 0 @ p"] by (simp_all add: bare_packet_def)

lemma numbered_bare: "numbered_from 0 (map (\<lambda>i. bare_packet i (f i)) [0..<n])"
  by (simp add: numbered_from_def bare_packet_facts)

theorem srtp_survives_loss_witness:
  "\<exists>s r ps. fst (encrypt_all [bare_packet 0 [1], bare_packet 1 [2], bare_packet 2 [3]] s) = Some ps
     \<and> fst (decrypt_all [ps ! 0, ps ! 2] r) = [Inr (bare_packet 0 [1]), Inr (bare_packet 2 [3])]"
proof -
  let ?raws = "map (\<lambda>i. bare_packet i [of_nat (i + 1)]) [0..<3]"
  have raws: "?raws = [bare_packet 0 [1], bare_packet 1 [2], bare_packet 2 [3]]"
    by (simp add: upt_rec numeral_3_eq_3 bare_packet_def)
  have z: "length (MasterKey zero_config) = 16" "length (MasterSalt zero_config) = 14"
    by (simp_all add: zero_config_def)
  from NewSRTPSession_total [OF z, of True 5] NewSRTPSession_total [OF z, of False 5] obtain s r where
    new: "NewSRTPSenderSession (Some zero_config) 5 = Inr s" "NewSRTPReceiverSession (Some zero_config) 5 = Inr r"
    by (auto simp: NewSRTPSenderSession_def NewSRTPReceiverSession_def)
  have "length ?raws \<le> 2 ^ 48" "gaps_ok 0 [0, 2]" "\<And>e. e \<in> set [0, 2] \<Longrightarrow> e < length ?raws" by auto
  from srtp_survives_loss [OF new numbered_bare this] obtain ps where
    ps: "fst (encrypt_all ?raws s) = Some ps"
      "fst (decrypt_all (map ((!) ps) [0, 2]) r) = map (\<lambda>e. Inr (?raws ! e)) [0, 2]" by blast
  have "map (\<lambda>e. Inr (?raws ! e)) [0, 2] = [Inr (bare_packet 0 [1]), Inr (bare_packet 2 [3])]"
    unfolding raws by simp
  with ps show ?thesis unfolding raws
    by (intro exI [of _ s] exI [of _ r] exI [of _ ps] conjI) (simp_all only: list.map)
qed

section \<open>Keystream\<close>

lemma xor_bytes_inj:
  "length a = length b \<Longrightarrow> length b \<le> length s \<Longrightarrow> xor_bytes s a = xor_bytes s b \<Longrightarrow> a = b"
proof (induction a b arbitrary: s rule: list_induct2)
  case Nil
  then show ?case by simp
next
  case (Cons x xs y ys)
  then obtain z zs where s: "s = z # zs" by (cases s) auto
  have "z XOR (z XOR x) = z XOR (z XOR y)" using Cons.prems(2) by (simp add: s xor_bytes_def)
  then have "x = y" by (simp add: xor.assoc [symmetric])
  with Cons s show ?case by (simp add: xor_bytes_def)
qed

lemma bit_of_ucast_drop:
  assumes "(ucast (drop_bit k v) :: byte) = ucast (drop_bit k w)" "k \<le> n" "n < k + 8"
  shows "bit (v :: u64) n = bit w n"
proof -
  have "bit (ucast (drop_bit k v) :: byte) (n - k) = bit (ucast (drop_bit k w) :: byte) (n - k)"
    by (simp only: assms(1))
  moreover have "n - k < 8" using assms(2,3) by linarith
  ultimately show ?thesis using assms(2) by (simp add: bit_simps)
qed

lemma be48_inj:
  assumes "be48 v = be48 w"
  shows "take_bit 48 v = take_bit 48 w"
proof (rule bit_word_eqI)
  fix n
  assume "n < LENGTH(64)"
  from assms have b: "(ucast (drop_bit 40 v) :: byte) = ucast (drop_bit 40 w)"
    "(ucast (drop_bit 32 v) :: byte) = ucast (drop_bit 32 w)" "(ucast (drop_bit 24 v) :: byte) = ucast (drop_bit 24 w)"
    "(ucast (drop_bit 16 v) :: byte) = ucast (drop_bit 16 w)" "(ucast (drop_bit 8 v) :: byte) = ucast (drop_bit 8 w)"
    "(ucast (drop_bit 0 v) :: byte) = ucast (drop_bit 0 w)"
    by (simp_all add: be48_def)
  have "n < 48 \<Longrightarrow> bit v n = bit w n"
    using b [THEN bit_of_ucast_drop, of n] by linarith
  then show "bit (take_bit 48 v) n = bit (take_bit 48 w) n" by (auto simp: bit_simps)
qed

lemma iv_prefix_inj:
  assumes "length salt = 14" "iv_prefix salt ssrc (of_nat i) = iv_prefix salt ssrc (of_nat j)" "i < 2 ^ 48" "j < 2 ^ 48"
  shows "i = j"
proof -
  have "be48 (of_nat i) = be48 (of_nat j)"
    using assms(1,2) unfolding iv_prefix_def by (auto dest!: xor_bytes_inj [rotated 2] simp: be48_def)
  then have "take_bit 48 (of_nat i :: u64) = take_bit 48 (of_nat j :: u64)" by (rule be48_inj)
  then have "(of_nat i :: u64) = of_nat j"
    using assms(3,4) by (simp add: take_bit_of_nat take_bit_nat_eq_self)
  then show ?thesis using assms(3,4) by (simp add: word_unat_eq_iff unat_of_nat)
qed

text \<open>The blocks that AES encrypts for one packet.\<close>

definition counter_blocks :: "srtp_session \<Rightarrow> u64 \<Rightarrow> bytes \<Rightarrow> bytes list" where
  "counter_blocks s index raw = map (ctr_block (iv_prefix (MasterSalt (srtp_cfg s)) (srtp_ssrc s) index))
     [0..<blocks_for (drop 12 raw)]"

lemma protect_counter_blocks:
  assumes "srtp_ok s" "length (drop 12 raw) \<le> 2 ^ 20" "protect raw index s = Some p"
  shows "drop 12 (take (length p - 10) p)
    = xor_bytes (drop 12 raw) (concat (map (aes_encrypt (encKey s)) (counter_blocks s index raw)))"
proof -
  have raw: "12 \<le> length raw" using assms(3) by (simp add: protect_def split: if_splits)
  have iv: "deriveIV (MasterSalt (srtp_cfg s)) (srtp_ssrc s) index
      = ctr_block (iv_prefix (MasterSalt (srtp_cfg s)) (srtp_ssrc s) index) 0"
    using assms(1) by (simp add: srtp_ok_def deriveIV_block)
  have "0 + blocks_for (drop 12 raw) \<le> 65536" using assms(2) by (simp add: blocks_for_def)
  from keystream_blocks [OF this] show ?thesis
    using protect_shape(3) [OF assms(1) raw assms(3)] raw
    by (simp add: iv XORKeyStream_def counter_blocks_def comp_def)
qed

lemma ctr_block_inj: "ctr_block p j = ctr_block q k \<Longrightarrow> length p = length q \<Longrightarrow> j < 65536 \<Longrightarrow> k < 65536 \<Longrightarrow> p = q \<and> j = k"
proof -
  assume a: "ctr_block p j = ctr_block q k" "length p = length q" "j < 65536" "k < 65536"
  then have "p = q" and be: "be16 (of_nat j) = be16 (of_nat k)" by (simp_all add: ctr_block_def)
  have "get16 (be16 (of_nat j)) 0 = get16 (be16 (of_nat k)) 0" by (simp only: be)
  then have "(of_nat j :: u16) = of_nat k" using get16_be16 [of "[]" _ "[]"] by simp
  with a have "j = k" by (simp add: word_unat_eq_iff unat_of_nat)
  with \<open>p = q\<close> show ?thesis by simp
qed

lemma distinct_counter_blocks:
  assumes "srtp_ok s" "\<And>i. i < n \<Longrightarrow> length (drop 12 (raws ! i)) \<le> 2 ^ 20" "n \<le> 2 ^ 48"
  shows "distinct (concat (map (\<lambda>i. counter_blocks s (of_nat i) (raws ! i)) [0..<n]))"
  using assms(2,3)
proof (induction n)
  case 0
  then show ?case by simp
next
  case (Suc n)
  let ?pre = "\<lambda>i. iv_prefix (MasterSalt (srtp_cfg s)) (srtp_ssrc s) (of_nat i)"
  have salt: "length (MasterSalt (srtp_cfg s)) = 14" using assms(1) by (simp add: srtp_ok_def)
  have small: "blocks_for (drop 12 (raws ! i)) \<le> 65536" if "i < Suc n" for i
    using Suc.prems(1) [OF that] by (simp add: blocks_for_def)
  have inj: "i = k \<and> j = l" if "ctr_block (?pre i) j = ctr_block (?pre k) l" "i < Suc n" "k < Suc n"
      "j < 65536" "l < 65536" for i j k l
  proof -
    have "?pre i = ?pre k" "j = l"
      using ctr_block_inj [OF that(1) _ that(4,5)] by (simp_all add: length_iv_prefix [OF salt])
    moreover have "i < 2 ^ 48" "k < 2 ^ 48" using that(2,3) Suc.prems(2) by linarith+
    ultimately show ?thesis using iv_prefix_inj [OF salt, of "srtp_ssrc s" i k] by blast
  qed
  have "distinct (counter_blocks s (of_nat n) (raws ! n))"
    using inj [of n _ n] small [of n] unfolding counter_blocks_def distinct_map inj_on_def by fastforce
  moreover have "set (counter_blocks s (of_nat n) (raws ! n)) \<inter> set (counter_blocks s (of_nat i) (raws ! i)) = {}"
    if "i < n" for i
    using inj [of n _ i] small [of n] small [of i] that unfolding counter_blocks_def by fastforce
  then have "set (counter_blocks s (of_nat n) (raws ! n))
      \<inter> set (concat (map (\<lambda>i. counter_blocks s (of_nat i) (raws ! i)) [0..<n])) = {}"
    by fastforce
  moreover have "distinct (concat (map (\<lambda>i. counter_blocks s (of_nat i) (raws ! i)) [0..<n]))"
    using Suc by simp
  ultimately show ?case by (simp add: Int_commute)
qed

text \<open>C8: The sender of a stream numbered from 0 never encrypts the same counter block twice, within a
  packet or in different packets, for up to \<open>2 ^ 48\<close> packets of up to a megabyte; the blocks are all
  that its ciphertexts depend on beside key and payload.\<close>
theorem srtp_no_keystream_reuse:
  assumes "NewSRTPSenderSession c ssrc = Inr s" "numbered_from 0 raws" "length raws \<le> 2 ^ 48"
    and "\<And>i. i < length raws \<Longrightarrow> length (drop 12 (raws ! i)) \<le> 2 ^ 20"
  shows "\<exists>ps. fst (encrypt_all raws s) = Some ps
    \<and> (\<forall>i < length raws. drop 12 (take (length (ps ! i) - 10) (ps ! i))
          = xor_bytes (drop 12 (raws ! i))
              (concat (map (aes_encrypt (encKey s)) (counter_blocks s (of_nat i) (raws ! i)))))
    \<and> distinct (concat (map (\<lambda>i. counter_blocks s (of_nat i) (raws ! i)) [0..<length raws]))"
proof -
  note s = NewSRTPSession_ok [OF assms(1) [unfolded NewSRTPSenderSession_def]]
  have at: "at_number 0 s" using s by (simp add: at_number_def)
  obtain ps where ps: "fst (encrypt_all raws s) = Some ps"
      "\<forall>i < length raws. protect (raws ! i) (of_nat i) s = Some (ps ! i)"
    using encrypt_all_numbered [OF at, of 0 raws] assms(2,3) by auto
  show ?thesis
    using ps protect_counter_blocks [OF s(1) assms(4)] distinct_counter_blocks [OF s(1) assms(4,3)] by blast
qed

theorem srtp_no_keystream_reuse_witness:
  "\<exists>s. distinct (concat (map (\<lambda>i. counter_blocks s (of_nat i) ([bare_packet 0 [1], bare_packet 1 [2]] ! i)) [0..<2]))
     \<and> srtp_cfg s = zero_config"
proof -
  let ?raws = "map (\<lambda>i. bare_packet i [of_nat (i + 1)]) [0..<2]"
  have raws: "?raws = [bare_packet 0 [1], bare_packet 1 [2]]"
    by (simp add: upt_rec numeral_2_eq_2 bare_packet_def)
  have z: "length (MasterKey zero_config) = 16" "length (MasterSalt zero_config) = 14"
    by (simp_all add: zero_config_def)
  from NewSRTPSession_total [OF z, of True 5] obtain s where
    new: "NewSRTPSenderSession (Some zero_config) 5 = Inr s" by (auto simp: NewSRTPSenderSession_def)
  then have "srtp_cfg s = zero_config" using NewSRTPSession_ok(5) by (force simp: NewSRTPSenderSession_def)
  have len: "length ?raws \<le> 2 ^ 48" by simp
  have pay: "\<And>i. i < length ?raws \<Longrightarrow> length (drop 12 (?raws ! i)) \<le> 2 ^ 20"
    by (simp add: bare_packet_def)
  have "distinct (concat (map (\<lambda>i. counter_blocks s (of_nat i) (?raws ! i)) [0..<length ?raws]))"
    using srtp_no_keystream_reuse [OF new, of ?raws, OF numbered_bare len] pay by blast
  moreover have "length ?raws = 2" by simp
  ultimately have "distinct (concat (map (\<lambda>i. counter_blocks s (of_nat i) ([bare_packet 0 [1], bare_packet 1 [2]] ! i)) [0..<2]))"
    unfolding raws by (simp only: list.size One_nat_def)
  with \<open>srtp_cfg s = zero_config\<close> show ?thesis by blast
qed

section \<open>What is not protected\<close>

text \<open>A packet that was accepted is accepted again, with the same plaintext, right after itself: the
  receiver keeps no replay list; and the authentication tag does not cover the rollover counter,
  so any later session state with the keys accepts its tag as well.\<close>
theorem srtp_replay_accepted:
  assumes "DecryptPacket p r = (Inr raw, r')"
  shows "fst (DecryptPacket p r') = Inr raw
    \<and> (same_keys r r2 \<longrightarrow> (\<exists>raw2. fst (DecryptPacket p r2) = Inr raw2))"
proof -
  let ?q = "get16 p 2"
  have len: "22 \<le> length p" and tag: "take 10 (hmac_sha1 (authorKey r) (take (length p - 10) p)) = drop (length p - 10) p"
    using assms by (auto simp: DecryptPacket_def split_beta Let_def split: if_splits)
  have r': "r' = snd (estimateIndex ?q r)" using DecryptPacket_state [OF len, of r] assms by simp
  then have again: "fst (estimateIndex ?q r') = fst (estimateIndex ?q r)"
    by (simp add: estimateIndex_def Let_def) (auto simp: i32_def bit_eq_iff bit_simps)
  show ?thesis
    using assms len tag again
    by (auto simp: DecryptPacket_def split_beta Let_def r' same_keys_def)
qed

theorem srtp_replay_accepted_witness:
  "\<exists>p r. fst (DecryptPacket p r) = Inr (bare_packet 0 [1])
     \<and> fst (DecryptPacket p (snd (DecryptPacket p r))) = Inr (bare_packet 0 [1])"
proof -
  have z: "length (MasterKey zero_config) = 16" "length (MasterSalt zero_config) = 14"
    by (simp_all add: zero_config_def)
  from NewSRTPSession_total [OF z, of False 5] obtain r where
    "NewSRTPSession False (Some zero_config) 5 = Inr r" by auto
  note r = NewSRTPSession_ok [OF this]
  obtain p where p: "protect (bare_packet 0 [1]) 0 r = Some p"
    using bare_packet_facts(1) [of 0 "[1]"] by (simp add: protect_def Let_def)
  have "fst (estimateIndex (get16 (bare_packet 0 [1]) 2) r) = 0"
    using r(2,3) by (simp add: bare_packet_facts estimateIndex_def Let_def i32_id)
  from decrypt_protected [OF r(1) _ bare_packet_facts(1) p this]
  have "DecryptPacket p r = (Inr (bare_packet 0 [1]), snd (DecryptPacket p r))"
    by (simp add: same_keys_def prod_eq_iff)
  from srtp_replay_accepted [OF this] \<open>DecryptPacket p r = _\<close> show ?thesis by (metis fst_conv)
qed

text \<open>C20: The receiver moves its rollover counter before it checks the tag: one forged packet that it
  refuses, with sequence number 0 in the second half of a cycle, makes it decrypt the next genuine
  packet with the keystream of the following cycle, and deliver the garbage as authentic.\<close>
theorem srtp_forged_packet_desyncs:
  assumes "at_number e r" "srtp_ok s" "same_keys s r"
    and "e mod 65536 > 32768" "(e + 1) mod 65536 \<noteq> 0" "e + 131072 < 2 ^ 64"
    and "22 \<le> length f" "get16 f 2 = 0" "fst (DecryptPacket f r) = Inl AuthTagMismatch"
    and "12 \<le> length raw" "get16 raw 2 = of_nat (e + 1)" "protect raw (of_nat (e + 1)) s = Some p"
    and "iv \<equiv> deriveIV (MasterSalt (srtp_cfg r)) (srtp_ssrc r)" "E \<equiv> aes_encrypt (encKey r)"
  shows "fst (DecryptPacket p r) = Inr raw
    \<and> fst (DecryptPacket p (snd (DecryptPacket f r)))
        = Inr (take 12 raw @ XORKeyStream E (iv (of_nat (e + 1 + 65536))) (XORKeyStream E (iv (of_nat (e + 1))) (drop 12 raw)))"
proof -
  define e2 where "e2 = (e div 65536 + 1) * 65536"
  let ?r = "snd (DecryptPacket f r)"
  have e: "e = e div 65536 * 65536 + e mod 65536" by simp
  have "e mod 65536 < 65536" by simp
  then have e2: "e \<le> e2" "e2 - e < 32768" "e2 < 2 ^ 64"
    using assms(4,6) e unfolding e2_def distrib_right by linarith+
  have e2_0: "(of_nat e2 :: u16) = 0" by (simp only: word_of_nat_eq_0_iff e2_def) simp
  have r: "?r = snd (estimateIndex (of_nat e2) r)"
    using DecryptPacket_state [OF assms(7), of r] assms(8) e2_0 by simp
  have at: "at_number e2 ?r" unfolding r by (rule estimate_at [OF assms(1) e2(1-3)])
  have keys: "same_keys s ?r" "encKey ?r = encKey r" "srtp_cfg ?r = srtp_cfg r" "srtp_ssrc ?r = srtp_ssrc r"
    using assms(3) by (simp_all add: r same_keys_def)
  have "fst (estimateIndex (of_nat (e + 1)) r) = of_nat (e + 1)"
    using assms(6) by (intro estimate_at [OF assms(1)]) simp_all
  moreover have "fst (estimateIndex (of_nat (e + 1)) ?r) = of_nat (e + 1 + 65536)"
  proof -
    have "(e + 1) div 65536 = e div 65536" using assms(5) by (simp add: div_Suc)
    then have "e2 div 65536 = (e + 1 + 65536) div 65536" by (simp add: e2_def)
    moreover have "fst (estimateIndex q ?r) = push_bit 16 (of_nat (e2 div 65536)) OR ucast q" for q
    proof -
      have "\<not> i32 (uint q) < - 32768" using uint_lt2p [of q] uint_nonnegative [of q]
        by (subst i32_id) (linarith | simp)+
      then show ?thesis
        using at e2_0 by (simp add: estimateIndex_def at_number_def drop_bit_of_nat_64 [OF e2(3)] Let_def)
    qed
    moreover have "(of_nat (e + 1) :: u16) = of_nat (e + 1 + 65536)"
      using mod_add_self2 [of "e + 1" "65536 :: nat"]
      by (simp only: word_of_nat_eq_iff take_bit_eq_mod) simp
    moreover have "e + 1 + 65536 < 2 ^ 64" using assms(6) by simp
    ultimately show ?thesis by (simp only: roc_or_seq)
  qed
  ultimately show ?thesis
    using decrypt_protected [OF assms(2,3,10,12)] decrypt_any [OF assms(2) keys(1) assms(10,12)] assms(11)
    by (simp add: assms(13,14) keys)
qed

theorem srtp_forged_packet_desyncs_witness:
  "\<exists>f p r. fst (DecryptPacket f r) = Inl AuthTagMismatch
     \<and> fst (DecryptPacket p r) = Inr (bare_packet 40001 [9])
     \<and> fst (DecryptPacket p (snd (DecryptPacket f r))) = Inr (take 12 (bare_packet 40001 [9])
          @ XORKeyStream (aes_encrypt (encKey r)) (deriveIV (replicate 14 0) 5 105537)
              (XORKeyStream (aes_encrypt (encKey r)) (deriveIV (replicate 14 0) 5 40001) [9]))"
proof -
  have z: "length (MasterKey zero_config) = 16" "length (MasterSalt zero_config) = 14"
    by (simp_all add: zero_config_def)
  from NewSRTPSession_total [OF z, of False 5] obtain r0 where
    "NewSRTPSession False (Some zero_config) 5 = Inr r0" by auto
  note r0 = NewSRTPSession_ok [OF this]
  define r where "r = r0\<lparr>srtp_index := 40000, srtp_lastSeq := 40000\<rparr>"
  have r: "at_number 40000 r" "srtp_ok r" "same_keys r r" "srtp_cfg r = zero_config" "srtp_ssrc r = 5"
    using r0 by (simp_all add: r_def at_number_def srtp_ok_def same_keys_def)
  define t where "t = take 10 (hmac_sha1 (authorKey r) (replicate 12 0))"
  define f :: bytes where "f = replicate 12 0 @ replicate 10 (if t = replicate 10 0 then 1 else 0)"
  have f: "22 \<le> length f" "get16 f 2 = 0" by (simp_all add: f_def get16_def nth_append)
  have bad: "fst (DecryptPacket f r) = Inl AuthTagMismatch"
    by (simp add: DecryptPacket_def f_def t_def split_beta Let_def)
  obtain p where p: "protect (bare_packet (40000 + 1) [9]) (of_nat (40000 + 1)) r = Some p"
    using bare_packet_facts(1) [of "40000 + 1" "[9]"] by (simp add: protect_def Let_def)
  have "drop 12 (bare_packet 40001 [9]) = [9]" by (simp add: bare_packet_def be16_def)
  moreover have "MasterSalt zero_config = replicate 14 0" by (simp add: zero_config_def)
  ultimately show ?thesis
    using srtp_forged_packet_desyncs [OF r(1,2,3) _ _ _ f bad bare_packet_facts p, OF _ _ _ reflexive reflexive]
    by (intro exI [of _ f] exI [of _ p] exI [of _ r]) (simp add: bad r(4,5))
qed

end
