(* ===== verification/Srtp_Sender.thy ===== *)
theory Srtp_Sender
  imports Srtp Sender
begin

text \<open>
  The encrypting audio sender (\<open>StreamSRTPPlayer\<close> of \<open>core/rtp/srtp.go\<close>), the plain sender with
  \<open>EncryptPacket\<close> between marshalling and the socket. The theory shows that a receiver with the
  key gets exactly the frames of the stream out of the datagrams.
\<close>

record srtp_stream = stream +
  st_srtp :: srtp_session

definition StreamSRTP :: "rtp_session \<Rightarrow> srtp_session \<Rightarrow> bytes list \<Rightarrow> byte \<Rightarrow> u32 \<Rightarrow> bool \<Rightarrow> srtp_stream" where
  "StreamSRTP sess srtp payloads pt tsIncrement onDone =
     \<lparr>st_sess = sess, st_payloads = payloads, st_pt = pt, st_stats = send_stats0, st_stop = False, st_idx = 0,
      st_onDone = onDone, st_tsIncrement = tsIncrement, st_done_calls = 0, st_wire = [], st_srtp = srtp\<rparr>"

text \<open>\<open>None\<close> is the panic of \<open>EncryptPacket\<close> on a packet without a full header.\<close>

definition StreamSRTPPlayer_Tick ::
    "(rtp_packet \<Rightarrow> bytes option) \<Rightarrow> (bytes \<Rightarrow> bool) \<Rightarrow> srtp_stream \<Rightarrow> (bool \<times> srtp_stream) option" where
  "StreamSRTPPlayer_Tick marshal net p =
     (if st_stop p then Some (False, finish p)
      else if st_idx p \<ge> length (st_payloads p) then Some (False, finish p)
      else
        let payload = st_payloads p ! st_idx p;
            p = p\<lparr>st_idx := st_idx p + 1\<rparr>;
            ((seq, ts), sess) = NextSeqTS (st_tsIncrement p) (st_sess p);
            p = p\<lparr>st_sess := sess\<rparr>;
            pkt = audio_packet (st_pt p) seq ts (SSRC sess) payload
        in case marshal pkt of
             None \<Rightarrow> Some (True, p)
           | Some raw \<Rightarrow>
               (case EncryptPacket raw (st_srtp p) of
                  (None, _) \<Rightarrow> None
                | (Some enc, srtp) \<Rightarrow>
                    let p = p\<lparr>st_srtp := srtp\<rparr> in
                    if net enc
                    then Some (True, p\<lparr>st_wire := st_wire p @ [enc], st_stats := count_sent payload enc (st_stats p)\<rparr>)
                    else Some (True, p)))"

fun srtp_ticks :: "(rtp_packet \<Rightarrow> bytes option) \<Rightarrow> nat \<Rightarrow> srtp_stream \<Rightarrow> srtp_stream option" where
  "srtp_ticks marshal 0 p = Some p"
| "srtp_ticks marshal (Suc n) p =
     Option.bind (srtp_ticks marshal n p) (\<lambda>p. map_option snd (StreamSRTPPlayer_Tick marshal (\<lambda>_. True) p))"

lemma encrypt_all_snoc:
  assumes "encrypt_all raws s = (Some ps, s1)" "EncryptPacket raw s1 = (Some p, s2)"
  shows "encrypt_all (raws @ [raw]) s = (Some (ps @ [p]), s2)"
  using assms(1)
proof (induction raws arbitrary: s ps)
  case Nil
  with assms(2) show ?case by simp
next
  case (Cons r raws)
  then obtain q s' qs where "EncryptPacket r s = (Some q, s')" "encrypt_all raws s' = (Some qs, s1)" "ps = q # qs"
    by (auto simp: split_beta Let_def prod_eq_iff split: option.splits)
  with Cons.IH show ?case by simp
qed

text \<open>What \<open>k\<close> ticks have done to a fresh stream: the datagrams are the encryption of packets that
  unmarshal to its first \<open>k\<close> frames.\<close>

definition srtp_played ::
    "(bytes \<Rightarrow> rtp_packet option) \<Rightarrow> rtp_session \<Rightarrow> srtp_session \<Rightarrow> bytes list \<Rightarrow> byte \<Rightarrow> u32 \<Rightarrow> nat \<Rightarrow> srtp_stream \<Rightarrow> bool" where
  "srtp_played unmarshal s0 k0 payloads pt inc k p \<longleftrightarrow> st_idx p = k \<and> \<not> st_stop p
     \<and> st_payloads p = payloads \<and> st_pt p = pt \<and> st_tsIncrement p = inc
     \<and> st_sess p = s0\<lparr>sess_seq := sess_seq s0 + of_nat k, sess_ts := sess_ts s0 + of_nat k * inc\<rparr>
     \<and> (\<exists>raws. encrypt_all raws k0 = (Some (st_wire p), st_srtp p) \<and> (\<forall>raw \<in> set raws. 12 \<le> length raw)
         \<and> map (\<lambda>raw. get16 raw 2) raws = map (\<lambda>i. sess_seq s0 + of_nat i) [0..<k]
         \<and> map length raws = map (\<lambda>i. 12 + length (payloads ! i)) [0..<k]
         \<and> map unmarshal raws = map (\<lambda>i. Some (audio_packet pt (sess_seq s0 + of_nat i)
              (sess_ts s0 + of_nat i * inc) (SSRC s0) (payloads ! i))) [0..<k])"

lemma EncryptPacket_some:
  assumes "12 \<le> length raw"
  obtains enc s' where "EncryptPacket raw s = (Some enc, s')"
  using assms by (simp add: EncryptPacket_def protect_def nextIndex_def split_beta Let_def)

context rtp_wire
begin

lemma srtp_played_tick:
  assumes pt: "unat pt < 128" and p: "srtp_played unmarshal s0 k0 payloads pt inc k p" "k < length payloads"
  shows "\<exists>p'. StreamSRTPPlayer_Tick marshal (\<lambda>_. True) p = Some (True, p')
    \<and> srtp_played unmarshal s0 k0 payloads pt inc (Suc k) p'"
proof -
  let ?pkt = "audio_packet pt (sess_seq s0 + of_nat k) (sess_ts s0 + of_nat k * inc) (SSRC s0) (payloads ! k)"
  have "plain_packet ?pkt" using pt by (simp add: plain_packet_def audio_packet_def)
  then obtain raw where raw: "marshal ?pkt = Some raw" "length raw = 12 + length (Payload ?pkt)"
      "get16 raw 2 = SequenceNumber ?pkt" "unmarshal raw = Some ?pkt"
    by (rule marshal_obtain)
  then have len: "12 \<le> length raw" by simp
  then obtain enc k' where enc: "EncryptPacket raw (st_srtp p) = (Some enc, k')" by (rule EncryptPacket_some)
  let ?p = "p\<lparr>st_idx := Suc k, st_sess := snd (NextSeqTS (st_tsIncrement p) (st_sess p)), st_srtp := k',
    st_wire := st_wire p @ [enc], st_stats := count_sent (st_payloads p ! k) enc (st_stats p)\<rparr>"
  have "StreamSRTPPlayer_Tick marshal (\<lambda>_. True) p = Some (True, ?p)"
    using p raw(1) enc
    by (simp add: StreamSRTPPlayer_Tick_def srtp_played_def NextSeqTS_def Let_def split_beta)
  moreover have "srtp_played unmarshal s0 k0 payloads pt inc (Suc k) ?p"
  proof -
    from p(1) obtain raws where raws: "encrypt_all raws k0 = (Some (st_wire p), st_srtp p)"
      "\<forall>raw \<in> set raws. 12 \<le> length raw"
      "map (\<lambda>raw. get16 raw 2) raws = map (\<lambda>i. sess_seq s0 + of_nat i) [0..<k]"
      "map length raws = map (\<lambda>i. 12 + length (payloads ! i)) [0..<k]"
      "map unmarshal raws = map (\<lambda>i. Some (audio_packet pt (sess_seq s0 + of_nat i)
              (sess_ts s0 + of_nat i * inc) (SSRC s0) (payloads ! i))) [0..<k]"
      by (auto simp: srtp_played_def)
    have "encrypt_all (raws @ [raw]) k0 = (Some (st_wire p @ [enc]), k')"
      by (rule encrypt_all_snoc [OF raws(1) enc])
    with p(1) raws(2-5) raw(2-4) len show ?thesis
      unfolding srtp_played_def
      by (intro conjI exI [of _ "raws @ [raw]"]) (simp_all add: NextSeqTS_def audio_packet_def algebra_simps)
  qed
  ultimately show ?thesis by blast
qed

lemma srtp_played_ticks:
  assumes "unat pt < 128" "srtp_played unmarshal s0 k0 payloads pt inc 0 p"
  shows "n \<le> length payloads \<Longrightarrow>
    \<exists>p'. srtp_ticks marshal n p = Some p' \<and> srtp_played unmarshal s0 k0 payloads pt inc n p'"
proof (induction n)
  case 0
  with assms(2) show ?case by simp
next
  case (Suc n)
  then obtain p' where "srtp_ticks marshal n p = Some p'" "srtp_played unmarshal s0 k0 payloads pt inc n p'"
    using Suc_leD by blast
  with srtp_played_tick [OF assms(1) this(2)] Suc.prems show ?case by auto
qed

end

text \<open>End to end, an encrypted stream never panics, and a receiver with the sender's key gets out of
  its datagrams exactly its frames, in order, numbered consecutively.\<close>
theorem secure_audio_path:
  assumes "rtp_wire marshal unmarshal" "unat pt < 128"
    and "NewSRTPSenderSession c ssrc = Inr s" "NewSRTPReceiverSession c ssrc = Inr r"
  shows "\<exists>p raws. srtp_ticks marshal (length payloads) (StreamSRTP sess s payloads pt inc done) = Some p
    \<and> fst (decrypt_all (st_wire p) r) = map Inr raws
    \<and> map unmarshal raws = map (\<lambda>i. Some (audio_packet pt (sess_seq sess + of_nat i)
          (sess_ts sess + of_nat i * inc) (SSRC sess) (payloads ! i))) [0..<length payloads]"
proof -
  let ?p = "StreamSRTP sess s payloads pt inc done"
  have "srtp_played unmarshal sess s payloads pt inc 0 ?p"
    by (simp add: srtp_played_def StreamSRTP_def exI [of _ "[]"])
  from rtp_wire.srtp_played_ticks [OF assms(1,2) this, of "length payloads"] obtain p where
    p: "srtp_ticks marshal (length payloads) ?p = Some p"
      "srtp_played unmarshal sess s payloads pt inc (length payloads) p" by auto
  then obtain raws where raws: "encrypt_all raws s = (Some (st_wire p), st_srtp p)"
      "\<forall>raw \<in> set raws. 12 \<le> length raw"
      "map unmarshal raws = map (\<lambda>i. Some (audio_packet pt (sess_seq sess + of_nat i)
          (sess_ts sess + of_nat i * inc) (SSRC sess) (payloads ! i))) [0..<length payloads]"
    by (auto simp: srtp_played_def)
  note new = assms(3) [unfolded NewSRTPSenderSession_def] assms(4) [unfolded NewSRTPReceiverSession_def]
  have "in_sync s r"
    using NewSRTPSession_ok [OF new(1)] NewSRTPSession_ok [OF new(2)] same_keys_new [OF new]
    by (simp add: in_sync_def)
  from srtp_stream [OF this, of raws] raws(1,2) have "fst (decrypt_all (st_wire p) r) = map Inr raws" by auto
  with p(1) raws(3) show ?thesis by blast
qed

theorem secure_audio_path_witness:
  "\<exists>s r p raws. srtp_ticks rfc3550_marshal 2 (StreamSRTP (NewSession 9) s [[1], [2, 3]] 0 160 True) = Some p
     \<and> fst (decrypt_all (st_wire p) r) = map Inr raws
     \<and> map rfc3550_unmarshal raws = [Some (audio_packet 0 0 0 9 [1]), Some (audio_packet 0 1 160 9 [2, 3])]"
proof -
  have z: "length (MasterKey zero_config) = 16" "length (MasterSalt zero_config) = 14"
    by (simp_all add: zero_config_def)
  from NewSRTPSession_total [OF z, of True 9] NewSRTPSession_total [OF z, of False 9] obtain s r where
    "NewSRTPSenderSession (Some zero_config) 9 = Inr s" "NewSRTPReceiverSession (Some zero_config) 9 = Inr r"
    by (auto simp: NewSRTPSenderSession_def NewSRTPReceiverSession_def)
  from secure_audio_path [OF rfc3550.rtp_wire_axioms _ this, of 0 "[[1], [2, 3]]" "NewSession 9" 160 True]
  have "\<exists>p raws. srtp_ticks rfc3550_marshal 2 (StreamSRTP (NewSession 9) s [[1], [2, 3]] 0 160 True) = Some p
     \<and> fst (decrypt_all (st_wire p) r) = map Inr raws
     \<and> map rfc3550_unmarshal raws = [Some (audio_packet 0 0 0 9 [1]), Some (audio_packet 0 1 160 9 [2, 3])]"
    by (simp add: NewSession_def upt_rec numeral_2_eq_2 del: srtp_ticks.simps)
  then show ?thesis by - (rule exI [of _ s], rule exI [of _ r])
qed

end
