(* ===== verification/Media_Players.thy ===== *)
theory Media_Players
  imports Srtp_Sender
begin

text \<open>
  All players of a process in one reactor (\<open>Stream\<close> and \<open>StreamSRTP\<close> add plain and encrypting players
  to the same \<open>mediaReactor\<close>): the contract of \<open>tickable\<close> holds for the encrypting player, it is
  closed under mixing two kinds of items, and so every stream leaves the reactor.
\<close>

section \<open>Two kinds of items\<close>

definition mixed_call ::
    "('a \<Rightarrow> 'v \<Rightarrow> bool \<times> 'v) \<Rightarrow> ('b \<Rightarrow> 'w \<Rightarrow> bool \<times> 'w) \<Rightarrow> 'a + 'b \<Rightarrow> 'v \<times> 'w \<Rightarrow> bool \<times> 'v \<times> 'w" where
  "mixed_call call1 call2 x w = (case x of
       Inl a \<Rightarrow> let (keep, v) = call1 a (fst w) in (keep, v, snd w)
     | Inr b \<Rightarrow> let (keep, v) = call2 b (snd w) in (keep, fst w, v))"

definition mixed_budget :: "('a \<Rightarrow> 'v \<Rightarrow> nat) \<Rightarrow> ('b \<Rightarrow> 'w \<Rightarrow> nat) \<Rightarrow> 'a + 'b \<Rightarrow> 'v \<times> 'w \<Rightarrow> nat" where
  "mixed_budget budget1 budget2 x w = (case x of Inl a \<Rightarrow> budget1 a (fst w) | Inr b \<Rightarrow> budget2 b (snd w))"

locale two_tickables = one: tickable call1 budget1 + two: tickable call2 budget2
  for call1 :: "'a \<Rightarrow> 'v \<Rightarrow> bool \<times> 'v" and budget1 and call2 :: "'b \<Rightarrow> 'w \<Rightarrow> bool \<times> 'w" and budget2

sublocale two_tickables \<subseteq> both: tickable "mixed_call call1 call2" "mixed_budget budget1 budget2"
proof unfold_locales
  fix x :: "'a + 'b" and w :: "'v \<times> 'w"
  assume "fst (mixed_call call1 call2 x w)"
  then show "mixed_budget budget1 budget2 x (snd (mixed_call call1 call2 x w)) < mixed_budget budget1 budget2 x w"
    using one.progress two.progress
    by (auto simp: mixed_call_def mixed_budget_def split_beta Let_def split: sum.split sum.split_asm)
next
  fix x y :: "'a + 'b" and w :: "'v \<times> 'w"
  assume "y \<noteq> x"
  then show "mixed_budget budget1 budget2 y (snd (mixed_call call1 call2 x w)) \<le> mixed_budget budget1 budget2 y w"
    using one.apart [of _ _ "fst w"] two.apart [of _ _ "snd w"]
    by (cases x; cases y) (simp_all add: mixed_call_def mixed_budget_def split_beta Let_def)
qed

section \<open>What a cycle keeps\<close>

lemma visit_keeps: "(\<And>x w. P w \<Longrightarrow> P (snd (call x w))) \<Longrightarrow> P w \<Longrightarrow> P (snd (visit call xs w))"
  by (induction xs arbitrary: w) (simp_all add: split_beta Let_def)

lemma cycles_keep: "(\<And>x w. P w \<Longrightarrow> P (snd (call x w))) \<Longrightarrow> P w \<Longrightarrow> P (snd (cycles call n xs w))"
proof (induction n arbitrary: xs w)
  case (Suc n)
  then show ?case using visit_keeps [of P call w xs] by (simp add: split_beta Let_def)
qed simp

section \<open>Encrypting players\<close>

text \<open>\<open>None\<close> in the heap is a player whose tick has panicked.\<close>

definition secure_call ::
    "(rtp_packet \<Rightarrow> bytes option) \<Rightarrow> (bytes \<Rightarrow> bool) \<Rightarrow> 'o \<Rightarrow> ('o \<Rightarrow> srtp_stream option) \<Rightarrow> bool \<times> ('o \<Rightarrow> srtp_stream option)" where
  "secure_call marshal net x h = (case h x of
       None \<Rightarrow> (False, h)
     | Some p \<Rightarrow> (case StreamSRTPPlayer_Tick marshal net p of
         None \<Rightarrow> (False, h(x := None))
       | Some (keep, p) \<Rightarrow> (keep, h(x := Some p))))"

definition secure_left :: "'o \<Rightarrow> ('o \<Rightarrow> srtp_stream option) \<Rightarrow> nat" where
  "secure_left x h = (case h x of None \<Rightarrow> 0 | Some p \<Rightarrow> length (st_payloads p) - st_idx p)"

lemma secure_tick_progress:
  assumes "StreamSRTPPlayer_Tick marshal net p = Some (True, p')"
  shows "st_payloads p' = st_payloads p \<and> st_idx p' = Suc (st_idx p) \<and> st_idx p < length (st_payloads p)"
  using assms
  by (auto simp: StreamSRTPPlayer_Tick_def split_beta Let_def finish_def split: if_splits option.splits)

lemma secure_tick_pt:
  assumes "StreamSRTPPlayer_Tick marshal net p = Some (keep, p')"
  shows "st_pt p' = st_pt p"
  using assms
  by (auto simp: StreamSRTPPlayer_Tick_def split_beta Let_def finish_def split: if_splits option.splits)

interpretation secure_player: tickable "secure_call marshal net" secure_left for marshal net
proof unfold_locales
  fix x h
  assume "fst (secure_call marshal net x h)"
  then obtain p p' where p: "h x = Some p" "StreamSRTPPlayer_Tick marshal net p = Some (True, p')"
    by (auto simp: secure_call_def split: option.split_asm prod.split_asm)
  with secure_tick_progress [OF p(2)] show "secure_left x (snd (secure_call marshal net x h)) < secure_left x h"
    by (simp add: secure_call_def secure_left_def diff_less_mono2)
next
  fix x y h
  assume "y \<noteq> x"
  then show "secure_left y (snd (secure_call marshal net x h)) \<le> secure_left y h"
    by (simp add: secure_call_def secure_left_def split: option.split prod.split)
qed

interpretation players: two_tickables "stream_call marshal net" frames_left "secure_call marshal net" secure_left
  for marshal net ..

context rtp_wire
begin

text \<open>With a payload type of 7 bits the packet is marshalled, so that \<open>EncryptPacket\<close> finds a full header.\<close>

lemma secure_tick_total:
  assumes "unat (st_pt p) < 128"
  shows "\<exists>keep p'. StreamSRTPPlayer_Tick marshal net p = Some (keep, p')"
proof -
  let ?pkt = "\<lambda>seq ts. audio_packet (st_pt p) seq ts (SSRC (st_sess p)) (st_payloads p ! st_idx p)"
  have "plain_packet (?pkt seq ts)" for seq ts using assms by (simp add: plain_packet_def audio_packet_def)
  from marshal_obtain [OF this] obtain raw where
    raw: "marshal (?pkt (sess_seq (st_sess p)) (sess_ts (st_sess p))) = Some raw" "12 \<le> length raw" by (metis le_add1)
  from raw(2) obtain enc s' where "EncryptPacket raw (st_srtp p) = (Some enc, s')" by (rule EncryptPacket_some)
  with raw(1) show ?thesis
    by (auto simp: StreamSRTPPlayer_Tick_def NextSeqTS_def Let_def split_beta)
qed

lemma secure_call_total:
  assumes "\<And>x. \<exists>p. h x = Some p \<and> unat (st_pt p) < 128"
  shows "\<exists>p. snd (secure_call marshal net y h) x = Some p \<and> unat (st_pt p) < 128"
proof -
  obtain p where p: "h y = Some p" "unat (st_pt p) < 128" using assms by blast
  obtain keep p' where "StreamSRTPPlayer_Tick marshal net p = Some (keep, p')" using secure_tick_total [OF p(2)] by blast
  with p assms [of x] secure_tick_pt show ?thesis by (auto simp: secure_call_def)
qed

end

text \<open>C23: Plain and encrypting players share the shards of one reactor. Whatever the network does, players
  with at most \<open>n\<close> frames have all left their shard after \<open>n + 1\<close> cycles, and no tick panics.\<close>
theorem players_leave_reactor:
  assumes "rtp_wire marshal unmarshal" "distinct xs"
    and "\<And>a. Inl a \<in> set xs \<Longrightarrow> length (st_payloads (h1 a)) \<le> n"
    and "\<And>b p. Inr b \<in> set xs \<Longrightarrow> h2 b = Some p \<Longrightarrow> length (st_payloads p) \<le> n"
    and "\<And>b. \<exists>p. h2 b = Some p \<and> unat (st_pt p) < 128"
  shows "fst (cycles (mixed_call (stream_call marshal net) (secure_call marshal net)) (Suc n) xs (h1, h2)) = []
    \<and> snd (snd (cycles (mixed_call (stream_call marshal net) (secure_call marshal net)) (Suc n) xs (h1, h2))) b \<noteq> None"
proof
  have "mixed_budget frames_left secure_left x (h1, h2) < Suc n" if "x \<in> set xs" for x
  proof (cases x)
    case (Inl a)
    with assms(3) [of a] that show ?thesis by (simp add: mixed_budget_def frames_left_def)
  next
    case (Inr b)
    from assms(5) [of b] obtain p where "h2 b = Some p" by blast
    with Inr assms(4) [of b p] that show ?thesis by (simp add: mixed_budget_def secure_left_def)
  qed
  then show "fst (cycles (mixed_call (stream_call marshal net) (secure_call marshal net)) (Suc n) xs (h1, h2)) = []"
    by (intro players.both.all_leave [OF assms(2)])
  let ?P = "\<lambda>w. \<forall>b. \<exists>p. snd w b = Some p \<and> unat (st_pt p) < 128"
  have "?P (snd (mixed_call (stream_call marshal net) (secure_call marshal net) x w))" if "?P w" for x w
    using that rtp_wire.secure_call_total [OF assms(1), of "snd w"]
    by (auto simp: mixed_call_def split_beta Let_def split: sum.split)
  then have "?P (snd (cycles (mixed_call (stream_call marshal net) (secure_call marshal net)) (Suc n) xs (h1, h2)))"
    by (rule cycles_keep) (use assms(5) in auto)
  then show "snd (snd (cycles (mixed_call (stream_call marshal net) (secure_call marshal net)) (Suc n) xs (h1, h2))) b \<noteq> None"
    by (metis option.distinct(1))
qed

theorem players_leave_reactor_witness:
  "\<exists>s. NewSRTPSenderSession (Some zero_config) 9 = Inr s
    \<and> fst (cycles (mixed_call (stream_call rfc3550_marshal (\<lambda>_. True)) (secure_call rfc3550_marshal (\<lambda>_. True))) 3
        [Inl (1 :: nat), Inr (2 :: nat)]
        (\<lambda>_. Stream (NewSession 1) [[1], [2]] 0 160 True, \<lambda>_. Some (StreamSRTP (NewSession 9) s [[1]] 0 160 True))) = []"
proof -
  have z: "length (MasterKey zero_config) = 16" "length (MasterSalt zero_config) = 14"
    by (simp_all add: zero_config_def)
  from NewSRTPSession_total [OF z, of True 9] obtain s where s: "NewSRTPSenderSession (Some zero_config) 9 = Inr s"
    by (auto simp: NewSRTPSenderSession_def)
  have "fst (cycles (mixed_call (stream_call rfc3550_marshal (\<lambda>_. True)) (secure_call rfc3550_marshal (\<lambda>_. True))) (Suc 2)
        [Inl (1 :: nat), Inr (2 :: nat)]
        (\<lambda>_. Stream (NewSession 1) [[1], [2]] 0 160 True, \<lambda>_. Some (StreamSRTP (NewSession 9) s [[1]] 0 160 True))) = []"
    by (rule conjunct1 [OF players_leave_reactor [OF rfc3550.rtp_wire_axioms]])
      (auto simp: Stream_def StreamSRTP_def)
  with s show ?thesis by (intro exI [of _ s]) (simp add: numeral_3_eq_3 eval_nat_numeral del: cycles.simps)
qed

end
