(* ===== verification/Jitter.thy ===== *)
theory Jitter
  imports Rtp_Session Recorder "HOL-Library.AList"
begin

text \<open>
  The de-jitter buffer (\<open>core/rtp/jitter.go\<close>): packets are pushed as they arrive and a tick every
  20 ms writes the payload of the next sequence number to the recorder, or silence when it is
  missing; \<open>Close\<close> makes the next tick write everything that is left. A Go map is an association
  list, and the nil map a closed buffer is left with is \<open>None\<close>; the clock is an argument. The
  theory shows that the ticks write what a reference schedule says as long as the sequence
  numbers do not wrap, that the tail is flushed completely and in circular order, and that
  packets on the far side of a wrap are discarded.
\<close>

section \<open>State and operations\<close>

record jitter =
  jb_packets :: "(u16 \<times> rtp_packet) list option"
  nextSeq :: u16
  started :: bool
  playoutDelay :: int
  silenceSize :: nat
  firstPktTime :: int
  delayExpired :: bool
  jb_stop :: bool

definition NewJitterBuffer :: "int \<Rightarrow> nat \<Rightarrow> jitter" where
  "NewJitterBuffer delay silence =
     \<lparr>jb_packets = Some [], nextSeq = 0, started = False, playoutDelay = delay,
      silenceSize = silence, firstPktTime = 0, delayExpired = False, jb_stop = False\<rparr>"

text \<open>Reading a nil map finds nothing; writing to one panics.\<close>

definition jb_get :: "jitter \<Rightarrow> u16 \<Rightarrow> rtp_packet option" where
  "jb_get jb s = (case jb_packets jb of None \<Rightarrow> None | Some m \<Rightarrow> map_of m s)"

definition jb_put :: "u16 \<Rightarrow> rtp_packet \<Rightarrow> jitter \<Rightarrow> jitter option" where
  "jb_put s pkt jb = (case jb_packets jb of None \<Rightarrow> None
     | Some m \<Rightarrow> Some (jb\<lparr>jb_packets := Some (AList.update s pkt m)\<rparr>))"

definition jb_delete :: "u16 \<Rightarrow> jitter \<Rightarrow> jitter" where
  "jb_delete s jb = jb\<lparr>jb_packets := map_option (AList.delete s) (jb_packets jb)\<rparr>"

definition Push :: "int \<Rightarrow> rtp_packet \<Rightarrow> jitter \<Rightarrow> jitter option" where
  "Push now pkt jb =
     (let jb = (if started jb then jb
                else jb\<lparr>nextSeq := SequenceNumber pkt, started := True, firstPktTime := now,
                       delayExpired := (playoutDelay jb = 0)\<rparr>);
          delta = uint (SequenceNumber pkt) - uint (nextSeq jb)
      in if delta < - 256 \<or> (delta < 0 \<and> delta > - 32768) then Some jb
         else jb_put (SequenceNumber pkt) pkt jb)"

text \<open>A tick gives the payloads it hands to \<open>recorder.Write\<close>, in order, whether the buffer stays
  in the reactor, and the new state.\<close>

definition jb_flush_order :: "jitter \<Rightarrow> u16 list" where
  "jb_flush_order jb = (case jb_packets jb of None \<Rightarrow> []
     | Some m \<Rightarrow> sort_key (\<lambda>s. unat (s - nextSeq jb)) (map fst m))"

definition jb_Tick :: "int \<Rightarrow> jitter \<Rightarrow> bytes list \<times> bool \<times> jitter" where
  "jb_Tick now jb =
     (if jb_stop jb then
        (map (\<lambda>s. Payload (the (jb_get jb s))) (jb_flush_order jb), False, jb\<lparr>jb_packets := None\<rparr>)
      else if \<not> started jb then ([], True, jb)
      else if \<not> delayExpired jb \<and> now - firstPktTime jb < playoutDelay jb then ([], True, jb)
      else
        let jb = jb\<lparr>delayExpired := True\<rparr>;
            (out, jb) = (case jb_get jb (nextSeq jb) of
                 Some pkt \<Rightarrow> ([Payload pkt], jb_delete (nextSeq jb) jb)
               | None \<Rightarrow> (if silenceSize jb > 0 then [replicate (silenceSize jb) 0] else [], jb))
        in (out, True, jb\<lparr>nextSeq := nextSeq jb + 1\<rparr>))"

definition jb_Close :: "jitter \<Rightarrow> jitter" where
  "jb_Close jb = jb\<lparr>jb_stop := True\<rparr>"

section \<open>Playout\<close>

text \<open>In playout: the first packet has arrived, the delay is over, the buffer is not closed.\<close>

definition playing :: "jitter \<Rightarrow> bool" where
  "playing jb \<longleftrightarrow> started jb \<and> delayExpired jb \<and> \<not> jb_stop jb \<and> jb_packets jb \<noteq> None"

fun push_all :: "int \<Rightarrow> rtp_packet list \<Rightarrow> jitter \<Rightarrow> jitter option" where
  "push_all now [] jb = Some jb"
| "push_all now (p # ps) jb = Option.bind (Push now p jb) (push_all now ps)"

text \<open>Rounds of 20 ms: the packets that arrive before the tick, then the tick.\<close>

fun rounds :: "int \<Rightarrow> rtp_packet list list \<Rightarrow> jitter \<Rightarrow> (bytes list \<times> jitter) option" where
  "rounds now [] jb = Some ([], jb)"
| "rounds now (b # bs) jb = Option.bind (push_all now b jb) (\<lambda>jb1.
     let (out, _, jb2) = jb_Tick now jb1 in
     map_option (\<lambda>(outs, jb3). (out @ outs, jb3)) (rounds (now + 20000000) bs jb2))"

text \<open>What should be heard: for each sequence number in turn the packet that carries it, among the
  packets \<open>ps\<close> that arrived so far (the newest first), else silence.\<close>

fun schedule :: "nat \<Rightarrow> rtp_packet list \<Rightarrow> u16 \<Rightarrow> rtp_packet list list \<Rightarrow> bytes list" where
  "schedule silence ps n [] = []"
| "schedule silence ps n (b # bs) =
     (let ps = rev b @ ps in
      (case find (\<lambda>p. SequenceNumber p = n) ps of
         Some p \<Rightarrow> [Payload p]
       | None \<Rightarrow> if silence > 0 then [replicate silence 0] else [])
      @ schedule silence ps (n + 1) bs)"

text \<open>The buffer holds, for every number not yet played, the newest packet that carries it.\<close>

definition holds_newest :: "rtp_packet list \<Rightarrow> jitter \<Rightarrow> bool" where
  "holds_newest ps jb \<longleftrightarrow>
     (\<forall>s. nextSeq jb \<le> s \<longrightarrow> jb_get jb s = find (\<lambda>p. SequenceNumber p = s) ps)"

lemma Push_stores:
  "started jb \<Longrightarrow> jb_packets jb = Some m \<Longrightarrow> nextSeq jb \<le> SequenceNumber p \<Longrightarrow>
   Push now p jb = Some (jb\<lparr>jb_packets := Some (AList.update (SequenceNumber p) p m)\<rparr>)"
  by (auto simp: Push_def Let_def jb_put_def word_le_def)

lemma playing_push:
  assumes "playing jb" "holds_newest ps jb"
  obtains jb' where "Push now p jb = Some jb'" "playing jb'" "holds_newest (p # ps) jb'"
    "nextSeq jb' = nextSeq jb" "silenceSize jb' = silenceSize jb"
proof -
  let ?s = "SequenceNumber p"
  let ?d = "uint ?s - uint (nextSeq jb)"
  have drop: "?d < - 256 \<or> (?d < 0 \<and> ?d > - 32768) \<longleftrightarrow> ?s < nextSeq jb"
    by (auto simp: word_less_alt)
  obtain m where m: "jb_packets jb = Some m" using assms(1) by (auto simp: playing_def)
  show ?thesis
  proof (cases "?s < nextSeq jb")
    case True
    then have "Push now p jb = Some jb"
      using assms(1) drop by (simp add: Push_def playing_def Let_def)
    moreover have "holds_newest (p # ps) jb"
      using assms(2) True by (auto simp: holds_newest_def)
    ultimately show ?thesis using assms(1) that by blast
  next
    case False
    let ?jb = "jb\<lparr>jb_packets := Some (AList.update ?s p m)\<rparr>"
    have "Push now p jb = Some ?jb"
      using assms(1) False by (auto simp: Push_def playing_def Let_def jb_put_def m word_less_alt)
    moreover have "playing ?jb" using assms(1) by (simp add: playing_def)
    moreover have "holds_newest (p # ps) ?jb"
      using assms(2) m by (auto simp: holds_newest_def jb_get_def update_conv)
    ultimately show ?thesis using that by simp
  qed
qed

lemma playing_push_all:
  "playing jb \<Longrightarrow> holds_newest ps jb \<Longrightarrow>
   \<exists>jb'. push_all now b jb = Some jb' \<and> playing jb' \<and> holds_newest (rev b @ ps) jb'
     \<and> nextSeq jb' = nextSeq jb \<and> silenceSize jb' = silenceSize jb"
proof (induction b arbitrary: ps jb)
  case Nil
  then show ?case by simp
next
  case (Cons p b)
  from playing_push [OF Cons.prems, of now p] obtain jb1 where
    jb1: "Push now p jb = Some jb1" "playing jb1" "holds_newest (p # ps) jb1"
    "nextSeq jb1 = nextSeq jb" "silenceSize jb1 = silenceSize jb" by blast
  from Cons.IH [OF jb1(2,3)] jb1 show ?case by auto
qed

lemma playing_tick:
  assumes "playing jb" "holds_newest ps jb" "nextSeq jb \<noteq> 65535"
  obtains jb' where "jb_Tick now jb = ((case find (\<lambda>p. SequenceNumber p = nextSeq jb) ps of
         Some p \<Rightarrow> [Payload p]
       | None \<Rightarrow> if silenceSize jb > 0 then [replicate (silenceSize jb) 0] else []), True, jb')"
    "playing jb'" "holds_newest ps jb'" "nextSeq jb' = nextSeq jb + 1" "silenceSize jb' = silenceSize jb"
proof -
  have get: "jb_get jb (nextSeq jb) = find (\<lambda>p. SequenceNumber p = nextSeq jb) ps"
    using assms(2) by (simp add: holds_newest_def)
  have "unat (nextSeq jb) < 65535"
    using assms(3) unsigned_less [of "nextSeq jb", where 'a = nat] by (auto simp: less_Suc_eq word_unat_eq_iff)
  then have up: "nextSeq jb + 1 \<le> s \<longleftrightarrow> nextSeq jb < s" for s
    by (simp add: word_le_nat_alt word_less_nat_alt unat_word_ariths Suc_le_eq)
  have del: "jb_get (jb_delete k jb) s = (if s = k then None else jb_get jb s)" for k s
    by (simp add: jb_get_def jb_delete_def delete_conv split: option.split)
  let ?jb = "(case jb_get jb (nextSeq jb) of Some _ \<Rightarrow> jb_delete (nextSeq jb) jb | None \<Rightarrow> jb)
    \<lparr>delayExpired := True, nextSeq := nextSeq jb + 1\<rparr>"
  have "jb_get (J\<lparr>delayExpired := d, nextSeq := n\<rparr>) s = jb_get J s" for J d n s
    by (simp add: jb_get_def)
  then have "holds_newest ps ?jb"
    using assms(2) by (auto simp: holds_newest_def del up split: option.split)
  moreover have "playing ?jb"
    using assms(1) by (simp add: playing_def jb_delete_def split: option.split)
  moreover have "jb_Tick now jb = ((case find (\<lambda>p. SequenceNumber p = nextSeq jb) ps of
         Some p \<Rightarrow> [Payload p]
       | None \<Rightarrow> if silenceSize jb > 0 then [replicate (silenceSize jb) 0] else []), True, ?jb)"
    using assms(1) get [symmetric]
    by (simp add: jb_Tick_def playing_def Let_def jb_get_def jb_delete_def split: option.split)
  ultimately show ?thesis
    by (intro that [of ?jb]) (simp_all add: jb_delete_def split: option.split)
qed

lemma rounds_schedule:
  "playing jb \<Longrightarrow> holds_newest ps jb \<Longrightarrow> unat (nextSeq jb) + length bs \<le> 65535 \<Longrightarrow>
   \<exists>jb'. rounds now bs jb = Some (schedule (silenceSize jb) ps (nextSeq jb) bs, jb') \<and> playing jb'
     \<and> nextSeq jb' = nextSeq jb + of_nat (length bs)"
proof (induction bs arbitrary: ps jb now)
  case Nil
  then show ?case by simp
next
  case (Cons b bs)
  from playing_push_all [OF Cons.prems(1,2), of now b] obtain jb1 where
    jb1: "push_all now b jb = Some jb1" "playing jb1" "holds_newest (rev b @ ps) jb1"
      "nextSeq jb1 = nextSeq jb" "silenceSize jb1 = silenceSize jb" by blast
  have "nextSeq jb \<noteq> 65535" using Cons.prems(3) by auto
  then obtain jb2 where
    jb2: "jb_Tick now jb1 = ((case find (\<lambda>p. SequenceNumber p = nextSeq jb) (rev b @ ps) of
         Some p \<Rightarrow> [Payload p]
       | None \<Rightarrow> if silenceSize jb > 0 then [replicate (silenceSize jb) 0] else []), True, jb2)"
      "playing jb2" "holds_newest (rev b @ ps) jb2" "nextSeq jb2 = nextSeq jb + 1"
      "silenceSize jb2 = silenceSize jb"
    using playing_tick [OF jb1(2,3), of now thesis, unfolded jb1(4,5)] by blast
  have "unat (nextSeq jb2) + length bs \<le> 65535"
    using Cons.prems(3) jb2(4) by (simp add: unat_word_ariths)
  from Cons.IH [OF jb2(2,3) this, of "now + 20000000"] obtain jb3 where
    jb3: "rounds (now + 20000000) bs jb2
        = Some (schedule (silenceSize jb) (rev b @ ps) (nextSeq jb + 1) bs, jb3)"
      "playing jb3" "nextSeq jb3 = nextSeq jb + 1 + of_nat (length bs)"
    unfolding jb2(4,5) by blast
  show ?case
    by (rule exI [of _ jb3])
      (simp add: jb1(1) jb2(1) jb3 Let_def del: find.simps)
qed

text \<open>C9: While sequence numbers do not wrap, every 20 ms of playout writes the payload of the next
  sequence number, if a packet with it has arrived by then (the newest one, if several have), and
  one frame of silence otherwise: the recorder hears the reference schedule, whatever the order
  and the rate in which the packets arrived.\<close>
theorem jitter_playout_schedule:
  assumes "playing jb" "jb_packets jb = Some []" "unat (nextSeq jb) + length bs \<le> 65535" "\<not> rec_closed r"
  shows "\<exists>outs jb' r'. rounds now bs jb = Some (outs, jb')
    \<and> outs = schedule (silenceSize jb) [] (nextSeq jb) bs
    \<and> put_all rec_Write outs r = Some r' \<and> rec_buf r' = rec_buf r @ concat outs"
proof -
  have "holds_newest [] jb" using assms(2) by (simp add: holds_newest_def jb_get_def)
  with rounds_schedule [OF assms(1) _ assms(3)] recorder_sink.put_all_heard [OF assms(4)]
  show ?thesis by blast
qed

text \<open>A newly created buffer starts playing at its first packet when it has no delay.\<close>

lemma first_push:
  "Push now p (NewJitterBuffer 0 silence)
     = Some \<lparr>jb_packets = Some [(SequenceNumber p, p)], nextSeq = SequenceNumber p, started = True,
         playoutDelay = 0, silenceSize = silence, firstPktTime = now, delayExpired = True, jb_stop = False\<rparr>"
  by (simp add: Push_def NewJitterBuffer_def jb_put_def Let_def)

definition voice :: "u16 \<Rightarrow> bytes \<Rightarrow> rtp_packet" where
  "voice s b = \<lparr>Version = 2, Marker = False, PayloadType = 0, SequenceNumber = s, Timestamp = 0,
     packet_SSRC = 1, Payload = b\<rparr>"

theorem jitter_playout_schedule_witness:
  "\<exists>r'. put_all rec_Write [[7], [8], [0], [10]] (the (NewRecorder (\<lambda>_. True) '''')) = Some r'
     \<and> rec_buf r' = [7, 8, 0, 10]"
proof -
  let ?jb = "(NewJitterBuffer 0 1)\<lparr>started := True, delayExpired := True, nextSeq := 7\<rparr>"
  let ?bs = "[[voice 8 [8], voice 7 [7]], [], [], [voice 10 [10]]]"
  let ?r = "the (NewRecorder (\<lambda>_. True) '''')"
  have r: "\<not> rec_closed ?r" "rec_buf ?r = []" by (simp_all add: NewRecorder_def)
  have s: "schedule 1 [] 7 ?bs = [[7], [8], [0], [10]]" by (simp add: voice_def Let_def)
  have "playing ?jb" "jb_packets ?jb = Some []" "unat (nextSeq ?jb) + length ?bs \<le> 65535"
    and j: "silenceSize ?jb = 1" "nextSeq ?jb = 7"
    by (simp_all add: NewJitterBuffer_def playing_def)
  from jitter_playout_schedule [OF this(1-3) r(1)] show ?thesis
    unfolding j s r(2) by auto
qed

section \<open>Flush\<close>


text \<open>After \<open>Close\<close> the next tick leaves the reactor and writes every packet that is still held,
  each once, in the order of its circular distance from the next sequence number, which is the
  sending order also across the wrap of the 16-bit counter.\<close>
theorem jitter_flush_circular:
  assumes "jb_packets jb = Some m" "distinct (map fst m)"
  shows "fst (snd (jb_Tick now (jb_Close jb))) = False
    \<and> fst (jb_Tick now (jb_Close jb)) = map (\<lambda>s. Payload (the (map_of m s))) (jb_flush_order jb)
    \<and> set (jb_flush_order jb) = fst ` set m \<and> distinct (jb_flush_order jb)
    \<and> sorted (map (\<lambda>s. unat (s - nextSeq jb)) (jb_flush_order jb))"
  using assms
  by (simp add: jb_Tick_def jb_Close_def jb_flush_order_def jb_get_def)

theorem jitter_flush_circular_witness:
  "fst (jb_Tick 0 (jb_Close ((NewJitterBuffer 0 1)\<lparr>nextSeq := 65534,
       jb_packets := Some [(0, voice 0 [3]), (65535, voice 65535 [2]), (65534, voice 65534 [1])]\<rparr>)))
    = [[1], [2], [3]]"
proof -
  let ?m = "[(0, voice 0 [3]), (65535, voice 65535 [2]), (65534, voice 65534 [1])]"
  let ?jb = "(NewJitterBuffer 0 1)\<lparr>nextSeq := 65534, jb_packets := Some ?m\<rparr>"
  have "jb_flush_order ?jb = [65534, 65535, 0]" by code_simp
  then show ?thesis
    using jitter_flush_circular [of ?jb ?m 0] by (simp add: voice_def)
qed

lemma keys_distinct_push:
  "jb_packets jb = Some m \<Longrightarrow> distinct (map fst m) \<Longrightarrow> Push now p jb = Some jb' \<Longrightarrow>
   \<exists>m'. jb_packets jb' = Some m' \<and> distinct (map fst m')"
  by (auto simp: Push_def Let_def jb_put_def distinct_update split: if_splits)

section \<open>Wrap of the sequence number\<close>

text \<open>The guard of \<open>Push\<close> compares the numbers without their wrap: once a call has started, every
  packet whose sequence number is numerically below the next one is discarded, however close
  ahead it is on the 16-bit circle. A packet that arrives before its turn across the wrap is
  therefore lost and played as silence.\<close>
theorem jitter_wrap_discards:
  assumes "started jb" "SequenceNumber pkt < nextSeq jb"
  shows "Push now pkt jb = Some jb"
  using assms by (auto simp: Push_def Let_def word_less_alt)

theorem jitter_wrap_discards_witness:
  "map_option fst (rounds 0 [[voice 0 [1]], []]
      ((NewJitterBuffer 0 1)\<lparr>started := True, delayExpired := True, nextSeq := 65535\<rparr>))
    = Some [[0], [0]]"
proof -
  let ?jb = "(NewJitterBuffer 0 1)\<lparr>started := True, delayExpired := True, nextSeq := 65535\<rparr>"
  have "Push 0 (voice 0 [1]) ?jb = Some ?jb"
    by (rule jitter_wrap_discards) (simp_all add: NewJitterBuffer_def voice_def)
  then show ?thesis
    by (simp add: jb_Tick_def NewJitterBuffer_def jb_get_def Let_def)
qed


end
