(* ===== verification/Dtmf.thy ===== *)
theory Dtmf
  imports Rtp_Session "HOL-Library.Sublist"
begin

text \<open>
  RFC 2833 telephone events (\<open>core/rtp/dtmf.go\<close>): the digit tables, the 4-byte payload, the sender
  of one digit and the collector of received digits, which the receive loops feed. A digit is a
  Go string. The theory shows that the payload codec is a round trip, which packets a digit
  becomes, that the collector records each sent digit exactly once as long as the packets of different
  digits do not mix, what a late end packet does, and that \<open>MatchesExpected\<close> is the subsequence test.
\<close>

section \<open>Digit tables\<close>

definition DTMFPayloadType :: byte where
  "DTMFPayloadType = 101"

definition digit_table :: "(string \<times> byte) list" where
  "digit_table = [(''0'', 0), (''1'', 1), (''2'', 2), (''3'', 3), (''4'', 4), (''5'', 5), (''6'', 6),
     (''7'', 7), (''8'', 8), (''9'', 9), (''*'', 10), (''#'', 11), (''A'', 12), (''B'', 13),
     (''C'', 14), (''D'', 15)]"

definition digitCode :: "string \<Rightarrow> byte option" where
  "digitCode d = map_of digit_table d"

text \<open>The reverse table, filled by \<open>init\<close>; the codes are distinct, so the order of the map
  iteration does not matter.\<close>

definition codeDigit :: "string list" where
  "codeDigit = foldl (\<lambda>a (d, c). a[unat c := d]) (replicate 16 []) digit_table"

lemma codeDigit_eval:
  "codeDigit = [''0'', ''1'', ''2'', ''3'', ''4'', ''5'', ''6'', ''7'', ''8'', ''9'', ''*'', ''#'', ''A'', ''B'', ''C'', ''D'']"
  by code_simp

lemma digitCode_dom: "digitCode d = Some c \<Longrightarrow> (d, c) \<in> set digit_table"
  unfolding digitCode_def by (rule map_of_SomeD)

lemma digitCode_codeDigit: "digitCode d = Some c \<Longrightarrow> unat c < 16 \<and> codeDigit ! unat c = d \<and> d \<noteq> []"
  by (drule digitCode_dom) (auto simp: digit_table_def codeDigit_eval)

section \<open>Payloads\<close>

definition buildDTMFPayload :: "byte \<Rightarrow> byte \<Rightarrow> u16 \<Rightarrow> bool \<Rightarrow> bytes" where
  "buildDTMFPayload code volume duration end_ev =
     (let flags = volume AND 0x3F;
          flags = (if end_ev then flags OR 0x80 else flags)
      in [code, flags, ucast (drop_bit 8 duration), ucast duration])"

text \<open>The digit and the end flag, or nothing for a payload that is no digit event.\<close>

definition decodeDTMFEvent :: "bytes \<Rightarrow> (string \<times> bool) option" where
  "decodeDTMFEvent payload =
     (if length payload < 4 then None
      else let code = payload ! 0 in
        if unat code \<ge> length codeDigit \<or> codeDigit ! unat code = [] then None
        else Some (codeDigit ! unat code, payload ! 1 AND 0x80 \<noteq> 0))"

lemma end_flag: "(let f = v AND 0x3F in (if e then f OR 0x80 else f) AND (0x80 :: byte)) = (if e then 0x80 else 0)"
proof -
  have "(v AND 0x3F) AND 0x80 = (0 :: byte)" by (simp add: and.assoc)
  moreover have "(f OR 0x80) AND 0x80 = (0x80 :: byte)" for f
    by (simp add: bit_eq_iff bit_simps)
  ultimately show ?thesis by simp
qed

text \<open>Every digit survives encoding and decoding, with its end flag, whatever volume and duration
  the payload carries.\<close>
theorem dtmf_payload_roundtrip:
  assumes "digitCode d = Some c"
  shows "decodeDTMFEvent (buildDTMFPayload c volume duration e) = Some (d, e)"
  using digitCode_codeDigit [OF assms] end_flag [of volume e]
  by (simp add: decodeDTMFEvent_def buildDTMFPayload_def codeDigit_eval [THEN arg_cong [where f = length], simplified] Let_def)

theorem dtmf_payload_roundtrip_witness:
  "decodeDTMFEvent (buildDTMFPayload 11 10 800 True) = Some (''#'', True)"
  by (rule dtmf_payload_roundtrip) (simp add: digitCode_def digit_table_def)

section \<open>Sending a digit\<close>

definition buildDTMFPacket :: "rtp_session \<Rightarrow> u16 \<Rightarrow> u32 \<Rightarrow> bytes \<Rightarrow> bool \<Rightarrow> rtp_packet" where
  "buildDTMFPacket sess seq ts payload marker =
     \<lparr>Version = 2, Marker = marker, PayloadType = DTMFPayloadType, SequenceNumber = seq,
      Timestamp = ts, packet_SSRC = SSRC sess, Payload = payload\<rparr>"

definition dtmf_volume :: byte where
  "dtmf_volume = 10"

text \<open>The loop over the intermediate packets, from iteration \<open>i\<close> for \<open>k\<close> more of them.\<close>

fun dtmf_intermediate :: "byte \<Rightarrow> nat \<Rightarrow> nat \<Rightarrow> rtp_session \<Rightarrow> rtp_packet list \<times> rtp_session" where
  "dtmf_intermediate code i 0 s = ([], s)"
| "dtmf_intermediate code i (Suc k) s =
     (let dur = of_nat ((i + 1) * 160);
          ((seq, ts), s') = NextSeqTS 160 s;
          payload = buildDTMFPayload code dtmf_volume dur False;
          pkt = buildDTMFPacket s' seq ts payload (i = 0);
          (pkts, s'') = dtmf_intermediate code (i + 1) k s'
      in (pkt # pkts, s''))"

definition dtmf_packets :: "string \<Rightarrow> rtp_session \<Rightarrow> rtp_packet list \<times> rtp_session" where
  "dtmf_packets digit s = (case digitCode digit of
       None \<Rightarrow> ([], s)
     | Some code \<Rightarrow>
         let (pkts, s1) = dtmf_intermediate code 0 5 s;
             ((seq, ts), s2) = NextSeqTS 0 s1;
             endPayload = buildDTMFPayload code dtmf_volume (of_nat (5 * 160)) True
         in (pkts @ [buildDTMFPacket s2 seq ts endPayload False], s2))"

text \<open>\<open>SendDTMF\<close> ignores marshalling errors and then sends an empty datagram.\<close>

definition wire :: "(rtp_packet \<Rightarrow> bytes option) \<Rightarrow> rtp_packet \<Rightarrow> bytes" where
  "wire marshal p = (case marshal p of None \<Rightarrow> [] | Some raw \<Rightarrow> raw)"

definition SendDTMF :: "(rtp_packet \<Rightarrow> bytes option) \<Rightarrow> string \<Rightarrow> rtp_session \<Rightarrow> bytes list \<times> rtp_session" where
  "SendDTMF marshal digit s = (let (pkts, s') = dtmf_packets digit s in (map (wire marshal) pkts, s'))"

lemma dtmf_intermediate_snd:
  "snd (dtmf_intermediate c i k s)
     = s\<lparr>sess_seq := sess_seq s + of_nat k, sess_ts := sess_ts s + 160 * of_nat k\<rparr>"
  by (induction k arbitrary: i s) (simp_all add: Let_def split_beta NextSeqTS_def algebra_simps)

lemma dtmf_intermediate_fst:
  "fst (dtmf_intermediate c i k s) = map (\<lambda>j. buildDTMFPacket s (sess_seq s + of_nat j)
     (sess_ts s + 160 * of_nat j) (buildDTMFPayload c dtmf_volume (of_nat ((i + j + 1) * 160)) False)
     (i + j = 0)) [0..<k]"
proof (induction k arbitrary: i s)
  case 0
  then show ?case by simp
next
  case (Suc k)
  have up: "[0..<Suc k] = 0 # map Suc [0..<k]"
    by (simp add: map_Suc_upt upt_conv_Cons del: upt_Suc)
  show ?case
    by (simp only: up) (simp add: Suc Let_def split_beta NextSeqTS_def buildDTMFPacket_def algebra_simps)
qed

lemma dtmf_packets_known:
  assumes "digitCode d = Some c"
  shows "dtmf_packets d s =
    (map (\<lambda>j. buildDTMFPacket s (sess_seq s + of_nat j) (sess_ts s + 160 * of_nat j)
        (buildDTMFPayload c dtmf_volume (of_nat ((j + 1) * 160)) False) (j = 0)) [0..<5]
     @ [buildDTMFPacket s (sess_seq s + 5) (sess_ts s + 800) (buildDTMFPayload c dtmf_volume 800 True) False],
     s\<lparr>sess_seq := sess_seq s + 6, sess_ts := sess_ts s + 800\<rparr>)"
proof -
  obtain pkts s1 where i: "dtmf_intermediate c 0 5 s = (pkts, s1)" by fastforce
  then have "s1 = s\<lparr>sess_seq := sess_seq s + 5, sess_ts := sess_ts s + 800\<rparr>"
    and "pkts = map (\<lambda>j. buildDTMFPacket s (sess_seq s + of_nat j) (sess_ts s + 160 * of_nat j)
        (buildDTMFPayload c dtmf_volume (of_nat ((j + 1) * 160)) False) (j = 0)) [0..<5]"
    using dtmf_intermediate_snd [of c 0 5 s] dtmf_intermediate_fst [of c 0 5 s] by simp_all
  then show ?thesis
    using assms i by (simp add: dtmf_packets_def NextSeqTS_def buildDTMFPacket_def)
qed

text \<open>A known digit becomes exactly six packets with consecutive sequence numbers, the marker on
  the first and the end flag on the last; the RTP timestamp advances by 160 with every packet, so
  the end packet carries a timestamp 800 after the first.\<close>
theorem dtmf_packet_series:
  assumes "digitCode d = Some c"
  shows "map SequenceNumber (fst (dtmf_packets d s)) = map (\<lambda>j. sess_seq s + of_nat j) [0..<6]
    \<and> map Timestamp (fst (dtmf_packets d s)) = map (\<lambda>j. sess_ts s + 160 * of_nat j) [0..<6]
    \<and> map Marker (fst (dtmf_packets d s)) = [True, False, False, False, False, False]
    \<and> map (decodeDTMFEvent \<circ> Payload) (fst (dtmf_packets d s))
        = replicate 5 (Some (d, False)) @ [Some (d, True)]"
proof -
  have dec: "decodeDTMFEvent (buildDTMFPayload c v t e) = Some (d, e)" for v t e
    using digitCode_codeDigit [OF assms] end_flag [of v e]
    by (simp add: decodeDTMFEvent_def buildDTMFPayload_def codeDigit_eval [THEN arg_cong [where f = length], simplified] Let_def)
  have six: "[0..<6] = [0, 1, 2, 3, 4, 5]" and five: "[0..<5] = [0, 1, 2, 3, 4]" by (simp_all add: upt_rec)
  show ?thesis
    by (simp add: dtmf_packets_known [OF assms] six five buildDTMFPacket_def dec numeral_eq_Suc)
qed

theorem dtmf_packet_series_witness:
  "map Timestamp (fst (dtmf_packets ''5'' (NewSession 7))) = [0, 160, 320, 480, 640, 800]"
proof -
  have "digitCode ''5'' = Some 5" by (simp add: digitCode_def digit_table_def)
  from dtmf_packet_series [OF this, of "NewSession 7"] show ?thesis
    by (simp add: NewSession_def upt_rec)
qed

section \<open>Collecting digits\<close>

record dtmf_collector =
  digits :: "string list"
  PT :: byte
  lastTS :: u32
  lastEvt :: byte
  seeded :: bool

definition NewDTMFCollector :: "byte \<Rightarrow> dtmf_collector" where
  "NewDTMFCollector telPT =
     \<lparr>digits = [], PT = (if telPT = 0 then DTMFPayloadType else telPT), lastTS = 0, lastEvt = 0,
      seeded = False\<rparr>"

definition accept :: "u32 \<Rightarrow> byte \<Rightarrow> string \<Rightarrow> dtmf_collector \<Rightarrow> dtmf_collector" where
  "accept ts eventCode digit c =
     (if seeded c \<and> lastTS c = ts \<and> lastEvt c = eventCode then c
      else c\<lparr>lastTS := ts, lastEvt := eventCode, seeded := True, digits := digits c @ [digit]\<rparr>)"

text \<open>What both receive loops do with a packet when there is a collector: only the collector's payload
  type concerns it.\<close>

definition dtmf_input :: "rtp_packet \<Rightarrow> dtmf_collector \<Rightarrow> dtmf_collector" where
  "dtmf_input pkt c =
     (if PayloadType pkt = PT c
      then (case decodeDTMFEvent (Payload pkt) of
              Some (digit, True) \<Rightarrow> accept (Timestamp pkt) (Payload pkt ! 0) digit c
            | _ \<Rightarrow> c)
      else c)"

text \<open>\<open>MatchesExpected\<close>: one pass over the collected digits with a cursor into the expected ones.\<close>

fun match_loop :: "string list \<Rightarrow> nat \<Rightarrow> string list \<Rightarrow> bool" where
  "match_loop expected ei [] = False"
| "match_loop expected ei (d # got) =
     (if d = expected ! ei
      then (if ei + 1 = length expected then True else match_loop expected (ei + 1) got)
      else match_loop expected ei got)"

definition MatchesExpected :: "string list \<Rightarrow> dtmf_collector \<Rightarrow> bool" where
  "MatchesExpected expected c = (if expected = [] then True else match_loop expected 0 (digits c))"

lemma match_loop_subseq:
  "ei < length expected \<Longrightarrow> match_loop expected ei got \<longleftrightarrow> subseq (drop ei expected) got"
proof (induction expected ei got rule: match_loop.induct)
  case (1 expected ei)
  then show ?case by simp
next
  case (2 expected ei d got)
  from "2.prems" have drop: "drop ei expected = expected ! ei # drop (ei + 1) expected"
    by (simp add: take_Suc_drop)
  show ?case
  proof (cases "ei + 1 = length expected")
    case True
    then have "drop (ei + 1) expected = []" by simp
    with True 2 show ?thesis by (simp add: drop)
  next
    case False
    with "2.prems" have "ei + 1 < length expected" by simp
    with False 2 show ?thesis by (simp add: drop)
  qed
qed

text \<open>\<open>MatchesExpected\<close> answers exactly whether the expected digits are a subsequence of the
  collected ones.\<close>
theorem matches_expected_subseq: "MatchesExpected expected c \<longleftrightarrow> subseq expected (digits c)"
  using match_loop_subseq [of 0 expected "digits c"] by (auto simp: MatchesExpected_def)

lemma accept_idem [simp]: "accept ts e d (accept ts e d c) = accept ts e d c"
  by (simp add: accept_def)

lemma dtmf_input_PT [simp]: "PT (dtmf_input p c) = PT c"
  by (simp add: dtmf_input_def accept_def split: option.split prod.split bool.split)

text \<open>The packets of a list of digits, digit by digit.\<close>

fun digit_packets :: "string list \<Rightarrow> rtp_session \<Rightarrow> rtp_packet list list" where
  "digit_packets [] s = []"
| "digit_packets (d # ds) s = (let (p, s1) = dtmf_packets d s in p # digit_packets ds s1)"

text \<open>What the network may make of the packets of one digit: it may lose, reorder and repeat them and
  mix in packets of other payload types, as long as the end packet arrives.\<close>

definition delivered :: "rtp_packet list \<Rightarrow> rtp_packet list \<Rightarrow> bool" where
  "delivered arrived sent \<longleftrightarrow>
     (\<forall>p \<in> set arrived. PayloadType p = DTMFPayloadType \<longrightarrow> p \<in> set sent)
     \<and> (sent \<noteq> [] \<longrightarrow> last sent \<in> set arrived)"

lemma fold_ignored: "(\<And>p. p \<in> set ps \<Longrightarrow> dtmf_input p c = c) \<Longrightarrow> fold dtmf_input ps c = c"
  by (induction ps) auto

lemma decode_payload:
  assumes "digitCode d = Some e"
  shows "decodeDTMFEvent (buildDTMFPayload e v t b) = Some (d, b)" "buildDTMFPayload e v t b ! 0 = e"
  using digitCode_codeDigit [OF assms] end_flag [of v b]
  by (simp_all add: decodeDTMFEvent_def buildDTMFPayload_def codeDigit_eval [THEN arg_cong [where f = length], simplified] Let_def)

text \<open>Of a digit's packets only the last one concerns the collector.\<close>

lemma digit_packet_input:
  assumes d: "digitCode d = Some e" and p: "p \<in> set (fst (dtmf_packets d s))" and pt: "PT c = DTMFPayloadType"
  shows "dtmf_input p c = (if p = last (fst (dtmf_packets d s)) then accept (sess_ts s + 800) e d c else c)"
proof -
  let ?last = "buildDTMFPacket s (sess_seq s + 5) (sess_ts s + 800) (buildDTMFPayload e dtmf_volume 800 True) False"
  have end_packet: "last (fst (dtmf_packets d s)) = ?last" by (simp add: dtmf_packets_known [OF d])
  show ?thesis
  proof (cases "p = ?last")
    case True
    then show ?thesis
      using pt by (simp add: end_packet dtmf_input_def buildDTMFPacket_def decode_payload [OF d])
  next
    case False
    with p have "decodeDTMFEvent (Payload p) = Some (d, False)"
      by (auto simp: dtmf_packets_known [OF d] buildDTMFPacket_def decode_payload [OF d])
    with False show ?thesis by (simp add: end_packet dtmf_input_def)
  qed
qed

text \<open>The packets that arrive of a digit leave the collector as it is until the first end packet, which
  records the digit; from then on it has been seen.\<close>

lemma delivered_digit:
  assumes d: "digitCode d = Some e" and pt: "PT c = DTMFPayloadType"
    and arrived: "\<And>p. p \<in> set ps \<Longrightarrow> PayloadType p = DTMFPayloadType \<Longrightarrow> p \<in> set (fst (dtmf_packets d s))"
  shows "fold dtmf_input ps c
    = (if last (fst (dtmf_packets d s)) \<in> set ps then accept (sess_ts s + 800) e d c else c)"
  using pt arrived
proof (induction ps arbitrary: c)
  case Nil
  then show ?case by simp
next
  case (Cons p ps)
  let ?c = "dtmf_input p c" and ?last = "last (fst (dtmf_packets d s))"
  have c: "?c = (if p = ?last then accept (sess_ts s + 800) e d c else c)"
  proof (cases "PayloadType p = DTMFPayloadType")
    case True
    with Cons.prems show ?thesis using digit_packet_input [OF d _ Cons.prems(1)] by simp
  next
    case False
    moreover have "PayloadType ?last = DTMFPayloadType" by (simp add: dtmf_packets_known [OF d] buildDTMFPacket_def)
    ultimately show ?thesis using Cons.prems(1) by (auto simp: dtmf_input_def)
  qed
  have "PT ?c = DTMFPayloadType" using Cons.prems(1) by simp
  then have "fold dtmf_input ps ?c = (if ?last \<in> set ps then accept (sess_ts s + 800) e d ?c else ?c)"
    by (rule Cons.IH) (use Cons.prems(2) in simp)
  then show ?case by (simp add: c)
qed

lemma dtmf_packets_unknown: "digitCode d = None \<Longrightarrow> dtmf_packets d s = ([], s)"
  by (simp add: dtmf_packets_def)

lemma delivered_digits:
  assumes "PT c = DTMFPayloadType" "seeded c \<longrightarrow> lastTS c = sess_ts s" "list_all2 delivered arrivals (digit_packets ds s)"
  shows "digits (fold dtmf_input (concat arrivals) c) = digits c @ filter (\<lambda>d. digitCode d \<noteq> None) ds"
  using assms
proof (induction ds arbitrary: s c arrivals)
  case Nil
  then show ?case by simp
next
  case (Cons d ds)
  let ?s = "snd (dtmf_packets d s)" and ?sent = "fst (dtmf_packets d s)"
  obtain ps rest where arr: "arrivals = ps # rest" "delivered ps ?sent" "list_all2 delivered rest (digit_packets ds ?s)"
    using Cons.prems(3) by (auto simp: split_beta Let_def list_all2_Cons2)
  let ?c = "fold dtmf_input ps c"
  show ?case
  proof (cases "digitCode d")
    case None
    then have "?c = c" using arr(2) Cons.prems(1)
      by (intro fold_ignored) (auto simp: delivered_def dtmf_packets_unknown dtmf_input_def)
    with None arr(3) Cons show ?thesis by (simp add: arr(1) dtmf_packets_unknown)
  next
    case (Some e)
    have "?sent \<noteq> []" by (simp add: dtmf_packets_known [OF Some])
    then have "?c = accept (sess_ts s + 800) e d c"
      using arr(2) delivered_digit [OF Some Cons.prems(1), of ps s] by (simp add: delivered_def)
    then have c: "?c = c\<lparr>lastTS := sess_ts s + 800, lastEvt := e, seeded := True, digits := digits c @ [d]\<rparr>"
      using Cons.prems(2) by (auto simp: accept_def)
    moreover have "sess_ts ?s = sess_ts s + 800" by (simp add: dtmf_packets_known [OF Some])
    ultimately have "digits (fold dtmf_input (concat rest) ?c) = digits ?c @ filter (\<lambda>d. digitCode d \<noteq> None) ds"
      using Cons.prems(1) arr(3) by (intro Cons.IH) simp_all
    with Some c show ?thesis by (simp add: arr(1))
  qed
qed

text \<open>C30: A collector of the sender's payload type records exactly the digits that the code can send, each
  once and in order, also the same digit several times in a row. The network may lose, reorder and
  repeat the packets of a digit and mix in packets of any other payload type, as long as the end
  packet of every digit arrives and no packet of a digit arrives after the next digit has begun.\<close>
theorem dtmf_loopback:
  assumes "pt = 0 \<or> pt = DTMFPayloadType" "list_all2 delivered arrivals (digit_packets ds s)"
  shows "digits (fold dtmf_input (concat arrivals) (NewDTMFCollector pt)) = filter (\<lambda>d. digitCode d \<noteq> None) ds"
  using delivered_digits [OF _ _ assms(2), of "NewDTMFCollector pt"] assms(1) by (auto simp: NewDTMFCollector_def)

text \<open>Two equal digits; the middle packets of the first are lost, its end packet comes twice, before and
  after an audio packet, the second arrives backwards.\<close>

theorem dtmf_loopback_witness:
  "digits (fold dtmf_input
      ([last (fst (dtmf_packets ''5'' (NewSession 7))), (buildDTMFPacket (NewSession 7) 1 2 [3] False)\<lparr>PayloadType := 0\<rparr>,
        last (fst (dtmf_packets ''5'' (NewSession 7)))]
       @ rev (fst (dtmf_packets ''5'' (snd (dtmf_packets ''5'' (NewSession 7))))) @ [])
      (NewDTMFCollector 101)) = [''5'', ''5'']"
proof -
  let ?s = "NewSession 7"
  let ?sent = "fst (dtmf_packets ''5'' ?s)" and ?sent2 = "fst (dtmf_packets ''5'' (snd (dtmf_packets ''5'' ?s)))"
  let ?arrivals = "[[last ?sent, (buildDTMFPacket ?s 1 2 [3] False)\<lparr>PayloadType := 0\<rparr>, last ?sent], rev ?sent2]"
  have code: "digitCode ''5'' = Some 5" by (simp add: digitCode_def digit_table_def)
  have ne: "?sent \<noteq> []" "?sent2 \<noteq> []" by (simp_all add: dtmf_packets_known [OF code])
  have "list_all2 delivered ?arrivals (digit_packets [''5'', ''5''] ?s)"
    using last_in_set [OF ne(1)] last_in_set [OF ne(2)]
    by (simp add: split_beta Let_def delivered_def DTMFPayloadType_def)
  from dtmf_loopback [OF _ this, of 101] code show ?thesis by (simp add: DTMFPayloadType_def)
qed

text \<open>The condition on order is needed: the collector compares an end packet with the last event only, so
  one that is repeated after the end packet of the next digit is recorded a second time.\<close>
theorem dtmf_late_end_recorded_again:
  assumes "digitCode d = Some e" "digitCode d2 = Some e2" "(p1, s1) = dtmf_packets d s" "(p2, s2) = dtmf_packets d2 s1"
    and "pt = 0 \<or> pt = DTMFPayloadType"
  shows "digits (fold dtmf_input (p1 @ p2 @ [last p1]) (NewDTMFCollector pt)) = [d, d2, d]"
proof -
  let ?c = "NewDTMFCollector pt" and ?c1 = "fold dtmf_input p1 (NewDTMFCollector pt)"
  have p: "p1 = fst (dtmf_packets d s)" "s1 = snd (dtmf_packets d s)" "p2 = fst (dtmf_packets d2 s1)"
    using assms(3,4) by (metis fst_conv snd_conv)+
  have ne: "p1 \<noteq> []" "p2 \<noteq> []" and ts: "sess_ts s1 = sess_ts s + 800"
    by (simp_all add: p dtmf_packets_known [OF assms(1)] dtmf_packets_known [OF assms(2)])
  have pt: "PT ?c = DTMFPayloadType" using assms(5) by (auto simp: NewDTMFCollector_def)
  have c1: "?c1 = accept (sess_ts s + 800) e d ?c"
    using delivered_digit [OF assms(1) pt, of p1 s] last_in_set [OF ne(1)] by (simp add: p)
  have pt1: "PT ?c1 = DTMFPayloadType" using pt by (simp add: c1 accept_def)
  let ?c2 = "accept (sess_ts s1 + 800) e2 d2 ?c1"
  have c2: "fold dtmf_input p2 ?c1 = ?c2"
    using delivered_digit [OF assms(2) pt1, of p2 s1] last_in_set [OF ne(2)] by (simp add: p)
  have pt2: "PT ?c2 = DTMFPayloadType" using pt1 by (simp add: accept_def)
  have "dtmf_input (last p1) ?c2 = accept (sess_ts s + 800) e d ?c2"
    using digit_packet_input [OF assms(1) _ pt2, of "last p1" s] last_in_set [OF ne(1)] by (simp add: p)
  then have "fold dtmf_input (p1 @ p2 @ [last p1]) ?c
      = accept (sess_ts s + 800) e d (accept (1600 + sess_ts s) e2 d2 (accept (sess_ts s + 800) e d ?c))"
    by (simp add: c2) (simp add: c1 ts)
  then show ?thesis by (simp add: accept_def NewDTMFCollector_def)
qed

theorem dtmf_late_end_recorded_again_witness:
  "digits (fold dtmf_input
      (fst (dtmf_packets ''1'' (NewSession 7)) @ fst (dtmf_packets ''2'' (snd (dtmf_packets ''1'' (NewSession 7))))
        @ [last (fst (dtmf_packets ''1'' (NewSession 7)))]) (NewDTMFCollector 101)) = [''1'', ''2'', ''1'']"
proof -
  have code: "digitCode ''1'' = Some 1" "digitCode ''2'' = Some 2" by (simp_all add: digitCode_def digit_table_def)
  show ?thesis
    by (rule dtmf_late_end_recorded_again [OF code, where s = "NewSession 7"
          and ?s2.0 = "snd (dtmf_packets ''2'' (snd (dtmf_packets ''1'' (NewSession 7))))"])
      (simp_all add: DTMFPayloadType_def)
qed

end
