(* ===== verification/Receiver.thy ===== *)
theory Receiver
  imports Jitter Dtmf Srtp
begin

text \<open>
  The receive loops: plain RTP (\<open>core/rtp/receiver.go\<close>), SRTP (\<open>ReceiveSRTP\<close> of
  \<open>core/rtp/srtp.go\<close>) and echo (\<open>core/rtp/echo.go\<close>). One iteration of a loop is a step on what
  the socket delivered; the ticks of the jitter buffer, which the reactor runs, interleave with
  them. \<open>pion/rtp\<close> parses packets and is a parameter; whether the payload it returns is a slice of
  the receive buffer or a copy is the parameter \<open>aliases\<close>. The theory shows that no interleaving
  panics, what the counters count, that the SRTP loop ignores whatever is not authentic, that the
  echo returns exactly what it received, and what the reuse of the buffer does to the recording
  when payloads are slices of it.
\<close>

section \<open>State\<close>

record receiver =
  rx_buf :: bytes
  rx_stats :: rtp_stats
  rx_jb :: "jitter option"
  rx_dtmf :: "dtmf_collector option"
  rx_srtp :: "srtp_session option"
  rx_returned :: bool
  rx_heard :: "bytes list"
  rx_ticking :: bool

datatype rx_event =
    StopSignal
  | Timeout
  | ReadError
  | Datagram bytes int
  | JitterTick int

definition receiver0 ::
    "bool \<Rightarrow> nat \<Rightarrow> dtmf_collector option \<Rightarrow> srtp_session option \<Rightarrow> rtp_stats \<Rightarrow> receiver" where
  "receiver0 recorder silence dtmf srtp stats =
     \<lparr>rx_buf = replicate 1500 0, rx_stats = stats,
      rx_jb = (if recorder then Some (NewJitterBuffer 40000000 silence) else None),
      rx_dtmf = dtmf, rx_srtp = srtp, rx_returned = False, rx_heard = [], rx_ticking = recorder\<rparr>"

text \<open>\<open>conn.ReadFrom(buf)\<close>: the datagram, cut to the buffer, overwrites its front. When packets hold
  slices of the buffer, the ones waiting in the jitter buffer change with it; \<open>hdr\<close> gives the
  offset of a packet's payload.\<close>

definition refresh :: "(rtp_packet \<Rightarrow> nat) \<Rightarrow> bytes \<Rightarrow> jitter \<Rightarrow> jitter" where
  "refresh hdr buf jb = jb\<lparr>jb_packets := map_option
     (map (\<lambda>(s, p). (s, p\<lparr>Payload := take (length (Payload p)) (drop (hdr p) buf)\<rparr>))) (jb_packets jb)\<rparr>"

definition read_into :: "bool \<Rightarrow> (rtp_packet \<Rightarrow> nat) \<Rightarrow> bytes \<Rightarrow> receiver \<Rightarrow> bytes \<times> receiver" where
  "read_into aliases hdr d rx =
     (let n = min (length (rx_buf rx)) (length d);
          buf = take n d @ drop n (rx_buf rx);
          rx = rx\<lparr>rx_buf := buf\<rparr>
      in (take n buf, if aliases then rx\<lparr>rx_jb := map_option (refresh hdr buf) (rx_jb rx)\<rparr> else rx))"

text \<open>What both loops do with a parsed packet that came in a datagram of \<open>n\<close> bytes; \<open>None\<close> is a panic
  of \<open>Push\<close>.\<close>

definition handle_packet :: "rtp_packet \<Rightarrow> nat \<Rightarrow> int \<Rightarrow> receiver \<Rightarrow> receiver option" where
  "handle_packet pkt n arrival rx =
     (let rx = rx\<lparr>rx_stats := add_bytes (int n) (stats_update (SequenceNumber pkt) arrival (rx_stats rx))\<rparr> in
      case rx_dtmf rx of
        Some c \<Rightarrow>
          if PayloadType pkt = PT c then Some (rx\<lparr>rx_dtmf := Some (dtmf_input pkt c)\<rparr>)
          else (case rx_jb rx of
              Some jb \<Rightarrow> if length (Payload pkt) > 0
                then map_option (\<lambda>jb. rx\<lparr>rx_jb := Some jb\<rparr>) (Push arrival pkt jb) else Some rx
            | None \<Rightarrow> Some rx)
      | None \<Rightarrow>
          (case rx_jb rx of
              Some jb \<Rightarrow> if length (Payload pkt) > 0
                then map_option (\<lambda>jb. rx\<lparr>rx_jb := Some jb\<rparr>) (Push arrival pkt jb) else Some rx
            | None \<Rightarrow> Some rx))"

text \<open>The loops return on the stop signal and close the jitter buffer on the way out.\<close>

definition rx_return :: "receiver \<Rightarrow> receiver" where
  "rx_return rx = rx\<lparr>rx_returned := True, rx_jb := map_option jb_Close (rx_jb rx)\<rparr>"

definition Receive_step ::
    "bool \<Rightarrow> (rtp_packet \<Rightarrow> nat) \<Rightarrow> (bytes \<Rightarrow> rtp_packet option) \<Rightarrow> rx_event \<Rightarrow> receiver \<Rightarrow> receiver option" where
  "Receive_step aliases hdr unmarshal e rx = (case e of
       StopSignal \<Rightarrow> Some (rx_return rx)
     | Timeout \<Rightarrow> Some rx
     | ReadError \<Rightarrow> Some (rx\<lparr>rx_stats := add_recv_error (rx_stats rx)\<rparr>)
     | Datagram d arrival \<Rightarrow>
         let (raw, rx) = read_into aliases hdr d rx in
         (case unmarshal raw of None \<Rightarrow> Some rx | Some pkt \<Rightarrow> handle_packet pkt (length raw) arrival rx)
     | JitterTick now \<Rightarrow> Some rx)"

text \<open>The SRTP loop decrypts into fresh memory, so nothing it buffers depends on the receive buffer.\<close>

definition ReceiveSRTP_step ::
    "(bytes \<Rightarrow> rtp_packet option) \<Rightarrow> rx_event \<Rightarrow> receiver \<Rightarrow> receiver option" where
  "ReceiveSRTP_step unmarshal e rx = (case e of
       StopSignal \<Rightarrow> Some (rx_return rx)
     | Timeout \<Rightarrow> Some rx
     | ReadError \<Rightarrow> Some (rx\<lparr>rx_stats := add_recv_error (rx_stats rx)\<rparr>)
     | Datagram d arrival \<Rightarrow>
         let (raw, rx) = read_into False (\<lambda>_. 0) d rx in
         (case rx_srtp rx of
            None \<Rightarrow> None
          | Some srtp \<Rightarrow>
              (case DecryptPacket raw srtp of
                 (Inl _, srtp) \<Rightarrow> Some (rx\<lparr>rx_srtp := Some srtp\<rparr>)
               | (Inr decrypted, srtp) \<Rightarrow>
                   let rx = rx\<lparr>rx_srtp := Some srtp\<rparr> in
                   (case unmarshal decrypted of
                      None \<Rightarrow> Some rx
                    | Some pkt \<Rightarrow> handle_packet pkt (length raw) arrival rx)))
     | JitterTick now \<Rightarrow> Some rx)"

text \<open>The reactor ticks the jitter buffer until it asks to leave.\<close>

definition rx_tick :: "int \<Rightarrow> receiver \<Rightarrow> receiver" where
  "rx_tick now rx = (case rx_jb rx of
       None \<Rightarrow> rx
     | Some jb \<Rightarrow>
         if \<not> rx_ticking rx then rx
         else let (out, keep, jb) = jb_Tick now jb
              in rx\<lparr>rx_jb := Some jb, rx_heard := rx_heard rx @ out, rx_ticking := keep\<rparr>)"

text \<open>A run: the loop's own steps until it returns, with ticks at any time. \<open>step\<close> is the loop.\<close>

definition rx_move :: "(rx_event \<Rightarrow> receiver \<Rightarrow> receiver option) \<Rightarrow> rx_event \<Rightarrow> receiver \<Rightarrow> receiver option" where
  "rx_move step e rx = (case e of
       JitterTick now \<Rightarrow> Some (rx_tick now rx)
     | _ \<Rightarrow> if rx_returned rx then Some rx else step e rx)"

fun rx_run :: "(rx_event \<Rightarrow> receiver \<Rightarrow> receiver option) \<Rightarrow> rx_event list \<Rightarrow> receiver \<Rightarrow> receiver option" where
  "rx_run step [] rx = Some rx"
| "rx_run step (e # es) rx = Option.bind (rx_move step e rx) (rx_run step es)"

section \<open>Safety\<close>

text \<open>While a loop runs its jitter buffer is not stopped, so its map exists.\<close>

definition rx_inv :: "receiver \<Rightarrow> bool" where
  "rx_inv rx \<longleftrightarrow> (\<not> rx_returned rx \<longrightarrow> (\<forall>jb. rx_jb rx = Some jb \<longrightarrow> jb_packets jb \<noteq> None \<and> \<not> jb_stop jb))"

lemma rx_inv0 [inv_intros]: "rx_inv (receiver0 rec silence dtmf srtp stats)"
  by (simp add: rx_inv_def receiver0_def NewJitterBuffer_def)

lemma Push_keeps:
  assumes "jb_packets jb \<noteq> None"
  obtains jb' where "Push now p jb = Some jb'" "jb_packets jb' \<noteq> None" "jb_stop jb' = jb_stop jb"
proof -
  obtain J m where J: "jb_packets J = Some m" "jb_stop J = jb_stop jb"
      "J = (if started jb then jb else jb\<lparr>nextSeq := SequenceNumber p, started := True, firstPktTime := now,
        delayExpired := (playoutDelay jb = 0)\<rparr>)" using assms by auto
  then have "Push now p jb = Some J \<or> Push now p jb = Some (J\<lparr>jb_packets := Some (AList.update (SequenceNumber p) p m)\<rparr>)"
    unfolding Push_def Let_def jb_put_def J(3) [symmetric] by simp
  with J(1,2) that [of J] that [of "J\<lparr>jb_packets := Some (AList.update (SequenceNumber p) p m)\<rparr>"]
  show thesis by auto
qed

lemma handle_packet_inv:
  assumes "rx_inv rx" "\<not> rx_returned rx"
  shows "\<exists>rx'. handle_packet pkt n a rx = Some rx' \<and> rx_inv rx' \<and> rx_returned rx' = rx_returned rx"
proof (cases "rx_jb rx")
  case None
  with assms show ?thesis by (auto simp: handle_packet_def Let_def rx_inv_def split: option.split)
next
  case (Some jb)
  then have jb: "jb_packets jb \<noteq> None" "\<not> jb_stop jb" using assms by (auto simp: rx_inv_def)
  obtain jb' where jb': "Push a pkt jb = Some jb'" "jb_packets jb' \<noteq> None" "jb_stop jb' = jb_stop jb"
    by (rule Push_keeps [OF jb(1)])
  show ?thesis
  proof (cases "(\<exists>c. rx_dtmf rx = Some c \<and> PayloadType pkt = PT c) \<or> Payload pkt = []")
    case True
    with Some assms show ?thesis by (auto simp: handle_packet_def Let_def rx_inv_def split: option.split)
  next
    case False
    with Some jb jb' show ?thesis by (auto simp: handle_packet_def Let_def rx_inv_def split: option.split)
  qed
qed

lemma read_into_inv: "rx_inv rx \<Longrightarrow> rx_inv (snd (read_into al h d rx))"
  by (auto simp: read_into_def Let_def rx_inv_def refresh_def)

lemma read_into_simps [simp]:
  "rx_returned (snd (read_into al h d rx)) = rx_returned rx" "rx_stats (snd (read_into al h d rx)) = rx_stats rx"
  "rx_srtp (snd (read_into al h d rx)) = rx_srtp rx" "rx_dtmf (snd (read_into al h d rx)) = rx_dtmf rx"
  "rx_heard (snd (read_into al h d rx)) = rx_heard rx"
  by (simp_all add: read_into_def Let_def)

lemma read_handle_inv:
  assumes "rx_inv rx" "\<not> rx_returned rx"
  shows "\<exists>rx'. handle_packet pkt n a (snd (read_into al h d rx)) = Some rx' \<and> rx_inv rx'"
  using handle_packet_inv [OF read_into_inv [OF assms(1)]] assms(2) by fastforce

lemma Receive_step_inv:
  assumes "rx_inv rx" "\<not> rx_returned rx"
  shows "\<exists>rx'. Receive_step al h u e rx = Some rx' \<and> rx_inv rx'"
proof (cases e)
  case (Datagram d a)
  then show ?thesis
    using read_handle_inv [OF assms] read_into_inv [OF assms(1)]
    by (cases "u (fst (read_into al h d rx))") (simp_all add: Receive_step_def Let_def split_beta)
qed (use assms in \<open>auto simp: Receive_step_def rx_inv_def rx_return_def\<close>)

lemma rx_tick_inv [inv_intros]: "rx_inv rx \<Longrightarrow> rx_inv (rx_tick now rx)"
  by (auto simp: rx_inv_def rx_tick_def jb_Tick_def Let_def split_beta jb_delete_def split: option.splits if_splits)

lemma rx_move_inv:
  assumes "rx_inv rx" "\<not> rx_returned rx \<Longrightarrow> \<exists>rx'. step e rx = Some rx' \<and> rx_inv rx'"
  shows "\<exists>rx'. rx_move step e rx = Some rx' \<and> rx_inv rx'"
  using assms rx_tick_inv [OF assms(1)] by (cases e; cases "rx_returned rx") (simp_all add: rx_move_def)

lemma rx_run_total:
  assumes "\<And>e rx. P rx \<Longrightarrow> \<exists>rx'. rx_move step e rx = Some rx' \<and> P rx'"
  shows "P rx \<Longrightarrow> \<exists>rx'. rx_run step es rx = Some rx' \<and> P rx'"
proof (induction es arbitrary: rx)
  case Nil
  then show ?case by simp
next
  case (Cons e es)
  obtain rx1 where "rx_move step e rx = Some rx1" "P rx1" using assms [OF Cons.prems] by blast
  with Cons.IH show ?case by simp
qed


lemma rx_inv_srtp [simp]: "rx_inv (rx\<lparr>rx_srtp := s\<rparr>) = rx_inv rx"
  by (simp add: rx_inv_def)

lemma rx_tick_srtp [simp]: "rx_srtp (rx_tick now rx) = rx_srtp rx"
  by (simp add: rx_tick_def split_beta Let_def split: option.split)



section \<open>Counters\<close>

definition parsed :: "(bytes \<Rightarrow> rtp_packet option) \<Rightarrow> rx_event \<Rightarrow> bool" where
  "parsed unmarshal e = (case e of Datagram d _ \<Rightarrow> unmarshal (take 1500 d) \<noteq> None | _ \<Rightarrow> False)"

definition datagram_size :: "rx_event \<Rightarrow> int" where
  "datagram_size e = (case e of Datagram d _ \<Rightarrow> int (min 1500 (length d)) | _ \<Rightarrow> 0)"

definition is_error :: "rx_event \<Rightarrow> bool" where
  "is_error e = (case e of ReadError \<Rightarrow> True | _ \<Rightarrow> False)"

lemma read_into_raw: "length (rx_buf rx) = 1500 \<Longrightarrow> fst (read_into al h d rx) = take 1500 d"
  by (simp add: read_into_def Let_def min_def)

lemma read_into_buf [simp]: "length (rx_buf (snd (read_into al h d rx))) = length (rx_buf rx)"
  by (auto simp: read_into_def Let_def)

lemma handle_packet_stats:
  "handle_packet pkt n a rx = Some rx' \<Longrightarrow> rx_stats rx' = add_bytes (int n) (stats_update (SequenceNumber pkt) a (rx_stats rx))
     \<and> rx_buf rx' = rx_buf rx \<and> rx_returned rx' = rx_returned rx"
  by (auto simp: handle_packet_def Let_def split: option.splits if_splits)

lemma stats_update_counts:
  "PacketsReceived (add_bytes n (stats_update q a s)) = PacketsReceived s + 1"
  "BytesReceived (add_bytes n (stats_update q a s)) = BytesReceived s + n"
  "RecvErrors (add_bytes n (stats_update q a s)) = RecvErrors s"
  by (simp_all add: add_bytes_def stats_update_def Let_def)

lemma rx_tick_simps [simp]:
  "rx_stats (rx_tick now rx) = rx_stats rx" "rx_buf (rx_tick now rx) = rx_buf rx" "rx_returned (rx_tick now rx) = rx_returned rx"
  by (simp_all add: rx_tick_def split_beta Let_def split: option.split)

lemma move_counts:
  assumes "rx_move (Receive_step al h u) e rx = Some rx'" "length (rx_buf rx) = 1500" "\<not> rx_returned rx" "e \<noteq> StopSignal"
  shows "length (rx_buf rx') = 1500 \<and> \<not> rx_returned rx'
    \<and> PacketsReceived (rx_stats rx') = PacketsReceived (rx_stats rx) + (if parsed u e then 1 else 0)
    \<and> BytesReceived (rx_stats rx') = BytesReceived (rx_stats rx) + (if parsed u e then datagram_size e else 0)
    \<and> RecvErrors (rx_stats rx') = RecvErrors (rx_stats rx) + (if is_error e then 1 else 0)"
proof (cases e)
  case (Datagram d a)
  with assms show ?thesis
    by (auto simp: rx_move_def Receive_step_def Let_def split_beta read_into_raw parsed_def datagram_size_def is_error_def
        stats_update_counts min.commute dest!: handle_packet_stats split: option.splits)
qed (use assms in \<open>auto simp: rx_move_def Receive_step_def parsed_def datagram_size_def is_error_def add_recv_error_def\<close>)

lemma run_counts:
  assumes "rx_run (Receive_step al h u) es rx = Some rx'" "length (rx_buf rx) = 1500" "\<not> rx_returned rx" "StopSignal \<notin> set es"
  shows "PacketsReceived (rx_stats rx') = PacketsReceived (rx_stats rx) + int (length (filter (parsed u) es))
    \<and> BytesReceived (rx_stats rx') = BytesReceived (rx_stats rx) + sum_list (map datagram_size (filter (parsed u) es))
    \<and> RecvErrors (rx_stats rx') = RecvErrors (rx_stats rx) + int (length (filter is_error es))"
  using assms
proof (induction es arbitrary: rx)
  case Nil
  then show ?case by simp
next
  case (Cons e es)
  then obtain rx1 where 1: "rx_move (Receive_step al h u) e rx = Some rx1" "rx_run (Receive_step al h u) es rx1 = Some rx'"
    by (auto simp: bind_eq_Some_conv)
  from move_counts [OF 1(1)] Cons.IH [OF 1(2)] Cons.prems(2-4) show ?case by auto
qed

text \<open>While the plain loop runs, \<open>PacketsReceived\<close> counts exactly the datagrams that parse as RTP,
  \<open>BytesReceived\<close> their bytes (cut at the 1500 bytes of the buffer) and \<open>RecvErrors\<close> the read
  errors, whatever else happens in between.\<close>
theorem receive_counts:
  assumes "rx_run (Receive_step aliases hdr unmarshal) es (receiver0 rec silence dtmf srtp rtp_stats0) = Some rx"
    and "StopSignal \<notin> set es"
  shows "PacketsReceived (rx_stats rx) = int (length (filter (parsed unmarshal) es))
    \<and> BytesReceived (rx_stats rx) = sum_list (map datagram_size (filter (parsed unmarshal) es))
    \<and> RecvErrors (rx_stats rx) = int (length (filter is_error es))"
  using run_counts [OF assms(1) _ _ assms(2)] by (simp add: receiver0_def rtp_stats0_def)

theorem receive_counts_witness:
  "\<exists>rx. rx_run (Receive_step False (\<lambda>_. 12) rfc3550_unmarshal) [Datagram [1, 2] 5, ReadError, Timeout, JitterTick 7]
      (receiver0 True 160 None None rtp_stats0) = Some rx \<and> PacketsReceived (rx_stats rx) = 0 \<and> RecvErrors (rx_stats rx) = 1"
proof -
  let ?es = "[Datagram [1, 2] 5, ReadError, Timeout, JitterTick 7]"
  have "\<exists>rx'. rx_move (Receive_step False (\<lambda>_. 12) rfc3550_unmarshal) e rx = Some rx' \<and> rx_inv rx'" if "rx_inv rx" for e rx
    using rx_move_inv [OF that] Receive_step_inv [OF that] by blast
  from rx_run_total [of rx_inv, OF this rx_inv0] obtain rx where
    rx: "rx_run (Receive_step False (\<lambda>_. 12) rfc3550_unmarshal) ?es (receiver0 True 160 None None rtp_stats0) = Some rx"
    by blast
  from receive_counts [OF rx] rx show ?thesis
    by (intro exI [of _ rx]) (simp add: parsed_def is_error_def rfc3550_unmarshal_def)
qed

section \<open>SRTP loop\<close>

text \<open>What a receiver with the session's keys may believe: a packet long enough to hold a header and a
  tag whose last 10 bytes are the HMAC of the rest.\<close>

definition authentic :: "srtp_session \<Rightarrow> bytes \<Rightarrow> bool" where
  "authentic r d \<longleftrightarrow> 22 \<le> length d
     \<and> take 10 (hmac_sha1 (authorKey r) (take (length d - 10) d)) = drop (length d - 10) d"

definition is_datagram :: "rx_event \<Rightarrow> bool" where
  "is_datagram e = (case e of Datagram _ _ \<Rightarrow> True | _ \<Rightarrow> False)"

lemma authentic_keys: "same_keys r r' \<Longrightarrow> authentic r' d = authentic r d"
  by (simp add: authentic_def same_keys_def)

lemma DecryptPacket_keys: "same_keys r (snd (DecryptPacket d r))"
  by (auto simp: DecryptPacket_def Let_def split_beta same_keys_def)

lemma DecryptPacket_rejects: "\<not> authentic r d \<Longrightarrow> \<exists>err. fst (DecryptPacket d r) = Inl err"
  by (auto simp: DecryptPacket_def Let_def split_beta authentic_def)

text \<open>One forged datagram leaves its bytes in the buffer and moves the session's packet index; what is
  no datagram depends on neither.\<close>

lemma forged_move:
  assumes "length (rx_buf rx) = 1500" "rx_srtp rx = Some r" "\<not> authentic r (take 1500 d)"
  shows "\<exists>b r'. length b = 1500 \<and> same_keys r r' \<and>
    rx_move (ReceiveSRTP_step u) (Datagram d a) rx = Some (rx\<lparr>rx_buf := b, rx_srtp := Some r'\<rparr>)"
proof (cases "rx_returned rx")
  case True
  with assms(1,2) show ?thesis
    by (intro exI [of _ "rx_buf rx"] exI [of _ r]) (simp add: rx_move_def same_keys_def)
next
  case False
  obtain err r' where err: "DecryptPacket (take 1500 d) r = (Inl err, r')"
    using DecryptPacket_rejects [OF assms(3)] by (metis prod.collapse)
  have "read_into False (\<lambda>_. 0) d rx = (take 1500 d, rx\<lparr>rx_buf := take (min 1500 (length d)) d @ drop (min 1500 (length d)) (rx_buf rx)\<rparr>)"
    using assms(1) by (simp add: read_into_def Let_def min_def)
  with False assms(1,2) err show ?thesis
    using DecryptPacket_keys [of r "take 1500 d"]
    by (intro exI [of _ "take (min 1500 (length d)) d @ drop (min 1500 (length d)) (rx_buf rx)"]
        exI [of _ r'])
      (simp add: rx_move_def ReceiveSRTP_step_def)
qed

lemma quiet_move:
  assumes "\<not> is_datagram e"
  shows "rx_move (ReceiveSRTP_step u) e (rx\<lparr>rx_buf := b, rx_srtp := s\<rparr>)
    = map_option (\<lambda>rx. rx\<lparr>rx_buf := b, rx_srtp := s\<rparr>) (rx_move (ReceiveSRTP_step u) e rx)"
  using assms by (cases e) (simp_all add: is_datagram_def rx_move_def ReceiveSRTP_step_def rx_return_def rx_tick_def
      split_beta Let_def split: option.split)

lemma quiet_total: "\<not> is_datagram e \<Longrightarrow> \<exists>rx'. rx_move (ReceiveSRTP_step u) e rx = Some rx'"
  by (cases e) (simp_all add: is_datagram_def rx_move_def ReceiveSRTP_step_def)

lemma forged_run:
  assumes "length b = 1500" "\<And>d a. Datagram d a \<in> set es \<Longrightarrow> \<not> authentic r (take 1500 d)"
  shows "\<exists>b' r'. same_keys r r' \<and> rx_run (ReceiveSRTP_step u) es (rx\<lparr>rx_buf := b, rx_srtp := Some r\<rparr>)
    = map_option (\<lambda>rx. rx\<lparr>rx_buf := b', rx_srtp := Some r'\<rparr>)
        (rx_run (ReceiveSRTP_step u) (filter (\<lambda>e. \<not> is_datagram e) es) rx)"
  using assms
proof (induction es arbitrary: rx b r)
  case Nil
  have "same_keys r r" by (simp add: same_keys_def)
  then show ?case by (intro exI [of _ b] exI [of _ r]) simp
next
  case (Cons e es)
  let ?rx = "rx\<lparr>rx_buf := b, rx_srtp := Some r\<rparr>"
  have rest: "\<not> authentic r (take 1500 d)" if "Datagram d a \<in> set es" for d a
    using Cons.prems(2) [of d a] that by simp
  show ?case
  proof (cases e)
    case (Datagram d a)
    obtain b1 r1 where 1: "length b1 = 1500" "same_keys r r1"
        "rx_move (ReceiveSRTP_step u) e ?rx = Some (?rx\<lparr>rx_buf := b1, rx_srtp := Some r1\<rparr>)"
      using forged_move [of ?rx r d u a] Cons.prems Datagram by auto
    have "\<exists>b2 r2. same_keys r1 r2 \<and> rx_run (ReceiveSRTP_step u) es (rx\<lparr>rx_buf := b1, rx_srtp := Some r1\<rparr>)
        = map_option (\<lambda>rx. rx\<lparr>rx_buf := b2, rx_srtp := Some r2\<rparr>) (rx_run (ReceiveSRTP_step u) (filter (\<lambda>e. \<not> is_datagram e) es) rx)"
      by (rule Cons.IH [OF 1(1)]) (use rest authentic_keys [OF 1(2)] in blast)
    then obtain b2 r2 where 2: "same_keys r1 r2"
        "rx_run (ReceiveSRTP_step u) es (rx\<lparr>rx_buf := b1, rx_srtp := Some r1\<rparr>)
          = map_option (\<lambda>rx. rx\<lparr>rx_buf := b2, rx_srtp := Some r2\<rparr>) (rx_run (ReceiveSRTP_step u) (filter (\<lambda>e. \<not> is_datagram e) es) rx)"
      by blast
    have "same_keys r r2" using 1(2) 2(1) by (simp add: same_keys_def)
    with 1(3) 2(2) Datagram show ?thesis by (intro exI [of _ b2] exI [of _ r2]) (simp add: is_datagram_def)
  qed (use Cons.IH [OF Cons.prems(1) rest] quiet_move [where e = e and u = u and rx = rx and b = b] quiet_total [where e = e and u = u and rx = rx]
      in \<open>auto simp: is_datagram_def\<close>)
qed

text \<open>C22: A run of the SRTP loop in which no datagram authenticates (its tag is not the HMAC of the
  rest under the session's key, or it is too short) is the run without those datagrams: the same
  statistics, digits, jitter buffer, recording and return, whatever ticks, timeouts, errors and
  stop signals are in it; only the bytes of the receive buffer and the packet index of the session
  differ. A datagram of a sender in step with the session authenticates and is handled as the plain
  packet that it protects.\<close>
theorem srtp_loop_authentic_only:
  assumes "length (rx_buf rx) = 1500" "rx_srtp rx = Some r"
  shows "((\<forall>d a. Datagram d a \<in> set es \<longrightarrow> \<not> authentic r (take 1500 d)) \<longrightarrow>
      (\<exists>b r'. same_keys r r' \<and> rx_run (ReceiveSRTP_step unmarshal) es rx
        = map_option (\<lambda>rx. rx\<lparr>rx_buf := b, rx_srtp := Some r'\<rparr>)
            (rx_run (ReceiveSRTP_step unmarshal) (filter (\<lambda>e. \<not> is_datagram e) es) rx)))
    \<and> (\<forall>s raw d pkt a. in_sync s r \<and> 12 \<le> length raw \<and> length d \<le> 1500 \<and> fst (EncryptPacket raw s) = Some d
        \<and> unmarshal raw = Some pkt \<longrightarrow> authentic r d \<and>
      ReceiveSRTP_step unmarshal (Datagram d a) rx = handle_packet pkt (length d) a
        (rx\<lparr>rx_buf := d @ drop (length d) (rx_buf rx), rx_srtp := Some (snd (DecryptPacket d r))\<rparr>))"
proof (intro conjI allI impI; (elim conjE)?)
  assume "\<forall>d a. Datagram d a \<in> set es \<longrightarrow> \<not> authentic r (take 1500 d)"
  then have "\<exists>b' r'. same_keys r r' \<and> rx_run (ReceiveSRTP_step unmarshal) es (rx\<lparr>rx_buf := rx_buf rx, rx_srtp := Some r\<rparr>)
      = map_option (\<lambda>rx. rx\<lparr>rx_buf := b', rx_srtp := Some r'\<rparr>)
          (rx_run (ReceiveSRTP_step unmarshal) (filter (\<lambda>e. \<not> is_datagram e) es) rx)"
    by (intro forged_run [OF assms(1)]) blast
  moreover have "rx\<lparr>rx_buf := rx_buf rx, rx_srtp := Some r\<rparr> = rx" using assms(2) by simp
  ultimately show "\<exists>b r'. same_keys r r' \<and> rx_run (ReceiveSRTP_step unmarshal) es rx
        = map_option (\<lambda>rx. rx\<lparr>rx_buf := b, rx_srtp := Some r'\<rparr>)
            (rx_run (ReceiveSRTP_step unmarshal) (filter (\<lambda>e. \<not> is_datagram e) es) rx)"
    by (simp only:)
next
  fix s raw d pkt a
  assume g: "in_sync s r" "12 \<le> length raw" "length d \<le> 1500" "fst (EncryptPacket raw s) = Some d" "unmarshal raw = Some pkt"
  have read: "read_into False (\<lambda>_. 0) d rx = (d, rx\<lparr>rx_buf := d @ drop (length d) (rx_buf rx)\<rparr>)"
    using assms(1) g(3) by (simp add: read_into_def Let_def)
  have dec: "fst (DecryptPacket d r) = Inr raw"
    using srtp_step [OF g(1,2)] g(4) by (metis fst_conv option.inject)
  then show "authentic r d" using DecryptPacket_rejects [of r d] by auto
  show "ReceiveSRTP_step unmarshal (Datagram d a) rx = handle_packet pkt (length d) a
        (rx\<lparr>rx_buf := d @ drop (length d) (rx_buf rx), rx_srtp := Some (snd (DecryptPacket d r))\<rparr>)"
    using assms(2) g(5) dec by (simp add: ReceiveSRTP_step_def read Let_def split_beta)
qed

theorem srtp_loop_authentic_only_witness:
  "\<exists>r f d. length f = 22 \<and> authentic r d
     \<and> (\<exists>b r'. same_keys r r' \<and> rx_run (ReceiveSRTP_step rfc3550_unmarshal) [Datagram f 9, ReadError] (receiver0 True 160 None (Some r) rtp_stats0)
        = Some ((receiver0 True 160 None (Some r) rtp_stats0)\<lparr>rx_stats := add_recv_error rtp_stats0, rx_buf := b, rx_srtp := Some r'\<rparr>))
     \<and> (\<exists>pkt rx'. ReceiveSRTP_step rfc3550_unmarshal (Datagram d 9) (receiver0 True 160 None (Some r) rtp_stats0)
        = handle_packet pkt (length d) 9 rx')"
proof -
  have z: "length (MasterKey zero_config) = 16" "length (MasterSalt zero_config) = 14"
    by (simp_all add: zero_config_def)
  from NewSRTPSession_total [OF z, of True 5] NewSRTPSession_total [OF z, of False 5] obtain s r where
    new: "NewSRTPSession True (Some zero_config) 5 = Inr s" "NewSRTPSession False (Some zero_config) 5 = Inr r" by auto
  have sync: "in_sync s r"
    using NewSRTPSession_ok [OF new(1)] NewSRTPSession_ok [OF new(2)] same_keys_new [OF new] by (simp add: in_sync_def)
  let ?rx = "receiver0 True 160 None (Some r) rtp_stats0"
  have rx: "length (rx_buf ?rx) = 1500" "rx_srtp ?rx = Some r" by (simp_all add: receiver0_def)
  define t where "t = take 10 (hmac_sha1 (authorKey r) (replicate 12 0))"
  define f :: bytes where "f = replicate 12 0 @ replicate 10 (if t = replicate 10 0 then 1 else 0)"
  have f: "length f = 22" "\<not> authentic r f" by (simp_all add: f_def authentic_def t_def)
  have plain: "plain_packet (voice 7 [1])" by (simp add: plain_packet_def voice_def)
  then obtain raw where raw: "rfc3550_marshal (voice 7 [1]) = Some raw" by (auto simp: rfc3550_marshal_def)
  note layout = rfc3550_layout [OF plain raw] and parse = rfc3550_roundtrip [OF plain raw]
  have len: "12 \<le> length raw" "length raw \<le> 13" using layout(1,2) by (simp_all add: voice_def)
  obtain d where enc: "EncryptPacket raw s = (Some d, snd (estimateIndex (get16 raw 2) s))"
    by (rule srtp_step [OF sync len(1)])
  then have d: "fst (EncryptPacket raw s) = Some d" by simp
  have "protect raw (fst (estimateIndex (get16 raw 2) s)) (snd (estimateIndex (get16 raw 2) s)) = Some d"
    using enc len(1) by (simp add: EncryptPacket_def nextIndex_def split_beta)
  moreover have "srtp_ok (snd (estimateIndex (get16 raw 2) s))" using sync by (simp add: in_sync_def srtp_ok_def)
  ultimately have "length d \<le> 1500" using protect_shape(1) [OF _ len(1)] len(2) by fastforce
  note both = srtp_loop_authentic_only [OF rx, of "[Datagram f 9, ReadError]" rfc3550_unmarshal]
  have forged: "\<forall>d a. Datagram d a \<in> set [Datagram f 9, ReadError] \<longrightarrow> \<not> authentic r (take 1500 d)"
    using f by simp
  have quiet: "rx_run (ReceiveSRTP_step rfc3550_unmarshal) (filter (\<lambda>e. \<not> is_datagram e) [Datagram f 9, ReadError]) ?rx
      = Some (?rx\<lparr>rx_stats := add_recv_error rtp_stats0\<rparr>)"
    by (simp add: is_datagram_def rx_move_def ReceiveSRTP_step_def receiver0_def)
  from both [THEN conjunct1, THEN mp, OF forged] quiet
  have "\<exists>b r'. same_keys r r' \<and> rx_run (ReceiveSRTP_step rfc3550_unmarshal) [Datagram f 9, ReadError] ?rx
      = Some (?rx\<lparr>rx_stats := add_recv_error rtp_stats0, rx_buf := b, rx_srtp := Some r'\<rparr>)"
    by simp
  moreover have "authentic r d \<and> ReceiveSRTP_step rfc3550_unmarshal (Datagram d 9) ?rx = handle_packet (voice 7 [1]) (length d) 9
      (?rx\<lparr>rx_buf := d @ drop (length d) (rx_buf ?rx), rx_srtp := Some (snd (DecryptPacket d r))\<rparr>)"
    using both [THEN conjunct2] sync len(1) \<open>length d \<le> 1500\<close> d parse by blast
  ultimately show ?thesis using f(1) by blast
qed

section \<open>Slices of the receive buffer\<close>

lemma two_pushes:
  assumes "playing jb" "jb_packets jb = Some []" "nextSeq jb = q"
    and "SequenceNumber p1 = q" "SequenceNumber p2 = q + 1" "q \<noteq> 65535"
  shows "Push a1 p1 jb = Some (jb\<lparr>jb_packets := Some [(q, p1)]\<rparr>)"
    and "Push a2 p2 (jb\<lparr>jb_packets := Some [(q, p1')]\<rparr>) = Some (jb\<lparr>jb_packets := Some [(q, p1'), (q + 1, p2)]\<rparr>)"
proof -
  have "unat q < 65535"
    using assms(6) unsigned_less [of q, where 'a = nat] by (auto simp: less_Suc_eq word_unat_eq_iff)
  then have "unat q < unat (q + 1)" by (simp add: unat_word_ariths)
  then have q: "q \<le> q + 1" "q \<noteq> q + 1" by (auto simp: word_le_nat_alt)
  have "started jb" using assms(1) by (simp add: playing_def)
  then show "Push a1 p1 jb = Some (jb\<lparr>jb_packets := Some [(q, p1)]\<rparr>)"
    using Push_stores [of jb "[]" p1 a1] assms(2-4) by simp
  let ?jb = "jb\<lparr>jb_packets := Some [(q, p1')]\<rparr>"
  have "Push a2 p2 ?jb = Some (?jb\<lparr>jb_packets := Some (AList.update (SequenceNumber p2) p2 [(q, p1')])\<rparr>)"
    by (rule Push_stores) (use \<open>started jb\<close> assms(3,5) q(1) in simp_all)
  with q(2) assms(5) show "Push a2 p2 ?jb = Some (jb\<lparr>jb_packets := Some [(q, p1'), (q + 1, p2)]\<rparr>)" by simp
qed

lemma read_whole:
  assumes "length (rx_buf rx) = 1500" "length d \<le> 1500" "rx_jb rx = Some jb"
  shows "read_into al h d rx = (d, rx\<lparr>rx_buf := d @ drop (length d) (rx_buf rx),
    rx_jb := Some (if al then refresh h (d @ drop (length d) (rx_buf rx)) jb else jb)\<rparr>)"
proof -
  have "rx\<lparr>rx_buf := b\<rparr> = rx\<lparr>rx_buf := b, rx_jb := Some jb\<rparr>" for b using assms(3) by simp
  with assms show ?thesis by (simp add: read_into_def Let_def)
qed

lemma datagram_step:
  assumes "length (rx_buf rx) = 1500" "length d \<le> 1500" "rx_jb rx = Some jb" "rx_dtmf rx = None" "\<not> rx_returned rx"
    and "unmarshal d = Some p" "Payload p \<noteq> []" "buf = d @ drop (length d) (rx_buf rx)"
    and "Push a p (if al then refresh h buf jb else jb) = Some jb'"
  obtains st where "rx_move (Receive_step al h unmarshal) (Datagram d a) rx
    = Some (rx\<lparr>rx_buf := buf, rx_stats := st, rx_jb := Some jb'\<rparr>)"
proof -
  let ?st = "add_bytes (int (length d)) (stats_update (SequenceNumber p) a (rx_stats rx))"
  have "rx_move (Receive_step al h unmarshal) (Datagram d a) rx
    = Some (rx\<lparr>rx_buf := buf, rx_stats := ?st, rx_jb := Some jb'\<rparr>)"
    using assms(4-7,9)
    by (cases al) (simp_all add: rx_move_def Receive_step_def read_whole [OF assms(1-3)] handle_packet_def Let_def assms(8) [symmetric])
  then show thesis by (rule that)
qed

text \<open>Two consecutive packets of the same size are in the jitter buffer when playout reaches them. If
  the parser returns slices of the buffer it was given, the loop's reuse of that buffer makes the
  recording hold the second payload twice; if it copies, both are recorded.\<close>
theorem reused_buffer_overwrites:
  assumes "length (rx_buf rx) = 1500" "rx_jb rx = Some jb" "rx_dtmf rx = None" "\<not> rx_returned rx" "rx_ticking rx"
    and "playing jb" "jb_packets jb = Some []" "nextSeq jb \<noteq> 65535"
    and "length d1 = length d2" "12 < length d1" "length d1 \<le> 1500"
    and "unmarshal d1 = Some p1" "Payload p1 = drop 12 d1" "SequenceNumber p1 = nextSeq jb"
    and "unmarshal d2 = Some p2" "Payload p2 = drop 12 d2" "SequenceNumber p2 = nextSeq jb + 1"
  shows "map_option rx_heard (rx_run (Receive_step aliases (\<lambda>_. 12) unmarshal)
        [Datagram d1 a1, Datagram d2 a2, JitterTick t1, JitterTick t2] rx)
    = Some (rx_heard rx @ (if aliases then [drop 12 d2, drop 12 d2] else [drop 12 d1, drop 12 d2]))"
proof -
  let ?q = "nextSeq jb"
  let ?p1 = "if aliases then p1\<lparr>Payload := drop 12 d2\<rparr> else p1"
  define b1 where "b1 = d1 @ drop (length d1) (rx_buf rx)"
  define b2 where "b2 = d2 @ drop (length d2) b1"
  note push = two_pushes [OF assms(6,7) refl assms(14,17,8)]
  have ne: "Payload p1 \<noteq> []" "Payload p2 \<noteq> []" using assms(9,10,13,16) by auto
  have jb0: "refresh (\<lambda>_. 12) b1 jb = jb" using assms(7) by (simp add: refresh_def)
  have "Push a1 p1 (if aliases then refresh (\<lambda>_. 12) b1 jb else jb) = Some (jb\<lparr>jb_packets := Some [(?q, p1)]\<rparr>)"
    by (simp add: push(1) jb0)
  then obtain st1 where step1: "rx_move (Receive_step aliases (\<lambda>_. 12) unmarshal) (Datagram d1 a1) rx
      = Some (rx\<lparr>rx_buf := b1, rx_stats := st1, rx_jb := Some (jb\<lparr>jb_packets := Some [(?q, p1)]\<rparr>)\<rparr>)"
    by (rule datagram_step [where unmarshal = unmarshal, OF assms(1,11,2,3,4,12) ne(1) b1_def])
  define rx1 where "rx1 = rx\<lparr>rx_buf := b1, rx_stats := st1, rx_jb := Some (jb\<lparr>jb_packets := Some [(?q, p1)]\<rparr>)\<rparr>"
  have rx1: "length (rx_buf rx1) = 1500" "length d2 \<le> 1500" "rx_jb rx1 = Some (jb\<lparr>jb_packets := Some [(?q, p1)]\<rparr>)"
    "rx_dtmf rx1 = None" "\<not> rx_returned rx1" "b2 = d2 @ drop (length d2) (rx_buf rx1)"
    using assms(1,3,4,9,11) by (simp_all add: rx1_def b1_def b2_def)
  have "refresh (\<lambda>_. 12) b2 (jb\<lparr>jb_packets := Some [(?q, p1)]\<rparr>)
      = jb\<lparr>jb_packets := Some [(?q, p1\<lparr>Payload := drop 12 d2\<rparr>)]\<rparr>"
    using assms(9,10,13) by (simp add: refresh_def b2_def)
  then have "Push a2 p2 (if aliases then refresh (\<lambda>_. 12) b2 (jb\<lparr>jb_packets := Some [(?q, p1)]\<rparr>)
      else jb\<lparr>jb_packets := Some [(?q, p1)]\<rparr>) = Some (jb\<lparr>jb_packets := Some [(?q, ?p1), (?q + 1, p2)]\<rparr>)"
    using push(2) by simp
  then obtain st2 where step2: "rx_move (Receive_step aliases (\<lambda>_. 12) unmarshal) (Datagram d2 a2) rx1
      = Some (rx1\<lparr>rx_buf := b2, rx_stats := st2, rx_jb := Some (jb\<lparr>jb_packets := Some [(?q, ?p1), (?q + 1, p2)]\<rparr>)\<rparr>)"
    by (rule datagram_step [where unmarshal = unmarshal, OF rx1(1-5) assms(15) ne(2) rx1(6)])
  let ?rx2 = "rx1\<lparr>rx_buf := b2, rx_stats := st2, rx_jb := Some (jb\<lparr>jb_packets := Some [(?q, ?p1), (?q + 1, p2)]\<rparr>)\<rparr>"
  have ne2: "?q + 1 \<noteq> ?q" by simp
  have "rx_heard (rx_tick t2 (rx_tick t1 ?rx2)) = rx_heard rx @ [Payload ?p1, Payload p2]"
    using assms(5,6) ne2 by (simp add: rx_tick_def jb_Tick_def playing_def Let_def jb_get_def jb_delete_def rx1_def)
  moreover have "rx_run (Receive_step aliases (\<lambda>_. 12) unmarshal)
        [Datagram d1 a1, Datagram d2 a2, JitterTick t1, JitterTick t2] rx = Some (rx_tick t2 (rx_tick t1 ?rx2))"
    using step1 [folded rx1_def] step2 by (simp add: rx_move_def [of _ "JitterTick _"])
  ultimately show ?thesis using assms(13,16) by simp
qed

theorem reused_buffer_overwrites_witness:
  "map_option rx_heard (rx_run (Receive_step True (\<lambda>_. 12) rfc3550_unmarshal)
      [Datagram (the (rfc3550_marshal (voice 7 [1, 1]))) 0, Datagram (the (rfc3550_marshal (voice 8 [2, 2]))) 20,
       JitterTick 40, JitterTick 60]
      ((receiver0 True 2 None None rtp_stats0)\<lparr>rx_jb := Some ((NewJitterBuffer 40 2)\<lparr>started := True,
         delayExpired := True, nextSeq := 7\<rparr>)\<rparr>)) = Some [[2, 2], [2, 2]]"
proof -
  let ?jb = "(NewJitterBuffer 40 2)\<lparr>started := True, delayExpired := True, nextSeq := 7\<rparr>"
  let ?rx = "(receiver0 True 2 None None rtp_stats0)\<lparr>rx_jb := Some ?jb\<rparr>"
  have plain: "plain_packet (voice q b)" for q b by (simp add: plain_packet_def voice_def)
  then obtain d1 d2 where d: "rfc3550_marshal (voice 7 [1, 1]) = Some d1" "rfc3550_marshal (voice 8 [2, 2]) = Some d2"
    by (auto simp: rfc3550_marshal_def)
  note l1 = rfc3550_layout [OF plain d(1)] and l2 = rfc3550_layout [OF plain d(2)]
  have f: "length d1 = 14" "length d2 = 14" "drop 12 d1 = [1, 1]" "drop 12 d2 = [2, 2]"
    using l1(1,2) l2(1,2) by (simp_all add: voice_def)
  have u: "rfc3550_unmarshal d1 = Some (voice 7 [1, 1])" "rfc3550_unmarshal d2 = Some (voice 8 [2, 2])"
    using rfc3550_roundtrip [OF plain d(1)] rfc3550_roundtrip [OF plain d(2)] by simp_all
  have "map_option rx_heard (rx_run (Receive_step True (\<lambda>_. 12) rfc3550_unmarshal)
        [Datagram d1 0, Datagram d2 20, JitterTick 40, JitterTick 60] ?rx)
      = Some (rx_heard ?rx @ (if True then [drop 12 d2, drop 12 d2] else [drop 12 d1, drop 12 d2]))"
    by (rule reused_buffer_overwrites [where unmarshal = rfc3550_unmarshal and jb = ?jb and ?p1.0 = "voice 7 [1, 1]" and ?p2.0 = "voice 8 [2, 2]"])
      (simp_all add: receiver0_def NewJitterBuffer_def playing_def f u voice_def)
  then show ?thesis by (simp add: d f receiver0_def)
qed

section \<open>Echo\<close>

text \<open>\<open>src\<close> is the source address that the socket reports, when it reports a UDP address.\<close>

definition Echo_step ::
    "(bytes \<Rightarrow> rtp_packet option) \<Rightarrow> 'addr \<Rightarrow> bytes \<Rightarrow> 'addr option \<Rightarrow> int
      \<Rightarrow> rtp_stats \<times> (bytes \<times> 'addr) list \<Rightarrow> rtp_stats \<times> (bytes \<times> 'addr) list" where
  "Echo_step unmarshal remoteAddr d src now s =
     (let raw = take 1500 d in
      case unmarshal raw of
        None \<Rightarrow> s
      | Some pkt \<Rightarrow>
          let target = (case src of None \<Rightarrow> remoteAddr | Some a \<Rightarrow> a)
          in (stats_update (SequenceNumber pkt) now (fst s), snd s @ [(raw, target)]))"

text \<open>What the socket delivers to the echo loop: datagrams with their sources and arrival times.\<close>

fun Echo_run :: "(bytes \<Rightarrow> rtp_packet option) \<Rightarrow> 'addr \<Rightarrow> (bytes \<times> 'addr option \<times> int) list
    \<Rightarrow> rtp_stats \<times> (bytes \<times> 'addr) list \<Rightarrow> rtp_stats \<times> (bytes \<times> 'addr) list" where
  "Echo_run u remoteAddr [] s = s"
| "Echo_run u remoteAddr ((d, src, now) # ds) s = Echo_run u remoteAddr ds (Echo_step u remoteAddr d src now s)"

text \<open>The echo returns every RTP datagram, byte for byte as it came and in order, to the address it
  came from, counts it, and answers nothing else.\<close>
theorem echo_reflects:
  assumes "\<And>d src now. (d, src, now) \<in> set ds \<Longrightarrow> length d \<le> 1500"
  shows "snd (Echo_run unmarshal remoteAddr ds (stats, []))
      = map (\<lambda>(d, src, now). (d, case src of None \<Rightarrow> remoteAddr | Some a \<Rightarrow> a))
          (filter (\<lambda>(d, _). unmarshal d \<noteq> None) ds)
    \<and> PacketsReceived (fst (Echo_run unmarshal remoteAddr ds (stats, [])))
      = PacketsReceived stats + int (length (filter (\<lambda>(d, _). unmarshal d \<noteq> None) ds))"
proof -
  have "snd (Echo_run unmarshal remoteAddr ds (stats, out))
      = out @ map (\<lambda>(d, src, now). (d, case src of None \<Rightarrow> remoteAddr | Some a \<Rightarrow> a))
          (filter (\<lambda>(d, _). unmarshal d \<noteq> None) ds)
    \<and> PacketsReceived (fst (Echo_run unmarshal remoteAddr ds (stats, out)))
      = PacketsReceived stats + int (length (filter (\<lambda>(d, _). unmarshal d \<noteq> None) ds))" for out
    using assms
  proof (induction ds arbitrary: stats out)
    case Nil
    then show ?case by simp
  next
    case (Cons x ds)
    obtain d src now where x: "x = (d, src, now)" by (cases x) auto
    have d: "length d \<le> 1500" by (rule Cons.prems [of d src now]) (simp add: x)
    have ds: "\<And>d src now. (d, src, now) \<in> set ds \<Longrightarrow> length d \<le> 1500" using Cons.prems by (meson list.set_intros(2))
    show ?case
      using d Cons.IH [OF ds]
      by (cases "unmarshal d") (simp_all add: x Echo_step_def Let_def stats_update_def)
  qed
  from this [of "[]"] show ?thesis by simp
qed

theorem echo_reflects_witness:
  "snd (Echo_run (\<lambda>d. if d = [] then None else Some (voice 1 d)) (0 :: nat) [([5], Some 3, 1), ([], Some 4, 2), ([6], None, 3)] (rtp_stats0, []))
     = [([5], 3), ([6], 0)]"
  using echo_reflects [of "[([5], Some 3, 1), ([], Some 4, 2), ([6], None, 3)]" "\<lambda>d. if d = [] then None else Some (voice 1 d)" "0 :: nat" rtp_stats0]
  by force

end
