(* ===== verification/Audio_Path.thy ===== *)
theory Audio_Path
  imports Receiver Srtp_Sender
begin

text \<open>
  The whole way of the audio: a player in the reactor, the network, a receive loop, its jitter buffer
  and the recorder (\<open>sender.go\<close>, \<open>srtp.go\<close>, \<open>receiver.go\<close>, \<open>jitter.go\<close> of \<open>core/rtp\<close> together). A receive
  loop that hands on every datagram of a stream as the packet it carries is a \<open>audio_loop\<close>; the
  locale shows what such a loop makes the recorder hear, and both loops of the code are instances.
\<close>

section \<open>The jitter buffer before and during playout\<close>

definition buffering :: "jitter \<Rightarrow> bool" where
  "buffering jb \<longleftrightarrow> started jb \<and> \<not> jb_stop jb \<and> jb_packets jb \<noteq> None"

text \<open>What stays the same while packets are pushed.\<close>

definition jb_clock :: "jitter \<Rightarrow> u16 \<times> int \<times> nat \<times> int \<times> bool" where
  "jb_clock jb = (nextSeq jb, playoutDelay jb, silenceSize jb, firstPktTime jb, delayExpired jb)"

lemma buffering_push:
  assumes "buffering jb" "holds_newest ps jb"
  obtains jb' where "Push now p jb = Some jb'" "buffering jb'" "holds_newest (p # ps) jb'" "jb_clock jb' = jb_clock jb"
proof (cases "SequenceNumber p < nextSeq jb")
  case True
  then have "Push now p jb = Some jb"
    using assms(1) by (auto simp: Push_def buffering_def Let_def word_less_alt)
  moreover have "holds_newest (p # ps) jb"
    using assms(2) True by (auto simp: holds_newest_def)
  ultimately show ?thesis using assms(1) that by blast
next
  case False
  obtain m where m: "jb_packets jb = Some m" using assms(1) by (auto simp: buffering_def)
  let ?jb = "jb\<lparr>jb_packets := Some (AList.update (SequenceNumber p) p m)\<rparr>"
  have "Push now p jb = Some ?jb"
    using assms(1) m False by (intro Push_stores) (auto simp: buffering_def)
  moreover have "holds_newest (p # ps) ?jb"
    using assms(2) m by (auto simp: holds_newest_def jb_get_def update_conv)
  ultimately show ?thesis using assms(1) that [of ?jb] by (simp add: buffering_def jb_clock_def)
qed

lemma fresh_push:
  assumes "d \<noteq> 0"
  obtains jb where "Push now p (NewJitterBuffer d silence) = Some jb" "buffering jb" "holds_newest [p] jb"
    "jb_clock jb = (SequenceNumber p, d, silence, now, False)"
  using assms that
  by (force simp: Push_def NewJitterBuffer_def Let_def jb_put_def buffering_def jb_clock_def holds_newest_def jb_get_def)

lemma waiting_tick:
  assumes "buffering jb" "jb_clock jb = (q, d, silence, t, False)" "now - t < d"
  shows "jb_Tick now jb = ([], True, jb)"
  using assms by (auto simp: jb_Tick_def buffering_def jb_clock_def)

lemma expired_tick:
  assumes "buffering jb" "delayExpired jb \<or> playoutDelay jb \<le> now - firstPktTime jb"
  shows "jb_Tick now jb = jb_Tick now (jb\<lparr>delayExpired := True\<rparr>)"
proof (cases "delayExpired jb")
  case True
  with assms show ?thesis by (simp add: jb_Tick_def buffering_def jb_get_def)
next
  case False
  with assms(2) have "\<not> now - firstPktTime jb < playoutDelay jb" by simp
  with assms(1) False show ?thesis by (simp add: jb_Tick_def buffering_def jb_get_def)
qed

lemma buffering_tick:
  assumes "buffering jb" "holds_newest ps jb" "jb_clock jb = (q, d, silence, t, e)" "e \<or> d \<le> now - t" "q \<noteq> 65535"
  obtains jb' where "jb_Tick now jb = ((case find (\<lambda>p. SequenceNumber p = q) ps of
         Some p \<Rightarrow> [Payload p]
       | None \<Rightarrow> if silence > 0 then [replicate silence 0] else []), True, jb')"
    "buffering jb'" "holds_newest ps jb'" "jb_clock jb' = (q + 1, d, silence, t, True)"
proof -
  let ?jb = "jb\<lparr>delayExpired := True\<rparr>"
  have clock: "nextSeq jb = q" "playoutDelay jb = d" "silenceSize jb = silence" "firstPktTime jb = t" "delayExpired jb = e"
    using assms(3) by (simp_all add: jb_clock_def)
  have jb: "playing ?jb" "holds_newest ps ?jb"
    using assms(1,2) by (simp_all add: playing_def buffering_def holds_newest_def jb_get_def)
  have fields: "nextSeq ?jb = q" "silenceSize ?jb = silence" using clock by simp_all
  have "nextSeq ?jb \<noteq> 65535" using clock assms(5) by simp
  then obtain jb' where jb': "jb_Tick now ?jb = ((case find (\<lambda>p. SequenceNumber p = nextSeq ?jb) ps of
         Some p \<Rightarrow> [Payload p]
       | None \<Rightarrow> if silenceSize ?jb > 0 then [replicate (silenceSize ?jb) 0] else []), True, jb')"
    "playing jb'" "holds_newest ps jb'" "nextSeq jb' = nextSeq ?jb + 1" "silenceSize jb' = silenceSize ?jb"
    using playing_tick [OF jb, of now] by blast
  note jb' = jb' [unfolded fields]
  have "playoutDelay jb' = d \<and> firstPktTime jb' = t"
    using jb'(1) clock assms(1)
    by (auto simp: jb_Tick_def buffering_def jb_delete_def Let_def split: option.splits)
  with jb' clock show ?thesis
    using expired_tick [OF assms(1), of now] assms(4)
    by (intro that [of jb']) (simp_all add: playing_def buffering_def jb_clock_def)
qed

section \<open>What the recorder should hear\<close>

text \<open>Packets arrive between ticks 20 ms apart, as numbers of frames with their times.\<close>

fun path_events :: "(nat \<Rightarrow> bytes) \<Rightarrow> int \<Rightarrow> (nat \<times> int) list list \<Rightarrow> rx_event list" where
  "path_events gram now [] = []"
| "path_events gram now (b # bs) =
     map (\<lambda>(i, a). Datagram (gram i) a) b @ JitterTick now # path_events gram (now + 20000000) bs"

text \<open>Playout starts two ticks late, with the frame \<open>f\<close> that came first. Frame \<open>k\<close> is heard when it has
  arrived before its turn, in one of the first \<open>k - f + 3\<close> batches; silence otherwise.\<close>

definition heard_frames :: "(nat \<Rightarrow> bytes) \<Rightarrow> nat \<Rightarrow> nat \<Rightarrow> nat list list \<Rightarrow> bytes list" where
  "heard_frames payload silence f bs =
     map (\<lambda>k. if k \<in> set (concat (take (k - f + 3) bs)) then payload k else replicate silence 0)
       [f..<f + (length bs - 2)]"

lemma find_frame:
  assumes "\<And>i. i \<in> set is \<Longrightarrow> i < 65536 \<and> SequenceNumber (frame i) = of_nat i" "k < 65536"
  shows "find (\<lambda>p. SequenceNumber p = of_nat k) (map frame is) = (if k \<in> set is then Some (frame k) else None)"
proof -
  have "SequenceNumber (frame i) = of_nat k \<longleftrightarrow> i = k" if "i \<in> set is" for i
    using assms(1) [OF that] assms(2) by (simp add: word_unat_eq_iff unat_of_nat)
  with assms(1) show ?thesis by (induction "is") auto
qed

lemma schedule_frames:
  assumes "\<And>i. i \<in> set is \<union> set (concat bs) \<Longrightarrow> i < 65536 \<and> SequenceNumber (frame i) = of_nat i"
    and "q + length bs \<le> 65536" "0 < silence"
  shows "schedule silence (map frame is) (of_nat q) (map (map frame) bs)
    = map (\<lambda>k. if k \<in> set is \<union> set (concat (take (k - q + 1) bs)) then Payload (frame k) else replicate silence 0)
        [q..<q + length bs]"
  using assms
proof (induction bs arbitrary: "is" q)
  case (Cons b bs)
  let ?is = "rev b @ is"
  have up: "[q..<q + length (b # bs)] = q # [Suc q..<Suc q + length bs]" by (subst upt_conv_Cons) simp_all
  have next_q: "(of_nat q :: u16) + 1 = of_nat (Suc q)" by simp
  have found: "find (\<lambda>p. SequenceNumber p = of_nat q) (map frame ?is) = (if q \<in> set ?is then Some (frame q) else None)"
    using Cons.prems by (intro find_frame) auto
  have "schedule silence (map frame (is)) (of_nat q) (map (map frame) (b # bs))
    = (if q \<in> set ?is then Payload (frame q) else replicate silence 0)
      # schedule silence (map frame ?is) (of_nat (Suc q)) (map (map frame) bs)"
    using found Cons.prems(3) by (simp only: list.map schedule.simps Let_def next_q map_append [symmetric] rev_map) simp
  moreover have "schedule silence (map frame ?is) (of_nat (Suc q)) (map (map frame) bs)
    = map (\<lambda>k. if k \<in> set ?is \<union> set (concat (take (k - Suc q + 1) bs)) then Payload (frame k) else replicate silence 0)
        [Suc q..<Suc q + length bs]"
    using Cons.prems by (intro Cons.IH) auto
  moreover have "k - q + 1 = Suc (k - Suc q + 1)" if "k \<in> set [Suc q..<Suc q + length bs]" for k
    using that by auto
  then have "map (\<lambda>k. if k \<in> set ?is \<union> set (concat (take (k - Suc q + 1) bs)) then Payload (frame k) else replicate silence 0)
        [Suc q..<Suc q + length bs]
    = map (\<lambda>k. if k \<in> set (is) \<union> set (concat (take (k - q + 1) (b # bs))) then Payload (frame k) else replicate silence 0)
        [Suc q..<Suc q + length bs]"
    by (intro map_cong refl) (simp add: Un_ac)
  ultimately show ?case unfolding up by simp
qed simp

section \<open>A loop that delivers a stream\<close>

text \<open>The loop's side of a running recording: not returned, the buffer in the reactor, the collector of
  digits as it was.\<close>

definition on_air ::
    "(bytes \<Rightarrow> srtp_session option \<Rightarrow> bool) \<Rightarrow> dtmf_collector option \<Rightarrow> jitter \<Rightarrow> receiver \<Rightarrow> bool" where
  "on_air ready dtmf jb rx \<longleftrightarrow> rx_jb rx = Some jb \<and> rx_dtmf rx = dtmf \<and> \<not> rx_returned rx \<and> rx_ticking rx
     \<and> ready (rx_buf rx) (rx_srtp rx)"

lemma rx_run_append: "rx_run step (es @ fs) rx = Option.bind (rx_run step es rx) (rx_run step fs)"
proof (induction es arbitrary: rx)
  case (Cons e es)
  then show ?case by (cases "rx_move step e rx") simp_all
qed simp

lemma on_air_tick:
  assumes "on_air ready dtmf jb rx" "jb_Tick now jb = (out, True, jb')"
  shows "\<exists>rx'. rx_move step (JitterTick now) rx = Some rx' \<and> on_air ready dtmf jb' rx' \<and> rx_heard rx' = rx_heard rx @ out"
  using assms by (simp add: on_air_def rx_move_def rx_tick_def)

text \<open>A frame that the collector of digits, if there is one, leaves alone.\<close>

definition not_digit :: "dtmf_collector option \<Rightarrow> rtp_packet \<Rightarrow> bool" where
  "not_digit dtmf p = (case dtmf of None \<Rightarrow> True | Some c \<Rightarrow> PayloadType p \<noteq> PT c)"

text \<open>\<open>gram i\<close> is the datagram of frame \<open>i\<close>, and \<open>ready\<close> what the loop keeps of its buffer and its keys.\<close>

locale audio_loop =
  fixes step :: "rx_event \<Rightarrow> receiver \<Rightarrow> receiver option"
    and gram :: "nat \<Rightarrow> bytes"
    and frame :: "nat \<Rightarrow> rtp_packet"
    and n :: nat
    and dtmf :: "dtmf_collector option"
    and ready :: "bytes \<Rightarrow> srtp_session option \<Rightarrow> bool"
  assumes delivers: "ready (rx_buf rx) (rx_srtp rx) \<Longrightarrow> i < n \<Longrightarrow> \<exists>m buf srtp. ready buf srtp
      \<and> step (Datagram (gram i) a) rx = handle_packet (frame i) m a (rx\<lparr>rx_buf := buf, rx_srtp := srtp\<rparr>)"
    and numbered: "ready buf srtp \<Longrightarrow> i < n \<Longrightarrow>
      SequenceNumber (frame i) = of_nat i \<and> Payload (frame i) \<noteq> [] \<and> not_digit dtmf (frame i)"
    and in_cycle: "ready buf srtp \<Longrightarrow> n \<le> 65536"
begin

lemma arrival:
  assumes "on_air ready dtmf jb rx" "i < n" "Push a (frame i) jb = Some jb'"
  shows "\<exists>rx'. rx_move step (Datagram (gram i) a) rx = Some rx' \<and> on_air ready dtmf jb' rx' \<and> rx_heard rx' = rx_heard rx"
proof -
  have ready: "ready (rx_buf rx) (rx_srtp rx)" using assms(1) by (simp add: on_air_def)
  from delivers [OF this assms(2), of a] obtain m buf srtp where s: "ready buf srtp"
    "step (Datagram (gram i) a) rx = handle_packet (frame i) m a (rx\<lparr>rx_buf := buf, rx_srtp := srtp\<rparr>)" by blast
  with assms(1,3) numbered [OF ready assms(2)] show ?thesis
    by (cases dtmf) (simp_all add: on_air_def rx_move_def handle_packet_def not_digit_def Let_def)
qed

lemma batch_arrives:
  assumes "fst ` set b \<subseteq> {..<n}"
  shows "on_air ready dtmf jb rx \<Longrightarrow> buffering jb \<Longrightarrow> holds_newest (map frame is) jb \<Longrightarrow>
    \<exists>rx' jb'. rx_run step (map (\<lambda>(i, a). Datagram (gram i) a) b) rx = Some rx' \<and> on_air ready dtmf jb' rx' \<and> buffering jb'
      \<and> holds_newest (map frame (rev (map fst b) @ is)) jb' \<and> jb_clock jb' = jb_clock jb \<and> rx_heard rx' = rx_heard rx"
  using assms
proof (induction b arbitrary: rx jb "is")
  case Nil
  then show ?case by (intro exI [of _ rx] exI [of _ jb]) simp
next
  case (Cons x b)
  obtain i a where x: "x = (i, a)" by (cases x)
  obtain jb1 where jb1: "Push a (frame i) jb = Some jb1" "buffering jb1" "holds_newest (map frame (i # is)) jb1"
    "jb_clock jb1 = jb_clock jb"
    using buffering_push [OF Cons.prems(2,3), of a "frame i"] by auto
  have "i < n" using Cons.prems(4) x by simp
  from arrival [OF Cons.prems(1) this jb1(1)] obtain rx1 where
    rx1: "rx_move step (Datagram (gram i) a) rx = Some rx1" "on_air ready dtmf jb1 rx1" "rx_heard rx1 = rx_heard rx" by blast
  have "fst ` set b \<subseteq> {..<n}" using Cons.prems(4) by simp
  from Cons.IH [OF rx1(2) jb1(2,3) this] rx1 jb1(4) show ?case by (simp add: x)
qed

text \<open>A batch and the tick after it, while the delay lasts and when it is over.\<close>

lemma waiting_round:
  assumes "on_air ready dtmf jb rx" "buffering jb" "holds_newest (map frame is) jb" "fst ` set b \<subseteq> {..<n}"
    and "jb_clock jb = (q, d, silence, t, False)" "now - t < d"
  shows "\<exists>rx' jb'. rx_run step (map (\<lambda>(i, a). Datagram (gram i) a) b @ [JitterTick now]) rx = Some rx'
    \<and> on_air ready dtmf jb' rx' \<and> buffering jb' \<and> holds_newest (map frame (rev (map fst b) @ is)) jb'
    \<and> jb_clock jb' = jb_clock jb \<and> rx_heard rx' = rx_heard rx"
proof -
  from batch_arrives [OF assms(4,1-3)] obtain rx1 jb1 where
    1: "rx_run step (map (\<lambda>(i, a). Datagram (gram i) a) b) rx = Some rx1" "on_air ready dtmf jb1 rx1" "buffering jb1"
      "holds_newest (map frame (rev (map fst b) @ is)) jb1" "jb_clock jb1 = jb_clock jb" "rx_heard rx1 = rx_heard rx"
    by blast
  have "jb_Tick now jb1 = ([], True, jb1)" using waiting_tick [OF 1(3) _ assms(6)] 1(5) assms(5) by simp
  from on_air_tick [OF 1(2) this, of step] 1 show ?thesis by (auto simp: rx_run_append)
qed

lemma playing_rounds:
  assumes "fst ` set (concat bs) \<subseteq> {..<n}"
  shows "on_air ready dtmf jb rx \<Longrightarrow> buffering jb \<Longrightarrow> holds_newest (map frame is) jb \<Longrightarrow>
    jb_clock jb = (q, d, silence, t, e) \<Longrightarrow> e \<or> d \<le> now - t \<Longrightarrow> unat q + length bs \<le> 65535 \<Longrightarrow>
    \<exists>rx'. rx_run step (path_events gram now bs) rx = Some rx'
      \<and> rx_heard rx' = rx_heard rx @ schedule silence (map frame is) q (map (map frame) (map (map fst) bs))"
  using assms
proof (induction bs arbitrary: rx jb "is" q e now)
  case Nil
  then show ?case by simp
next
  case (Cons b bs)
  have b: "fst ` set b \<subseteq> {..<n}" and bs: "fst ` set (concat bs) \<subseteq> {..<n}"
    using Cons.prems(7) by auto
  from batch_arrives [OF b Cons.prems(1-3)] obtain rx1 jb1 where
    1: "rx_run step (map (\<lambda>(i, a). Datagram (gram i) a) b) rx = Some rx1" "on_air ready dtmf jb1 rx1" "buffering jb1"
      "holds_newest (map frame (rev (map fst b) @ is)) jb1" "jb_clock jb1 = jb_clock jb" "rx_heard rx1 = rx_heard rx"
    by blast
  let ?out = "case find (\<lambda>p. SequenceNumber p = q) (map frame (rev (map fst b) @ is)) of
         Some p \<Rightarrow> [Payload p]
       | None \<Rightarrow> if silence > 0 then [replicate silence 0] else []"
  have q: "q \<noteq> 65535" using Cons.prems(6) by auto
  obtain jb2 where 2: "jb_Tick now jb1 = (?out, True, jb2)" "buffering jb2"
      "holds_newest (map frame (rev (map fst b) @ is)) jb2" "jb_clock jb2 = (q + 1, d, silence, t, True)"
    by (rule buffering_tick [OF 1(3,4) 1(5) [unfolded Cons.prems(4)] Cons.prems(5) q])
  from on_air_tick [OF 1(2) 2(1), of step] obtain rx2 where
    rx2: "rx_move step (JitterTick now) rx1 = Some rx2" "on_air ready dtmf jb2 rx2" "rx_heard rx2 = rx_heard rx1 @ ?out" by blast
  have "unat (q + 1) + length bs \<le> 65535" using Cons.prems(6) by (simp add: unat_word_ariths)
  from Cons.IH [OF rx2(2) 2(2-4) _ this bs, of "now + 20000000"] obtain rx' where
    rx': "rx_run step (path_events gram (now + 20000000) bs) rx2 = Some rx'"
      "rx_heard rx' = rx_heard rx2 @ schedule silence (map frame (rev (map fst b) @ is)) (q + 1) (map (map frame) (map (map fst) bs))"
    by auto
  have "rx_heard rx' = rx_heard rx @ schedule silence (map frame is) q (map (map frame) (map (map fst) (b # bs)))"
    using rx'(2) rx2(3) 1(6) by (simp add: Let_def rev_map)
  moreover have "rx_run step (path_events gram now (b # bs)) rx = Some rx'"
    using 1(1) rx2(1) rx'(1) by (simp add: rx_run_append)
  ultimately show ?case by blast
qed

text \<open>The recorder hears the frames from the first that arrives on, each when it came in time.\<close>

lemma recorded:
  assumes "ready (replicate 1500 0) srtp" "0 < silence" "now - 20000000 < a" "a \<le> now"
    and "bs = ((f, a) # b0) # b1 # bs'" "fst ` set (concat bs) \<subseteq> {..<n}" "f + length bs \<le> 65537"
  shows "\<exists>rx. rx_run step (path_events gram now bs) (receiver0 True silence dtmf srtp stats) = Some rx
    \<and> rx_heard rx = heard_frames (\<lambda>i. Payload (frame i)) silence f (map (map fst) bs)"
proof -
  let ?rx = "receiver0 True silence dtmf srtp stats"
  let ?first = "rev (map fst b1) @ rev (map fst b0) @ [f]"
  have n: "f < n" "fst ` set b0 \<subseteq> {..<n}" "fst ` set b1 \<subseteq> {..<n}" "fst ` set (concat bs') \<subseteq> {..<n}" "n \<le> 65536"
    using assms(5,6) in_cycle [OF assms(1)] by auto
  have "on_air ready dtmf (NewJitterBuffer 40000000 silence) ?rx"
    using assms(1) by (simp add: on_air_def receiver0_def)
  moreover obtain jb where jb: "Push a (frame f) (NewJitterBuffer 40000000 silence) = Some jb" "buffering jb"
      "holds_newest [frame f] jb" "jb_clock jb = (SequenceNumber (frame f), 40000000, silence, a, False)"
    by (rule fresh_push [of 40000000 a "frame f" silence]) simp
  ultimately obtain rx where rx: "rx_move step (Datagram (gram f) a) ?rx = Some rx" "on_air ready dtmf jb rx" "rx_heard rx = []"
    using arrival [OF _ n(1)] by (force simp: receiver0_def)
  have "holds_newest (map frame [f]) jb" using jb(3) by simp
  from waiting_round [OF rx(2) jb(2) this n(2) jb(4), of now] assms(3) obtain rx0 jb0 where
    0: "rx_run step (map (\<lambda>(i, a). Datagram (gram i) a) b0 @ [JitterTick now]) rx = Some rx0" "on_air ready dtmf jb0 rx0"
      "buffering jb0" "holds_newest (map frame (rev (map fst b0) @ [f])) jb0" "jb_clock jb0 = jb_clock jb" "rx_heard rx0 = []"
    by (auto simp: rx(3))
  from waiting_round [OF 0(2,3,4) n(3) 0(5) [unfolded jb(4)], of "now + 20000000"] assms(3) obtain rx1 jb1 where
    1: "rx_run step (map (\<lambda>(i, a). Datagram (gram i) a) b1 @ [JitterTick (now + 20000000)]) rx0 = Some rx1"
      "on_air ready dtmf jb1 rx1" "buffering jb1" "holds_newest (map frame ?first) jb1" "jb_clock jb1 = jb_clock jb" "rx_heard rx1 = []"
    by (auto simp: 0(5,6))
  have seq: "SequenceNumber (frame i) = of_nat i" "i < 65536" if "i < n" for i
    using numbered [OF assms(1) that] that n(5) by auto
  have "unat (SequenceNumber (frame f)) + length bs' \<le> 65535"
    using assms(5,7) seq [OF n(1)] by (simp add: unat_of_nat)
  from playing_rounds [OF n(4) 1(2-4) 1(5) [unfolded jb(4)] _ this, of "now + 40000000"] assms(4) 1(6) obtain rx' where
    rx': "rx_run step (path_events gram (now + 40000000) bs') rx1 = Some rx'"
      "rx_heard rx' = schedule silence (map frame ?first) (of_nat f) (map (map frame) (map (map fst) bs'))"
    by (auto simp: seq(1) [OF n(1)])
  have "rx_heard rx' = heard_frames (\<lambda>i. Payload (frame i)) silence f (map (map fst) bs)"
  proof -
    have "rx_heard rx' = map (\<lambda>k. if k \<in> set ?first \<union> set (concat (take (k - f + 1) (map (map fst) bs')))
        then Payload (frame k) else replicate silence 0) [f..<f + length (map (map fst) bs')]"
      unfolding rx'(2)
    proof (rule schedule_frames)
      fix i assume "i \<in> set ?first \<union> set (concat (map (map fst) bs'))"
      then have "i \<in> {f} \<union> fst ` set b0 \<union> fst ` set b1 \<union> fst ` set (concat bs')" by force
      then have "i < n" using n(1-4) by blast
      then show "i < 65536 \<and> SequenceNumber (frame i) = of_nat i" using seq by blast
    qed (use assms(2,5,7) in simp_all)
    moreover have "set ?first \<union> set (concat (take (k - f + 1) (map (map fst) bs')))
        = set (concat (take (k - f + 3) (map (map fst) bs)))" for k
    proof -
      have k: "k - f + 3 = Suc (Suc (k - f + 1))" by simp
      show ?thesis unfolding k assms(5) by auto
    qed
    ultimately show ?thesis unfolding heard_frames_def by (simp only: assms(5)) simp
  qed
  moreover have "rx_run step (path_events gram now bs) ?rx = Some rx'"
  proof -
    have "path_events gram now bs = Datagram (gram f) a # (map (\<lambda>(i, a). Datagram (gram i) a) b0 @ [JitterTick now])
        @ (map (\<lambda>(i, a). Datagram (gram i) a) b1 @ [JitterTick (now + 20000000)]) @ path_events gram (now + 40000000) bs'"
      by (simp add: assms(5) add.commute)
    then show ?thesis
      using rx(1) 0(1) 1(1) rx'(1) by (simp only: rx_run.simps rx_run_append [of _ _ "_ @ _"] rx_run_append [of _ "_ @ _"] bind.bind_lunit)
  qed
  ultimately show ?thesis by blast
qed

end

section \<open>The plain loop\<close>

text \<open>The datagrams of a stream numbered from 0 parse as its frames and fit the receive buffer.\<close>

definition plain_ready ::
    "dtmf_collector option \<Rightarrow> (bytes \<Rightarrow> rtp_packet option) \<Rightarrow> bytes list \<Rightarrow> rtp_packet list
      \<Rightarrow> bytes \<Rightarrow> srtp_session option \<Rightarrow> bool" where
  "plain_ready dtmf unmarshal grams frames buf srtp \<longleftrightarrow> length buf = 1500 \<and> length grams \<le> 65536
     \<and> (\<forall>i < length grams. length (grams ! i) \<le> 1500 \<and> unmarshal (grams ! i) = Some (frames ! i)
          \<and> SequenceNumber (frames ! i) = of_nat i \<and> Payload (frames ! i) \<noteq> [] \<and> not_digit dtmf (frames ! i))"

lemma read_fits:
  assumes "length (rx_buf rx) = 1500" "length d \<le> 1500"
  shows "read_into False h d rx = (d, rx\<lparr>rx_buf := d @ drop (length d) (rx_buf rx)\<rparr>)"
  using assms by (simp add: read_into_def Let_def)

interpretation plain_loop: audio_loop "Receive_step False hdr unmarshal" "(!) grams" "(!) frames" "length grams" dtmf
    "plain_ready dtmf unmarshal grams frames" for hdr unmarshal grams frames dtmf
proof unfold_locales
  fix rx :: receiver and i :: nat and a :: int
  assume "plain_ready dtmf unmarshal grams frames (rx_buf rx) (rx_srtp rx)" and i: "i < length grams"
  then have ready: "length (rx_buf rx) = 1500" "length (grams ! i) \<le> 1500" "unmarshal (grams ! i) = Some (frames ! i)"
    "plain_ready dtmf unmarshal grams frames (grams ! i @ drop (length (grams ! i)) (rx_buf rx)) (rx_srtp rx)"
    unfolding plain_ready_def by auto
  have "rx\<lparr>rx_buf := b, rx_srtp := rx_srtp rx\<rparr> = rx\<lparr>rx_buf := b\<rparr>" for b by simp
  with ready show "\<exists>m buf srtp. plain_ready dtmf unmarshal grams frames buf srtp \<and> Receive_step False hdr unmarshal
      (Datagram (grams ! i) a) rx = handle_packet (frames ! i) m a (rx\<lparr>rx_buf := buf, rx_srtp := srtp\<rparr>)"
    by (intro exI conjI) (assumption, simp add: Receive_step_def read_fits)
qed (auto simp: plain_ready_def)

section \<open>The SRTP loop\<close>

text \<open>In the first half of the first cycle the receiver guesses every index right, whatever the order.\<close>

lemma estimate_first_half:
  assumes "at_number e s" "e < 32768" "i < 32768"
  shows "fst (estimateIndex (of_nat i) s) = of_nat i" "at_number i (snd (estimateIndex (of_nat i) s))"
proof -
  have "i32 (int i - int e) = int i - int e" using assms(2,3) by (intro i32_id) linarith+
  then have "\<not> i32 (uint (of_nat i :: u16) - uint (of_nat e :: u16)) < - 0x8000"
    using assms(2,3) by (simp add: uint_u16_nat)
  moreover have "drop_bit 16 (srtp_index s) = 0"
    using assms(1,2) drop_bit_of_nat_64 [of e] by (simp add: at_number_def)
  moreover have "(ucast (of_nat i :: u16) :: u64) = of_nat i"
    using assms(3) roc_or_seq [of i] by simp
  ultimately show "fst (estimateIndex (of_nat i) s) = of_nat i"
    using assms(1) by (simp add: estimateIndex_def at_number_def Let_def)
  then show "at_number i (snd (estimateIndex (of_nat i) s))"
    by (simp add: at_number_def estimateIndex_def Let_def)
qed

definition secure_ready ::
    "dtmf_collector option \<Rightarrow> (bytes \<Rightarrow> rtp_packet option) \<Rightarrow> srtp_session \<Rightarrow> bytes list \<Rightarrow> bytes list \<Rightarrow> rtp_packet list
      \<Rightarrow> bytes \<Rightarrow> srtp_session option \<Rightarrow> bool" where
  "secure_ready dtmf unmarshal s raws grams frames buf srtp \<longleftrightarrow> length buf = 1500 \<and> length grams \<le> 32768 \<and> srtp_ok s
     \<and> (\<forall>i < length grams. length (grams ! i) \<le> 1500 \<and> 12 \<le> length (raws ! i) \<and> get16 (raws ! i) 2 = of_nat i
          \<and> protect (raws ! i) (of_nat i) s = Some (grams ! i) \<and> unmarshal (raws ! i) = Some (frames ! i)
          \<and> SequenceNumber (frames ! i) = of_nat i \<and> Payload (frames ! i) \<noteq> [] \<and> not_digit dtmf (frames ! i))
     \<and> (\<exists>r e. srtp = Some r \<and> same_keys s r \<and> at_number e r \<and> e < 32768)"

lemma secure_datagram:
  assumes "secure_ready dtmf unmarshal s raws grams frames buf (Some r)" "i < length grams"
  obtains r' where "DecryptPacket (grams ! i) r = (Inr (raws ! i), r')"
    "secure_ready dtmf unmarshal s raws grams frames (grams ! i @ drop (length (grams ! i)) buf) (Some r')"
proof -
  from assms have ok: "srtp_ok s" "12 \<le> length (raws ! i)" "protect (raws ! i) (of_nat i) s = Some (grams ! i)"
    and seq: "get16 (raws ! i) 2 = of_nat i" and i: "i < 32768"
    and len: "length buf = 1500" "length (grams ! i) \<le> 1500"
    unfolding secure_ready_def by auto
  obtain e where r: "same_keys s r" "at_number e r" "e < 32768"
    using assms(1) unfolding secure_ready_def by blast
  note est = estimate_first_half [OF r(2,3) i] and shape = protect_shape [OF ok]
  have "22 \<le> length (grams ! i)" using shape(1) ok(2) by simp
  from DecryptPacket_state [OF this, of r] shape(2) seq
  have state: "snd (DecryptPacket (grams ! i) r) = snd (estimateIndex (of_nat i) r)" by simp
  have keys: "same_keys s (snd (estimateIndex (of_nat i) r))" using r(1) by (simp add: same_keys_def)
  have "fst (DecryptPacket (grams ! i) r) = Inr (raws ! i)"
    using decrypt_protected [OF ok(1) r(1) ok(2,3)] est(1) seq by simp
  moreover have "secure_ready dtmf unmarshal s raws grams frames (grams ! i @ drop (length (grams ! i)) buf)
      (Some (snd (DecryptPacket (grams ! i) r)))"
    using assms(1) est(2) keys i len unfolding secure_ready_def state by auto
  ultimately show thesis by (intro that) (simp_all add: prod_eq_iff)
qed

interpretation secure_loop: audio_loop "ReceiveSRTP_step unmarshal" "(!) grams" "(!) frames" "length grams" dtmf
    "secure_ready dtmf unmarshal s raws grams frames" for unmarshal s raws grams frames dtmf
proof unfold_locales
  fix rx :: receiver and i :: nat and a :: int
  assume ready: "secure_ready dtmf unmarshal s raws grams frames (rx_buf rx) (rx_srtp rx)" and i: "i < length grams"
  then obtain r where r: "rx_srtp rx = Some r" unfolding secure_ready_def by blast
  have fits: "length (rx_buf rx) = 1500" "length (grams ! i) \<le> 1500" "unmarshal (raws ! i) = Some (frames ! i)"
    using ready i unfolding secure_ready_def by auto
  from secure_datagram [OF ready [unfolded r] i] obtain r' where
    "DecryptPacket (grams ! i) r = (Inr (raws ! i), r')"
    "secure_ready dtmf unmarshal s raws grams frames (grams ! i @ drop (length (grams ! i)) (rx_buf rx)) (Some r')" .
  with r fits show "\<exists>m buf srtp. secure_ready dtmf unmarshal s raws grams frames buf srtp \<and> ReceiveSRTP_step unmarshal
      (Datagram (grams ! i) a) rx = handle_packet (frames ! i) m a (rx\<lparr>rx_buf := buf, rx_srtp := srtp\<rparr>)"
    by (intro exI conjI) (assumption, simp add: ReceiveSRTP_step_def read_fits)
qed (auto simp: secure_ready_def)

section \<open>End to end\<close>

text \<open>The packets of an audio stream are no digits unless the payload types collide.\<close>

lemma audio_packet_fields:
  "SequenceNumber (audio_packet pt seq ts ssrc payload) = seq" "Payload (audio_packet pt seq ts ssrc payload) = payload"
  "not_digit dtmf (audio_packet pt seq ts ssrc payload) = (case dtmf of None \<Rightarrow> True | Some c \<Rightarrow> PT c \<noteq> pt)"
  by (auto simp: not_digit_def audio_packet_def split: option.split)

lemma heard_frames_cong:
  assumes "\<And>k. k \<in> set (concat bs) \<Longrightarrow> P k = Q k"
  shows "heard_frames P silence f bs = heard_frames Q silence f bs"
proof -
  have "set (concat (take m bs)) \<subseteq> set (concat bs)" for m using set_take_subset [of m bs] by auto
  with assms show ?thesis unfolding heard_frames_def by (intro map_cong refl) (auto simp: subset_iff)
qed

lemma nth_eq_map: "map f xs = map g [0..<k] \<Longrightarrow> i < k \<Longrightarrow> f (xs ! i) = g i"
  by (metis add_0 diff_zero length_map length_upt nth_map nth_upt)

lemma length_eq_map: "map f xs = map g [0..<k] \<Longrightarrow> length xs = k"
  by (metis diff_zero length_map length_upt)

text \<open>Frames of at least one byte that fit the receive buffer with \<open>overhead\<close> bytes of headers and tag.\<close>

definition frames_fit :: "nat \<Rightarrow> bytes list \<Rightarrow> bool" where
  "frames_fit overhead payloads = list_all (\<lambda>b. 0 < length b \<and> length b + overhead \<le> 1500) payloads"

text \<open>A stream that the player has sent is what the loops expect.\<close>

lemma plain_stream_ready:
  assumes "rtp_wire marshal unmarshal" "unat pt < 128" "length payloads \<le> 65536" "frames_fit 12 payloads"
    and "p = (send_tick marshal ^^ length payloads) (Stream (NewSession ssrc) payloads pt inc done)"
    and "case dtmf of None \<Rightarrow> True | Some c \<Rightarrow> PT c \<noteq> pt"
  obtains frames where "plain_ready dtmf unmarshal (st_wire p) frames (replicate 1500 0) srtp"
    "length (st_wire p) = length payloads" "map Payload frames = payloads"
proof -
  let ?p = "Stream (NewSession ssrc) payloads pt inc done" and ?n = "length payloads"
  have "played unmarshal (NewSession ssrc) 0 ?p" by (simp add: played_def Stream_def send_stats0_def)
  moreover have "unat (st_pt ?p) < 128" "\<not> st_stop ?p" "?n \<le> length (st_payloads ?p)"
    using assms(2) by (simp_all add: Stream_def)
  ultimately have p: "played unmarshal (NewSession ssrc) ?n p" "stream_inputs p = stream_inputs ?p"
    using rtp_wire.played_ticks [OF assms(1), of ?p "NewSession ssrc" ?n] assms(5) by auto
  define frames where "frames = map (\<lambda>i. audio_packet pt (of_nat i) (of_nat i * inc) ssrc (payloads ! i)) [0..<?n]"
  have sent: "map unmarshal (st_wire p) = map (\<lambda>i. Some (frames ! i)) [0..<?n]"
      "map length (st_wire p) = map (\<lambda>i. 12 + length (payloads ! i)) [0..<?n]"
    using p by (auto simp: played_def stream_inputs_def Stream_def NewSession_def frames_def)
  note n = length_eq_map [OF sent(1)]
  have "plain_ready dtmf unmarshal (st_wire p) frames (replicate 1500 0) srtp"
    using assms(3,4,6) nth_eq_map [OF sent(1)] nth_eq_map [OF sent(2)]
    by (auto simp: plain_ready_def n frames_def audio_packet_fields frames_fit_def list_all_length)
  moreover have "map Payload frames = payloads"
    by (simp add: frames_def audio_packet_fields comp_def map_nth)
  ultimately show thesis using n by (intro that)
qed

lemma secure_stream_ready:
  assumes "rtp_wire marshal unmarshal" "unat pt < 128" "length payloads \<le> 32768" "frames_fit 22 payloads"
    and "NewSRTPSenderSession c ssrc = Inr s" "NewSRTPReceiverSession c ssrc = Inr r"
    and "case dtmf of None \<Rightarrow> True | Some c \<Rightarrow> PT c \<noteq> pt"
  obtains p raws frames where
    "srtp_ticks marshal (length payloads) (StreamSRTP (NewSession ssrc) s payloads pt inc done) = Some p"
    "secure_ready dtmf unmarshal s raws (st_wire p) frames (replicate 1500 0) (Some r)"
    "length (st_wire p) = length payloads" "map Payload frames = payloads"
proof -
  let ?p = "StreamSRTP (NewSession ssrc) s payloads pt inc done" and ?n = "length payloads"
  note new = assms(5) [unfolded NewSRTPSenderSession_def] assms(6) [unfolded NewSRTPReceiverSession_def]
  note s = NewSRTPSession_ok [OF new(1)] and r = NewSRTPSession_ok [OF new(2)] and keys = same_keys_new [OF new]
  have "srtp_played unmarshal (NewSession ssrc) s payloads pt inc 0 ?p"
    by (simp add: srtp_played_def StreamSRTP_def exI [of _ "[]"])
  from rtp_wire.srtp_played_ticks [OF assms(1,2) this, of ?n] obtain p where
    p: "srtp_ticks marshal ?n ?p = Some p" "srtp_played unmarshal (NewSession ssrc) s payloads pt inc ?n p" by auto
  define frames where "frames = map (\<lambda>i. audio_packet pt (of_nat i) (of_nat i * inc) ssrc (payloads ! i)) [0..<?n]"
  from p(2) obtain raws where enc: "encrypt_all raws s = (Some (st_wire p), st_srtp p)" "\<forall>raw \<in> set raws. 12 \<le> length raw"
    and sent: "map (\<lambda>raw. get16 raw 2) raws = map of_nat [0..<?n]"
      "map length raws = map (\<lambda>i. 12 + length (payloads ! i)) [0..<?n]"
      "map unmarshal raws = map (\<lambda>i. Some (frames ! i)) [0..<?n]"
    by (auto simp: srtp_played_def NewSession_def frames_def)
  note n = length_eq_map [OF sent(3)]
  have numbered: "numbered_from 0 raws"
    using enc(2) nth_eq_map [OF sent(1)] n by (simp add: numbered_from_def)
  have at: "at_number 0 s" "at_number 0 r" using s r by (simp_all add: at_number_def)
  from encrypt_all_numbered [OF at(1), of 0 raws] numbered assms(3) n enc(1) have
    grams: "length (st_wire p) = ?n" "\<forall>i < ?n. protect (raws ! i) (of_nat i) s = Some (st_wire p ! i)" by auto
  have len: "length (st_wire p ! i) = length (payloads ! i) + 22" "12 \<le> length (raws ! i)" if "i < ?n" for i
    using protect_shape(1) [OF s(1) _ grams(2) [rule_format, OF that]] nth_eq_map [OF sent(2) that] by simp_all
  have "secure_ready dtmf unmarshal s raws (st_wire p) frames (replicate 1500 0) (Some r)"
    using assms(3,4,7) s(1) keys at(2) grams len nth_eq_map [OF sent(1)] nth_eq_map [OF sent(3)]
    by (auto simp: secure_ready_def frames_def audio_packet_fields frames_fit_def list_all_length)
  moreover have "map Payload frames = payloads"
    by (simp add: frames_def audio_packet_fields comp_def map_nth)
  ultimately show thesis using p(1) grams(1) by (intro that)
qed

text \<open>What is heard depends only on the payloads of the frames that the network delivers.\<close>

lemma heard_payloads:
  assumes "map Payload frames = payloads" "fst ` set (concat bs) \<subseteq> {..<length payloads}"
  shows "heard_frames (\<lambda>i. Payload (frames ! i)) silence f (map (map fst) bs) = heard_frames ((!) payloads) silence f (map (map fst) bs)"
proof (rule heard_frames_cong)
  fix k assume "k \<in> set (concat (map (map fst) bs))"
  with assms(2) have "k < length payloads" by fastforce
  then show "Payload (frames ! k) = payloads ! k" using assms(1) by auto
qed

text \<open>End to end over plain RTP: a stream of up to 65536 frames is sent by the reactor, and the network
  delivers its datagrams to a recording receive loop in any order, also late, repeatedly or not at
  all. The recorder hears, from the first frame that arrives on, every frame that arrives within two
  ticks of its turn, and silence for every other; provided that the parser copies its payload.\<close>
theorem audio_heard:
  assumes "rtp_wire marshal unmarshal" "unat pt < 128" "length payloads \<le> 65536" "frames_fit 12 payloads"
    and "p = (send_tick marshal ^^ length payloads) (Stream (NewSession ssrc) payloads pt inc done)"
    and "bs = ((f, a) # b0) # b1 # bs'" "fst ` set (concat bs) \<subseteq> {..<length payloads}" "f + length bs \<le> 65537"
    and "0 < silence" "now - 20000000 < a" "a \<le> now" "case dtmf of None \<Rightarrow> True | Some c \<Rightarrow> PT c \<noteq> pt"
  shows "\<exists>rx. rx_run (Receive_step False hdr unmarshal) (path_events ((!) (st_wire p)) now bs)
        (receiver0 True silence dtmf srtp stats) = Some rx
    \<and> rx_heard rx = heard_frames ((!) payloads) silence f (map (map fst) bs)"
proof -
  obtain frames where ready: "plain_ready dtmf unmarshal (st_wire p) frames (replicate 1500 0) srtp"
      "length (st_wire p) = length payloads" "map Payload frames = payloads"
    by (rule plain_stream_ready [OF assms(1-5,12)])
  from plain_loop.recorded [OF ready(1) assms(9-11,6) _ assms(8), of hdr stats] assms(7) ready(2)
  show ?thesis by (simp add: heard_payloads [OF ready(3) assms(7)])
qed

theorem audio_heard_witness:
  "\<exists>rx. rx_run (Receive_step False (\<lambda>_. 12) rfc3550_unmarshal)
      (path_events ((!) (st_wire ((send_tick rfc3550_marshal ^^ 3) (Stream (NewSession 9) [[1], [2], [3]] 0 160 True)))) 50
        [[(0, 0)], [(2, 60)], [(2, 70)], [(1, 80)], [(0, 90)]])
      (receiver0 True 2 (Some (NewDTMFCollector 101)) None rtp_stats0) = Some rx
    \<and> rx_heard rx = [[1], [2], [3]]"
proof -
  define bs :: "(nat \<times> int) list list" where "bs = [[(0, 0)], [(2, 60)], [(2, 70)], [(1, 80)], [(0, 90)]]"
  have up: "[0..<3 :: nat] = [0, 1, 2]" by (simp add: upt_rec)
  have heard: "heard_frames ((!) [[1], [2], [3 :: byte]]) 2 0 (map (map fst) bs) = [[1], [2], [3]]"
    by (simp add: heard_frames_def up bs_def)
  have three: "length [[1], [2], [3 :: byte]] = 3" by simp
  have "fst ` set (concat bs) \<subseteq> {..<length [[1], [2], [3 :: byte]]}" "0 + length bs \<le> 65537"
    "frames_fit 12 [[1], [2], [3]]"
    by (simp_all add: bs_def frames_fit_def)
  from audio_heard [where pt = 0 and dtmf = "Some (NewDTMFCollector 101)" and ssrc = 9 and silence = 2 and now = 50 and hdr = "\<lambda>_. 12" and srtp = None
      and stats = rtp_stats0 and inc = 160, OF rfc3550.rtp_wire_axioms _ _ this(3) refl bs_def this(1,2)]
  show ?thesis unfolding three heard bs_def [symmetric] by (simp add: NewDTMFCollector_def)
qed

text \<open>C6: End to end over SRTP, with the sender's and the receiver's session on the same key: the encrypted
  stream never panics, and of up to 32768 frames the recorder hears, from the first that arrives on,
  every frame that arrives within two ticks of its turn and silence for every other, whatever the
  network reorders, repeats, delays or loses, and however the parser treats its input.\<close>
theorem secure_audio_heard:
  assumes "rtp_wire marshal unmarshal" "unat pt < 128" "length payloads \<le> 32768" "frames_fit 22 payloads"
    and "NewSRTPSenderSession c ssrc = Inr s" "NewSRTPReceiverSession c ssrc = Inr r"
    and "bs = ((f, a) # b0) # b1 # bs'" "fst ` set (concat bs) \<subseteq> {..<length payloads}" "f + length bs \<le> 65537"
    and "0 < silence" "now - 20000000 < a" "a \<le> now" "case dtmf of None \<Rightarrow> True | Some c \<Rightarrow> PT c \<noteq> pt"
  shows "\<exists>p rx. srtp_ticks marshal (length payloads) (StreamSRTP (NewSession ssrc) s payloads pt inc done) = Some p
    \<and> rx_run (ReceiveSRTP_step unmarshal) (path_events ((!) (st_wire p)) now bs)
        (receiver0 True silence dtmf (Some r) stats) = Some rx
    \<and> rx_heard rx = heard_frames ((!) payloads) silence f (map (map fst) bs)"
proof -
  obtain p raws frames where ready:
      "srtp_ticks marshal (length payloads) (StreamSRTP (NewSession ssrc) s payloads pt inc done) = Some p"
      "secure_ready dtmf unmarshal s raws (st_wire p) frames (replicate 1500 0) (Some r)"
      "length (st_wire p) = length payloads" "map Payload frames = payloads"
    by (rule secure_stream_ready [OF assms(1-6,13)])
  from secure_loop.recorded [OF ready(2) assms(10-12,7) _ assms(9), of stats] assms(8) ready(3) ready(1)
  show ?thesis by (simp add: heard_payloads [OF ready(4) assms(8)])
qed

theorem secure_audio_heard_witness:
  "\<exists>s r p rx. srtp_ticks rfc3550_marshal 3 (StreamSRTP (NewSession 9) s [[1], [2], [3]] 0 160 True) = Some p
    \<and> rx_run (ReceiveSRTP_step rfc3550_unmarshal)
        (path_events ((!) (st_wire p)) 50 [[(0, 0)], [(2, 60)], [(2, 70)], [], [(1, 90)]])
        (receiver0 True 2 (Some (NewDTMFCollector 101)) (Some r) rtp_stats0) = Some rx
    \<and> rx_heard rx = [[1], [0, 0], [3]]"
proof -
  have up: "[0..<3 :: nat] = [0, 1, 2]" by (simp add: upt_rec)
  define bs :: "(nat \<times> int) list list" where "bs = [[(0, 0)], [(2, 60)], [(2, 70)], [], [(1, 90)]]"
  have heard: "heard_frames ((!) [[1], [2], [3 :: byte]]) 2 0 (map (map fst) bs) = [[1], [0, 0], [3]]"
    by (simp add: heard_frames_def up numeral_2_eq_2 bs_def)
  have three: "length [[1], [2], [3 :: byte]] = 3" by simp
  have fits: "fst ` set (concat bs) \<subseteq> {..<length [[1], [2], [3 :: byte]]}" "0 + length bs \<le> 65537"
    "frames_fit 22 [[1], [2], [3]]"
    by (simp_all add: bs_def frames_fit_def)
  have z: "length (MasterKey zero_config) = 16" "length (MasterSalt zero_config) = 14"
    by (simp_all add: zero_config_def)
  from NewSRTPSession_total [OF z, of True 9] NewSRTPSession_total [OF z, of False 9] obtain s r where
    "NewSRTPSenderSession (Some zero_config) 9 = Inr s" "NewSRTPReceiverSession (Some zero_config) 9 = Inr r"
    by (auto simp: NewSRTPSenderSession_def NewSRTPReceiverSession_def)
  from secure_audio_heard [where pt = 0 and dtmf = "Some (NewDTMFCollector 101)" and silence = 2 and now = 50
      and stats = rtp_stats0 and inc = 160, OF rfc3550.rtp_wire_axioms _ _ fits(3) this bs_def fits(1,2)]
  show ?thesis unfolding three heard bs_def [symmetric]
    by - (rule exI [of _ s], rule exI [of _ r], simp add: NewDTMFCollector_def)
qed

end
