(* ===== verification/Rtcp.thy ===== *)
theory Rtcp
  imports Rtp_Stats
begin

text \<open>
  RTCP (\<open>core/rtp/rtcp.go\<close>): the sender report of every 5 seconds, the receiver report that answers
  a sender report, and the parser of compound packets. The clock is an oracle: the \<open>n\<close>-th call of
  \<open>time.Now\<close> (or \<open>time.Since\<close>) gives \<open>clk n\<close>, in nanoseconds since the zero time. The theory shows
  that the NTP conversion is accurate to one unit, that the parser splits a compound packet
  exactly, that the two ends agree on a sender report, where the fields of a receiver report
  are, and that the parser of receiver reports reads two of them at the wrong place.
\<close>

section \<open>State\<close>

record rtcp_stats =
  SendSSRC :: u32
  LastSRNTPCompact :: u32
  LastSRReceived :: int
  FractionLost :: byte
  CumulativeLost :: u32
  HighestSeqRecv :: u32
  rtcp_Jitter :: float64
  RTTMs :: float64

record rtcp =
  rtcp_ssrc :: u32
  sampleRate :: u32
  rtcp_stats :: rtcp_stats
  rtcp_rtpStats :: "rtp_stats option"
  rtcp_sendStats :: send_stats
  rtcp_reads :: nat
  rtcp_wire :: "bytes list"

definition NewRTCPSession :: "u32 \<Rightarrow> u32 \<Rightarrow> rtp_stats option \<Rightarrow> send_stats \<Rightarrow> rtcp" where
  "NewRTCPSession ssrc rate rtpStats sendStats =
     \<lparr>rtcp_ssrc = ssrc, sampleRate = (if rate = 0 then 8000 else rate),
      rtcp_stats = \<lparr>SendSSRC = ssrc, LastSRNTPCompact = 0, LastSRReceived = 0, FractionLost = 0,
        CumulativeLost = 0, HighestSeqRecv = 0, rtcp_Jitter = 0, RTTMs = 0\<rparr>,
      rtcp_rtpStats = rtpStats, rtcp_sendStats = sendStats, rtcp_reads = 0, rtcp_wire = []\<rparr>"

definition read_clock :: "(nat \<Rightarrow> int) \<Rightarrow> rtcp \<Rightarrow> int \<times> rtcp" where
  "read_clock clk s = (clk (rtcp_reads s), s\<lparr>rtcp_reads := rtcp_reads s + 1\<rparr>)"

section \<open>Clock conversions\<close>

text \<open>Seconds and nanoseconds of the Unix time of an instant; year 1 starts 62135596800 s before 1970.\<close>

definition unix_sec :: "int \<Rightarrow> int" where
  "unix_sec t = t div 1000000000 - 62135596800"

definition unix_nano :: "int \<Rightarrow> int" where
  "unix_nano t = i64 (t - 62135596800 * 1000000000)"

text \<open>A conversion from \<open>float64\<close> to \<open>uint32\<close> truncates; out of range it keeps the low bits, which is
  what the compiled code does on 64-bit machines.\<close>

definition float_to_u32 :: "float64 \<Rightarrow> u32" where
  "float_to_u32 x = of_int (trunc64 x)"

definition toNTP :: "int \<Rightarrow> u32 \<times> u32" where
  "toNTP t = (of_int (unix_sec t + 2208988800),
     float_to_u32 (fdiv (fmul (fint (t mod 1000000000)) (2 ^ 32)) 1000000000))"

definition duration_seconds :: "int \<Rightarrow> float64" where
  "duration_seconds d = fadd (fint (d sdiv 1000000000)) (fdiv (fint (d smod 1000000000)) 1000000000)"

definition ntp_compact :: "u32 \<times> u32 \<Rightarrow> u32" where
  "ntp_compact = (\<lambda>(sec, frac). push_bit 16 sec OR drop_bit 16 frac)"

section \<open>Reports\<close>

definition buildSR :: "(nat \<Rightarrow> int) \<Rightarrow> rtcp \<Rightarrow> bytes \<times> rtcp" where
  "buildSR clk s =
     (let (now, s) = read_clock clk s;
          (ntpSec, ntpFrac) = toNTP now;
          sent = of_int (PacketsSent (rtcp_sendStats s));
          octets = of_int (OctetsSent (rtcp_sendStats s));
          s = s\<lparr>rtcp_stats := (rtcp_stats s)\<lparr>LastSRNTPCompact := ntp_compact (ntpSec, ntpFrac),
                LastSRReceived := now\<rparr>\<rparr>
      in ([0x80, 200] @ be16 6 @ be32 (rtcp_ssrc s) @ be32 ntpSec @ be32 ntpFrac
            @ be32 (of_int (unix_nano now sdiv 125000)) @ be32 sent @ be32 octets, s))"

definition fraction_byte :: "float64 \<Rightarrow> byte" where
  "fraction_byte lossPct =
     (let f = fdiv (fmul lossPct 256) 100;
          f = (if f < 0 then 0 else f);
          frac = float_to_u32 (of_int \<lfloor>f\<rfloor>);
          frac = (if frac > 255 then 255 else frac)
      in ucast frac)"

definition jitter_units :: "u32 \<Rightarrow> float64 \<Rightarrow> u32" where
  "jitter_units rate jit = float_to_u32 (math_round (fdiv (fmul jit (fint (uint rate))) 1000))"

definition buildRR :: "(nat \<Rightarrow> int) \<Rightarrow> rtcp \<Rightarrow> bytes option \<times> rtcp" where
  "buildRR clk s = (case rtcp_rtpStats s of
       None \<Rightarrow> (None, s)
     | Some rs \<Rightarrow>
         let snap = Snapshot rs;
             cumLost = snap_PacketsLost snap;
             lsr = LastSRNTPCompact (rtcp_stats s);
             (dlsr, s) = (if LastSRReceived (rtcp_stats s) \<noteq> 0
               then let (now, s) = read_clock clk s;
                        delay = time_sub now (LastSRReceived (rtcp_stats s))
                    in (float_to_u32 (fmul (duration_seconds delay) 65536), s)
               else (0, s))
         in (Some ([0x81, 201] @ be16 7 @ be32 (rtcp_ssrc s) @ be32 (SendSSRC (rtcp_stats s))
               @ [fraction_byte (snap_PacketLossPct snap), of_int (drop_bit 16 cumLost),
                  of_int (drop_bit 8 cumLost), of_int cumLost]
               @ be32 (snap_HighestSeqExtended snap)
               @ be32 (jitter_units (sampleRate s) (snap_Jitter snap)) @ be32 lsr @ be32 dlsr), s))"

section \<open>Parsing\<close>

definition parseSR :: "(nat \<Rightarrow> int) \<Rightarrow> bytes \<Rightarrow> rtcp \<Rightarrow> rtcp" where
  "parseSR clk data s =
     (if length data < 28 then s
      else
        let ntpCompact = get32 data 10;
            (now, s) = read_clock clk s;
            s = s\<lparr>rtcp_stats := (rtcp_stats s)\<lparr>LastSRNTPCompact := ntpCompact, LastSRReceived := now\<rparr>\<rparr>;
            (rr, s) = buildRR clk s
        in case rr of None \<Rightarrow> s | Some b \<Rightarrow> s\<lparr>rtcp_wire := rtcp_wire s @ [b]\<rparr>)"

definition rtt_ms :: "u32 \<Rightarrow> u32 \<Rightarrow> u32 \<Rightarrow> float64" where
  "rtt_ms nowCompact lsr dlsr = fdiv (fint (uint (nowCompact - lsr - dlsr))) (fl64 (65536 / 1000))"

definition parseRR :: "(nat \<Rightarrow> int) \<Rightarrow> bytes \<Rightarrow> rtcp \<Rightarrow> rtcp" where
  "parseRR clk data s =
     (if length data < 32 then s
      else
        let lsr = get32 data 20; dlsr = get32 data 24 in
        if lsr = 0 then s
        else
          let (now, s) = read_clock clk s;
              (nowSec, nowFrac) = toNTP now;
              nowCompact = push_bit 16 (nowSec AND 0xFFFF) OR drop_bit 16 nowFrac
          in s\<lparr>rtcp_stats := (rtcp_stats s)\<lparr>RTTMs := rtt_ms nowCompact lsr dlsr\<rparr>\<rparr>)"

definition packet_length :: "bytes \<Rightarrow> nat" where
  "packet_length data = unat (get16 data 2) * 4 + 4"

definition parse_one :: "(nat \<Rightarrow> int) \<Rightarrow> bytes \<Rightarrow> rtcp \<Rightarrow> rtcp" where
  "parse_one clk data s =
     (if data ! 1 = 200 then parseSR clk data s else if data ! 1 = 201 then parseRR clk data s else s)"

function parseRTCP :: "(nat \<Rightarrow> int) \<Rightarrow> bytes \<Rightarrow> rtcp \<Rightarrow> rtcp" where
  "parseRTCP clk data s =
     (if length data < 4 then s
      else if packet_length data > length data then s
      else parseRTCP clk (drop (packet_length data) data)
             (parse_one clk (take (packet_length data) data) s))"
  by auto

termination
  by (relation "measure (\<lambda>(clk, data, s). length data)") (auto simp: packet_length_def)

declare parseRTCP.simps [simp del]

text \<open>A packet whose length field is right.\<close>

definition well_framed :: "bytes \<Rightarrow> bool" where
  "well_framed p \<longleftrightarrow> 4 \<le> length p \<and> packet_length p = length p"

lemma packet_length_append: "4 \<le> length p \<Longrightarrow> packet_length (p @ q) = packet_length p"
  by (simp add: packet_length_def get16_def nth_append)

text \<open>A compound packet is handled exactly as its packets in turn, however many there are and of
  whatever types; a fragment behind them that is no complete packet is ignored.\<close>
theorem compound_parsed_in_turn:
  assumes "\<And>p. p \<in> set ps \<Longrightarrow> well_framed p"
    and "length rest < 4 \<or> packet_length rest > length rest"
  shows "parseRTCP clk (concat ps @ rest) s = fold (parse_one clk) ps s"
  using assms(1)
proof (induction ps arbitrary: s)
  case Nil
  with assms(2) show ?case by (auto simp: parseRTCP.simps [of clk rest])
next
  case (Cons p ps)
  then have p: "4 \<le> length p" "packet_length p = length p" by (simp_all add: well_framed_def)
  then have "packet_length (concat (p # ps) @ rest) = length p"
    by (simp add: packet_length_append)
  then have "parseRTCP clk (concat (p # ps) @ rest) s = parseRTCP clk (concat ps @ rest) (parse_one clk p s)"
    using p by (subst parseRTCP.simps) simp
  with Cons show ?case by simp
qed

theorem compound_parsed_in_turn_witness:
  "\<forall>clk s. parseRTCP clk ([0x80, 202, 0, 1, 1, 2, 3, 4] @ [0x80, 203, 0, 0]) s = s"
proof (intro allI)
  fix clk s
  have "well_framed [0x80, 202, 0, 1, 1, 2, 3, 4]" "well_framed [0x80, 203, 0, 0]" by code_simp+
  then have "parseRTCP clk (concat [[0x80, 202, 0, 1, 1, 2, 3, 4], [0x80, 203, 0, 0]] @ []) s
      = fold (parse_one clk) [[0x80, 202, 0, 1, 1, 2, 3, 4], [0x80, 203, 0, 0]] s"
    by (intro compound_parsed_in_turn) auto
  then show "parseRTCP clk ([0x80, 202, 0, 1, 1, 2, 3, 4] @ [0x80, 203, 0, 0]) s = s"
    by (simp add: parse_one_def)
qed

section \<open>Accuracy of NTP time\<close>

lemma fl64_floor:
  assumes "0 \<le> x" "x < 2 ^ 40"
  shows "\<lfloor>x\<rfloor> \<le> \<lfloor>fl64 x\<rfloor> \<and> \<lfloor>fl64 x\<rfloor> \<le> \<lfloor>x\<rfloor> + 1"
proof -
  from assms have f: "0 \<le> \<lfloor>x\<rfloor>" "\<lfloor>x\<rfloor> < 2 ^ 40" by (auto simp: floor_less_iff)
  have "x \<le> of_int (\<lfloor>x\<rfloor> + 1)" using real_of_int_floor_add_one_ge floor_correct [of x] by simp
  then have "fl64 x \<le> of_int (\<lfloor>x\<rfloor> + 1)" using f by (intro fl64_le_int) auto
  then have "\<lfloor>fl64 x\<rfloor> \<le> \<lfloor>of_int (\<lfloor>x\<rfloor> + 1) :: rat\<rfloor>" by (rule floor_mono)
  moreover have "of_int \<lfloor>x\<rfloor> \<le> fl64 x" using f by (intro fl64_ge_int) auto
  ultimately show ?thesis by (simp add: le_floor_iff)
qed

lemma ntp_fraction:
  assumes "0 \<le> n" "n < 1000000000"
  shows "\<bar>uint (float_to_u32 (fdiv (fmul (fint n) (2 ^ 32)) 1000000000)) * 1000000000 - n * 2 ^ 32\<bar> \<le> 1000000000"
proof -
  define x :: rat where "x = of_int (n * 2 ^ 32) / 1000000000"
  have "fint n = of_int n" using assms by (intro fint_exact) simp
  moreover have "fl64 (of_int n * 2 powi 32) = of_int n * 2 powi 32" using assms by (intro fl64_exact) auto
  ultimately have y: "fdiv (fmul (fint n) (2 ^ 32)) 1000000000 = fl64 x"
    by (simp add: fdiv_def fmul_def x_def)
  have n: "n * 2 ^ 32 \<le> 999999999 * 2 ^ 32" using assms by simp
  have x: "0 \<le> x" "x < 2 ^ 40" "x < 4294967294" "x * 1000000000 = of_int (n * 2 ^ 32)"
  proof -
    show "0 \<le> x" using assms by (simp add: x_def)
    have "of_int (n * 2 ^ 32) \<le> (of_int (999999999 * 2 ^ 32) :: rat)" using n by (simp only: of_int_le_iff)
    then show "x < 4294967294" by (simp add: x_def)
    then show "x < 2 ^ 40" by simp
    show "x * 1000000000 = of_int (n * 2 ^ 32)" by (simp add: x_def)
  qed
  let ?v = "\<lfloor>fl64 x\<rfloor>"
  have v: "\<lfloor>x\<rfloor> \<le> ?v" "?v \<le> \<lfloor>x\<rfloor> + 1" using fl64_floor [OF x(1,2)] by simp_all
  have "0 \<le> \<lfloor>x\<rfloor>" "\<lfloor>x\<rfloor> < 4294967294" using x(1,3) by (simp_all add: floor_less_iff)
  with v have "0 \<le> ?v" "?v < 2 ^ LENGTH(32)" by (simp_all del: zero_le_floor floor_less_numeral)
  then have "uint (of_int ?v :: u32) = ?v" unfolding uint_word_of_int by (rule mod_pos_pos_trivial)
  then have u: "uint (float_to_u32 (fl64 x)) = ?v"
    using x(1) by (simp add: float_to_u32_def trunc64_def fl64_nonneg)
  have "of_int ?v * 1000000000 \<le> (x + 1) * 1000000000" "(x - 1) * 1000000000 \<le> of_int ?v * 1000000000"
  proof -
    have "of_int ?v \<le> (of_int (\<lfloor>x\<rfloor> + 1) :: rat)" "of_int \<lfloor>x\<rfloor> \<le> (of_int ?v :: rat)"
      using v by (simp_all only: of_int_le_iff)
    moreover have "of_int \<lfloor>x\<rfloor> \<le> x" "x < of_int \<lfloor>x\<rfloor> + 1" using floor_correct [of x] by simp_all
    ultimately have "of_int ?v \<le> x + 1" "x - 1 \<le> of_int ?v" unfolding of_int_add by linarith+
    then show "of_int ?v * 1000000000 \<le> (x + 1) * 1000000000" "(x - 1) * 1000000000 \<le> of_int ?v * 1000000000"
      by simp_all
  qed
  then have "of_int (?v * 1000000000) \<le> (of_int (n * 2 ^ 32 + 1000000000) :: rat)"
    "(of_int (n * 2 ^ 32 - 1000000000) :: rat) \<le> of_int (?v * 1000000000)"
    using x(4) by (simp_all add: algebra_simps)
  then have "?v * 1000000000 \<le> n * 2 ^ 32 + 1000000000" "n * 2 ^ 32 - 1000000000 \<le> ?v * 1000000000"
    by (simp_all only: of_int_le_iff)
  then show ?thesis unfolding y u by (simp add: abs_le_iff)
qed

text \<open>The NTP time of an instant has its seconds since 1900, and a fraction that is its nanosecond
  part in units of \<open>2^-32\<close> seconds, at most one unit off in spite of the floating-point division.\<close>
theorem toNTP_accurate:
  "fst (toNTP t) = of_int (t div 1000000000 - 62135596800 + 2208988800)
   \<and> \<bar>uint (snd (toNTP t)) * 1000000000 - (t mod 1000000000) * 2 ^ 32\<bar> \<le> 1000000000"
  using ntp_fraction [of "t mod 1000000000"] by (simp add: toNTP_def unix_sec_def)

section \<open>Sender reports between two ends\<close>

lemma mid32: "push_bit 24 (ucast (ucast (drop_bit 8 a) :: byte)) OR push_bit 16 (ucast (ucast a :: byte))
    OR push_bit 8 (ucast (ucast (drop_bit 24 b) :: byte)) OR ucast (ucast (drop_bit 16 b) :: byte)
    = push_bit 16 a OR drop_bit 16 (b :: u32)" (is "?l = ?r")
proof (rule bit_word_eqI)
  fix n
  assume "n < LENGTH(32)"
  then show "bit ?l n = bit ?r n"
    by (cases "n < 8"; cases "n < 16"; cases "n < 24") (auto simp: bit_simps dest: bit_imp_le_length)
qed

lemma get32_middle: "length xs = n \<Longrightarrow> get32 (xs @ be32 a @ be32 b @ ys) (n + 2) = ntp_compact (a, b)"
  using mid32 [of a b] by (auto simp: get32_def be32_def nth_append ntp_compact_def)

lemma parse_single: "well_framed p \<Longrightarrow> parseRTCP clk p s = parse_one clk p s"
  by (auto simp: well_framed_def parseRTCP.simps [of clk p] parseRTCP.simps [of clk "[]"])

lemma header_length: "packet_length (a # b # be16 k @ ys) = unat k * 4 + 4"
  using get16_at [of "[a, b]" 2 k ys] by (simp add: packet_length_def)

text \<open>A sender report as the receiver sees it.\<close>

lemma buildSR_wire:
  shows "well_framed (fst (buildSR clk s))" "length (fst (buildSR clk s)) = 28"
    "fst (buildSR clk s) ! Suc 0 = 200" "get32 (fst (buildSR clk s)) 10 = ntp_compact (toNTP (clk (rtcp_reads s)))"
proof -
  let ?t = "toNTP (clk (rtcp_reads s))" and ?h = "0x80 # 200 # be16 6 @ be32 (rtcp_ssrc s)"
  obtain rest where sr: "fst (buildSR clk s) = ?h @ be32 (fst ?t) @ be32 (snd ?t) @ rest" and "length rest = 12"
    by (simp add: buildSR_def read_clock_def Let_def split_beta)
  then show len: "length (fst (buildSR clk s)) = 28" by simp
  show "fst (buildSR clk s) ! Suc 0 = 200" by (simp add: sr)
  have "packet_length (fst (buildSR clk s)) = 28" by (simp add: sr header_length)
  with len show "well_framed (fst (buildSR clk s))" by (simp add: well_framed_def)
  show "get32 (fst (buildSR clk s)) 10 = ntp_compact ?t"
    using get32_middle [of ?h 8 "fst ?t" "snd ?t" rest] by (simp add: sr)
qed

text \<open>A receiver report: header, sender, and one report block with its fields at their places.\<close>

lemma buildRR_some:
  assumes "rtcp_rtpStats s = Some rs"
  obtains dlsr s' where "buildRR clk s = (Some (129 # 201 # be16 7 @ be32 (rtcp_ssrc s)
      @ be32 (SendSSRC (rtcp_stats s)) @ [fraction_byte (lossPercent rs), of_int (drop_bit 16 (PacketsLost rs)),
           of_int (drop_bit 8 (PacketsLost rs)), of_int (PacketsLost rs)]
      @ be32 (highestSeqExtended rs) @ be32 (jitter_units (sampleRate s) (Jitter rs))
      @ be32 (LastSRNTPCompact (rtcp_stats s)) @ be32 dlsr), s')"
    "rtcp_stats s' = rtcp_stats s" "rtcp_wire s' = rtcp_wire s"
proof (cases "LastSRReceived (rtcp_stats s) = 0")
  case True
  with assms show ?thesis by (intro that [of 0 s]) (simp_all add: buildRR_def Snapshot_def Let_def)
next
  case False
  let ?d = "time_sub (clk (rtcp_reads s)) (LastSRReceived (rtcp_stats s))"
  from False assms show ?thesis
    by (intro that [of "float_to_u32 (fmul (duration_seconds ?d) 65536)" "snd (read_clock clk s)"])
      (simp_all add: buildRR_def Snapshot_def Let_def read_clock_def)
qed

text \<open>C28: A sender report parses at the other end: the receiver remembers the compact NTP time of the
  sender's clock reading with the time of its own, and answers at once with one receiver report.\<close>
theorem sender_report_received:
  assumes "rtcp_rtpStats r = Some rs"
  shows "\<exists>rr. LastSRNTPCompact (rtcp_stats (parseRTCP clk' (fst (buildSR clk s)) r))
        = ntp_compact (toNTP (clk (rtcp_reads s)))
    \<and> LastSRReceived (rtcp_stats (parseRTCP clk' (fst (buildSR clk s)) r)) = clk' (rtcp_reads r)
    \<and> rtcp_wire (parseRTCP clk' (fst (buildSR clk s)) r) = rtcp_wire r @ [rr] \<and> length rr = 32"
proof -
  let ?s1 = "snd (read_clock clk' r)"
  let ?s2 = "?s1\<lparr>rtcp_stats := (rtcp_stats ?s1)\<lparr>LastSRNTPCompact := ntp_compact (toNTP (clk (rtcp_reads s))),
    LastSRReceived := clk' (rtcp_reads r)\<rparr>\<rparr>"
  have "rtcp_rtpStats ?s2 = Some rs" using assms by (simp add: read_clock_def)
  then obtain rr s' where rr: "buildRR clk' ?s2 = (Some rr, s')" "length rr = 32"
      "rtcp_stats s' = rtcp_stats ?s2" "rtcp_wire s' = rtcp_wire ?s2"
    using buildRR_some [of ?s2 rs clk' thesis] by (simp add: length_be16 length_be32)
  have "parseRTCP clk' (fst (buildSR clk s)) r = s'\<lparr>rtcp_wire := rtcp_wire s' @ [rr]\<rparr>"
    using rr(1) by (simp add: parse_single buildSR_wire parse_one_def parseSR_def Let_def read_clock_def)
  with rr show ?thesis by (simp add: read_clock_def)
qed

theorem sender_report_received_witness:
  "LastSRNTPCompact (rtcp_stats (parseRTCP (\<lambda>_. 5) (fst (buildSR (\<lambda>_. 62135596800500000000)
       (NewRTCPSession 7 8000 None send_stats0))) (NewRTCPSession 8 8000 (Some rtp_stats0) send_stats0)))
    = ntp_compact (toNTP 62135596800500000000)"
proof -
  have "rtcp_rtpStats (NewRTCPSession 8 8000 (Some rtp_stats0) send_stats0) = Some rtp_stats0"
    by (simp add: NewRTCPSession_def)
  from sender_report_received [OF this] show ?thesis by blast
qed

section \<open>Receiver reports\<close>

lemma rr_fields:
  assumes "rr = 129 # 201 # be16 7 @ be32 a @ be32 b @ [f, c1, c2, c3] @ be32 h @ be32 j @ be32 lsr @ be32 dlsr"
  shows "well_framed rr" "length rr = 32" "rr ! Suc 0 = 201" "rr ! 12 = f" "get32 rr 16 = h" "get32 rr 20 = j"
    "get32 rr 24 = lsr" "get32 rr 28 = dlsr"
proof -
  let ?x = "129 # 201 # be16 7 @ be32 a @ be32 b @ [f, c1, c2, c3]"
  show "length rr = 32" "rr ! Suc 0 = 201" "rr ! 12 = f"
    unfolding assms by (simp_all add: be16_def be32_def)
  have "packet_length rr = 32" unfolding assms by (simp add: header_length)
  with \<open>length rr = 32\<close> show "well_framed rr" by (simp add: well_framed_def)
  show "get32 rr 16 = h" using get32_at [of ?x 16 h "be32 j @ be32 lsr @ be32 dlsr"] by (simp add: assms)
  show "get32 rr 20 = j" using get32_at [of "?x @ be32 h" 20 j "be32 lsr @ be32 dlsr"] by (simp add: assms)
  show "get32 rr 24 = lsr" using get32_at [of "?x @ be32 h @ be32 j" 24 lsr "be32 dlsr"] by (simp add: assms)
  show "get32 rr 28 = dlsr" using get32_at [of "?x @ be32 h @ be32 j @ be32 lsr" 28 dlsr "[]"] by (simp add: assms)
qed

text \<open>The receiver report that the code builds has the fields of RFC 3550 at their places: fraction
  lost, extended highest sequence number, jitter, and the compact time of the last sender report.\<close>
theorem receiver_report_layout:
  assumes "rtcp_rtpStats s = Some rs"
  shows "\<exists>rr. fst (buildRR clk s) = Some rr \<and> length rr = 32
    \<and> rr ! 12 = fraction_byte (lossPercent rs) \<and> get32 rr 16 = highestSeqExtended rs
    \<and> get32 rr 20 = jitter_units (sampleRate s) (Jitter rs)
    \<and> get32 rr 24 = LastSRNTPCompact (rtcp_stats s)"
proof -
  from buildRR_some [OF assms, of clk] obtain rr s' a b c1 c2 c3 dlsr where
    "buildRR clk s = (Some rr, s')" and
    "rr = 129 # 201 # be16 7 @ be32 a @ be32 b @ [fraction_byte (lossPercent rs), c1, c2, c3]
      @ be32 (highestSeqExtended rs) @ be32 (jitter_units (sampleRate s) (Jitter rs))
      @ be32 (LastSRNTPCompact (rtcp_stats s)) @ be32 dlsr"
    by metis
  with rr_fields [OF this(2)] show ?thesis by simp
qed

theorem receiver_report_layout_witness:
  "\<exists>rr. fst (buildRR (\<lambda>_. 0) ((NewRTCPSession 8 8000 (Some (rtp_stats0\<lparr>highestSeqExtended := 65540\<rparr>)) send_stats0))) = Some rr
     \<and> get32 rr 16 = 65540 \<and> get32 rr 24 = 0"
proof -
  let ?s = "NewRTCPSession 8 8000 (Some (rtp_stats0\<lparr>highestSeqExtended := 65540\<rparr>)) send_stats0"
  have "rtcp_rtpStats ?s = Some (rtp_stats0\<lparr>highestSeqExtended := 65540\<rparr>)"
    and "LastSRNTPCompact (rtcp_stats ?s) = 0" by (simp_all add: NewRTCPSession_def)
  with receiver_report_layout [OF this(1), of "\<lambda>_. 0"] show ?thesis by auto
qed

text \<open>The parser of receiver reports reads the jitter field as LSR and the LSR field as DLSR: from a
  report of this program it computes a round trip of \<open>now - jitter - LSR\<close>, and none at all when the
  jitter is 0.\<close>
theorem rtt_from_wrong_fields:
  assumes "rtcp_rtpStats r = Some rs" "fst (buildRR clk r) = Some rr"
    and "jit = jitter_units (sampleRate r) (Jitter rs)"
    and "(now, nowFrac) = toNTP (clk' (rtcp_reads s))"
  shows "RTTMs (rtcp_stats (parseRTCP clk' rr s)) =
    (if jit = 0 then RTTMs (rtcp_stats s)
     else rtt_ms (push_bit 16 (now AND 0xFFFF) OR drop_bit 16 nowFrac) jit (LastSRNTPCompact (rtcp_stats r)))"
proof -
  from buildRR_some [OF assms(1), of clk] obtain a b f c1 c2 c3 h dlsr where
    "rr = 129 # 201 # be16 7 @ be32 a @ be32 b @ [f, c1, c2, c3] @ be32 h @ be32 jit
      @ be32 (LastSRNTPCompact (rtcp_stats r)) @ be32 dlsr"
    unfolding assms(3) using assms(2) by (metis fst_conv option.inject)
  from rr_fields [OF this] show ?thesis
    using assms(4) [symmetric] by (simp add: parse_single parse_one_def parseRR_def Let_def read_clock_def)
qed

theorem rtt_from_wrong_fields_witness:
  "\<exists>rr. fst (buildRR (\<lambda>_. 0) (NewRTCPSession 8 8000 (Some rtp_stats0) send_stats0)) = Some rr
    \<and> RTTMs (rtcp_stats (parseRTCP (\<lambda>_. 0) rr (NewRTCPSession 9 8000 None send_stats0))) = 0"
proof -
  let ?r = "NewRTCPSession 8 8000 (Some rtp_stats0) send_stats0" and ?s = "NewRTCPSession 9 8000 None send_stats0"
  have r: "rtcp_rtpStats ?r = Some rtp_stats0" by (simp add: NewRTCPSession_def)
  then obtain rr where rr: "fst (buildRR (\<lambda>_. 0) ?r) = Some rr" by (rule buildRR_some [where clk = "\<lambda>_. 0"]) simp
  have "jitter_units (sampleRate ?r) (Jitter rtp_stats0) = 0"
    by (simp add: jitter_units_def NewRTCPSession_def rtp_stats0_def fmul_def fdiv_def float_to_u32_def trunc64_def
        math_round_of_int [of 0, simplified])
  then have "RTTMs (rtcp_stats (parseRTCP (\<lambda>_. 0) rr ?s)) = RTTMs (rtcp_stats ?s)"
    using rtt_from_wrong_fields [OF r rr refl prod.collapse, of "\<lambda>_. 0" ?s] by simp
  with rr show ?thesis by (simp add: NewRTCPSession_def)
qed

end
