(* ===== verification/Rtcp_Life.thy ===== *)
theory Rtcp_Life
  imports Rtcp Steps
begin

text \<open>
  The goroutines of an RTCP session (\<open>Run\<close> and \<open>receiveLoop\<close> of \<open>core/rtp/rtcp.go\<close>, with the goroutine of
  \<open>Dial\<close> that runs and then closes it): a sender that reports every 5 seconds and a receiver that
  polls its socket, both until the call ends, as an interleaved step relation over the session
  of the theory \<open>Rtcp\<close>.
\<close>

section \<open>The goroutines\<close>

text \<open>The sender: in the \<open>select\<close>, at the wait for the receiver, after \<open>Run\<close>, after \<open>Close\<close>. The receiver: at
  the check of \<open>stop\<close>, in \<open>ReadFrom\<close> (with a deadline of one second), returned.\<close>

datatype rtcp_main = RSelect | RJoin | RReturned | RClosed

datatype rtcp_recv = VCheck | VRead | VExit

text \<open>\<open>rl_read_closed\<close> is set by a read on a socket that is already closed.\<close>

record rtcp_life =
  rl_main :: rtcp_main
  rl_recv :: rtcp_recv
  rl_stop :: bool
  rl_sess :: rtcp
  rl_ticks :: nat
  rl_read_closed :: bool

definition rtcp_life_start :: "rtcp \<Rightarrow> rtcp_life" where
  "rtcp_life_start sess = \<lparr>rl_main = RSelect, rl_recv = VCheck, rl_stop = False, rl_sess = sess, rl_ticks = 0,
     rl_read_closed = False\<rparr>"

definition send_report :: "(nat \<Rightarrow> int) \<Rightarrow> rtcp \<Rightarrow> rtcp" where
  "send_report clk sess = (let (sr, sess) = buildSR clk sess in sess\<lparr>rtcp_wire := rtcp_wire sess @ [sr]\<rparr>)"

inductive Run_step :: "(nat \<Rightarrow> int) \<Rightarrow> rtcp_life \<Rightarrow> rtcp_life \<Rightarrow> bool" for clk where
  rtcp_tick: "rl_main s = RSelect \<Longrightarrow>
    Run_step clk s (s\<lparr>rl_sess := send_report clk (rl_sess s), rl_ticks := rl_ticks s + 1\<rparr>)"
| rtcp_stopped: "rl_main s = RSelect \<Longrightarrow> rl_stop s \<Longrightarrow> Run_step clk s (s\<lparr>rl_main := RJoin\<rparr>)"
| rtcp_joined: "rl_main s = RJoin \<Longrightarrow> rl_recv s = VExit \<Longrightarrow> Run_step clk s (s\<lparr>rl_main := RReturned\<rparr>)"
| rtcp_close: "rl_main s = RReturned \<Longrightarrow> Run_step clk s (s\<lparr>rl_main := RClosed\<rparr>)"

inductive receiveLoop_step :: "(nat \<Rightarrow> int) \<Rightarrow> rtcp_life \<Rightarrow> rtcp_life \<Rightarrow> bool" for clk where
  recv_stopped: "rl_recv s = VCheck \<Longrightarrow> rl_stop s \<Longrightarrow> receiveLoop_step clk s (s\<lparr>rl_recv := VExit\<rparr>)"
| recv_checked: "rl_recv s = VCheck \<Longrightarrow> \<not> rl_stop s \<Longrightarrow>
    receiveLoop_step clk s (s\<lparr>rl_recv := VRead, rl_read_closed := rl_read_closed s \<or> rl_main s = RClosed\<rparr>)"
| recv_timeout: "rl_recv s = VRead \<Longrightarrow> receiveLoop_step clk s (s\<lparr>rl_recv := VCheck\<rparr>)"
| recv_packet: "rl_recv s = VRead \<Longrightarrow> length data \<le> 1500 \<Longrightarrow>
    receiveLoop_step clk s (s\<lparr>rl_recv := VCheck, rl_sess := parseRTCP clk data (rl_sess s)\<rparr>)"

text \<open>The rest of the program: the end of the call, and the work of the media goroutines on the statistics
  that the reports read.\<close>

inductive call_step :: "(nat \<Rightarrow> int) \<Rightarrow> rtcp_life \<Rightarrow> rtcp_life \<Rightarrow> bool" for clk where
  rtcp_hangup: "call_step clk s (s\<lparr>rl_stop := True\<rparr>)"
| rtcp_media: "call_step clk s (s\<lparr>rl_sess := (rl_sess s)\<lparr>rtcp_rtpStats := map_option f (rtcp_rtpStats (rl_sess s)),
    rtcp_sendStats := g (rtcp_sendStats (rl_sess s))\<rparr>\<rparr>)"

inductive rtcp_step :: "(nat \<Rightarrow> int) \<Rightarrow> rtcp_life \<Rightarrow> rtcp_life \<Rightarrow> bool" for clk where
  by_Run: "Run_step clk s s' \<Longrightarrow> rtcp_step clk s s'"
| by_receiveLoop: "receiveLoop_step clk s s' \<Longrightarrow> rtcp_step clk s s'"
| by_call: "call_step clk s s' \<Longrightarrow> rtcp_step clk s s'"

inductive_cases Run_stepE: "Run_step clk s s'"
inductive_cases receiveLoop_stepE: "receiveLoop_step clk s s'"
inductive_cases call_stepE: "call_step clk s s'"
inductive_cases rtcp_stepE: "rtcp_step clk s s'"

section \<open>What the reports leave alone\<close>

text \<open>The sender reports on the wire.\<close>

definition reports_sent :: "rtcp \<Rightarrow> nat" where
  "reports_sent sess = length (filter (\<lambda>p. p ! 1 = 200) (rtcp_wire sess))"

text \<open>The figures of the peer's receiver reports, which the result of the call repeats.\<close>

definition loss_figures :: "rtcp \<Rightarrow> byte \<times> u32 \<times> u32" where
  "loss_figures sess = (FractionLost (rtcp_stats sess), CumulativeLost (rtcp_stats sess), HighestSeqRecv (rtcp_stats sess))"

lemma send_report_keeps:
  "loss_figures (send_report clk sess) = loss_figures sess"
  "reports_sent (send_report clk sess) = Suc (reports_sent sess)"
  by (simp_all add: send_report_def buildSR_def read_clock_def loss_figures_def reports_sent_def split_beta Let_def)

lemma buildRR_keeps:
  "loss_figures (snd (buildRR clk sess)) = loss_figures sess"
  "rtcp_wire (snd (buildRR clk sess)) = rtcp_wire sess"
  "fst (buildRR clk sess) = Some b \<Longrightarrow> b ! 1 = 201"
  by (auto simp: buildRR_def read_clock_def loss_figures_def split_beta Let_def split: option.splits)

lemma parseSR_keeps:
  "loss_figures (parseSR clk data sess) = loss_figures sess \<and> reports_sent (parseSR clk data sess) = reports_sent sess"
proof (cases "length data < 28")
  case False
  define s1 where "s1 = sess\<lparr>rtcp_reads := rtcp_reads sess + 1, rtcp_stats := (rtcp_stats sess)
    \<lparr>LastSRNTPCompact := get32 data 10, LastSRReceived := clk (rtcp_reads sess)\<rparr>\<rparr>"
  have s1: "loss_figures s1 = loss_figures sess" "rtcp_wire s1 = rtcp_wire sess"
    by (simp_all add: s1_def loss_figures_def)
  obtain rr s2 where s2: "buildRR clk s1 = (rr, s2)" by fastforce
  have "parseSR clk data sess = (case buildRR clk s1 of (rr, s) \<Rightarrow>
      case rr of None \<Rightarrow> s | Some b \<Rightarrow> s\<lparr>rtcp_wire := rtcp_wire s @ [b]\<rparr>)"
    using False by (simp add: parseSR_def s1_def read_clock_def Let_def)
  with s1 s2 buildRR_keeps [of clk s1] show ?thesis
    by (auto simp: reports_sent_def loss_figures_def split: option.split)
qed (simp add: parseSR_def)

lemma parseRR_keeps:
  "loss_figures (parseRR clk data sess) = loss_figures sess \<and> reports_sent (parseRR clk data sess) = reports_sent sess"
  by (auto simp: parseRR_def read_clock_def loss_figures_def reports_sent_def split_beta Let_def)

lemma parseRTCP_keeps:
  "loss_figures (parseRTCP clk data sess) = loss_figures sess \<and> reports_sent (parseRTCP clk data sess) = reports_sent sess"
proof (induction clk data sess rule: parseRTCP.induct)
  case (1 clk data sess)
  have "loss_figures (parse_one clk p sess) = loss_figures sess \<and> reports_sent (parse_one clk p sess) = reports_sent sess" for p
    using parseSR_keeps parseRR_keeps by (auto simp: parse_one_def)
  with 1 show ?case by (subst (1 2) parseRTCP.simps) auto
qed

section \<open>Invariant and completion\<close>

definition rtcp_inv :: "byte \<times> u32 \<times> u32 \<Rightarrow> rtcp_life \<Rightarrow> bool" where
  "rtcp_inv figures s \<longleftrightarrow> loss_figures (rl_sess s) = figures \<and> reports_sent (rl_sess s) = rl_ticks s
     \<and> (rl_main s \<noteq> RSelect \<longrightarrow> rl_stop s) \<and> (rl_main s = RReturned \<or> rl_main s = RClosed \<longrightarrow> rl_recv s = VExit)
     \<and> \<not> rl_read_closed s"

lemma rtcp_inv_Run: "Run_step clk s s' \<Longrightarrow> rtcp_inv figures s \<Longrightarrow> rtcp_inv figures s'"
  by (auto elim!: Run_stepE simp: rtcp_inv_def send_report_keeps)

lemma rtcp_inv_receiveLoop: "receiveLoop_step clk s s' \<Longrightarrow> rtcp_inv figures s \<Longrightarrow> rtcp_inv figures s'"
  by (auto elim!: receiveLoop_stepE simp: rtcp_inv_def parseRTCP_keeps)

lemma rtcp_inv_call: "call_step clk s s' \<Longrightarrow> rtcp_inv figures s \<Longrightarrow> rtcp_inv figures s'"
  by (auto elim!: call_stepE simp: rtcp_inv_def loss_figures_def reports_sent_def)

lemma rtcp_inv_step: "rtcp_step clk s s' \<Longrightarrow> rtcp_inv figures s \<Longrightarrow> rtcp_inv figures s'"
  by (blast elim: rtcp_stepE dest: rtcp_inv_Run rtcp_inv_receiveLoop rtcp_inv_call)

interpretation rtcp_goroutines: invariant_steps "rtcp_step clk" "rtcp_inv figures" for clk figures
  by unfold_locales (rule rtcp_inv_step)

fun main_left :: "rtcp_main \<Rightarrow> nat" where
  "main_left RSelect = 3" | "main_left RJoin = 2" | "main_left RReturned = 1" | "main_left RClosed = 0"

fun recv_left :: "rtcp_recv \<Rightarrow> nat" where
  "recv_left VRead = 2" | "recv_left VCheck = 1" | "recv_left VExit = 0"

lemma rtcp_moves:
  assumes "rl_stop s" "rl_main s \<noteq> RClosed"
  shows "\<exists>s'. rtcp_step clk s s' \<and> main_left (rl_main s') + recv_left (rl_recv s') < main_left (rl_main s) + recv_left (rl_recv s)"
proof (cases "rl_recv s")
  case VRead
  show ?thesis by (rule exI, rule conjI, rule by_receiveLoop, rule recv_timeout [OF VRead]) (simp add: VRead)
next
  case VCheck
  show ?thesis by (rule exI, rule conjI, rule by_receiveLoop, rule recv_stopped [OF VCheck assms(1)]) (simp add: VCheck)
next
  case VExit
  show ?thesis
  proof (cases "rl_main s")
    case RSelect
    show ?thesis by (rule exI, rule conjI, rule by_Run, rule rtcp_stopped [OF RSelect assms(1)]) (simp add: RSelect)
  next
    case RJoin
    show ?thesis by (rule exI, rule conjI, rule by_Run, rule rtcp_joined [OF RJoin VExit]) (simp add: RJoin)
  next
    case RReturned
    show ?thesis by (rule exI, rule conjI, rule by_Run, rule rtcp_close [OF RReturned]) (simp add: RReturned)
  qed (use assms in simp)
qed

interpretation rtcp_end: draining_steps "rtcp_step clk" "rl_stop" "\<lambda>s. main_left (rl_main s) + recv_left (rl_recv s)"
    "\<lambda>s. rl_main s = RClosed" for clk
proof unfold_locales
  fix s :: rtcp_life
  assume "rl_stop s" "rl_main s \<noteq> RClosed"
  then show "\<exists>s'. rtcp_step clk s s' \<and>
      main_left (rl_main s') + recv_left (rl_recv s') < main_left (rl_main s) + recv_left (rl_recv s)"
    by (rule rtcp_moves)
qed (auto elim!: rtcp_stepE Run_stepE receiveLoop_stepE call_stepE)

text \<open>C38: An RTCP session from its creation on, whatever packets arrive and however its goroutines interleave:
  every tick has put exactly one sender report on the wire; the socket is closed only after both
  goroutines have ended, so that nothing reads from a closed socket; once the call has ended the
  goroutines can end, which the end of the call waits for. But the loss figures stay at zero:
  nothing stores what the peer's receiver reports say, and the result of the call repeats the zeros.\<close>
theorem rtcp_session_life:
  assumes "(rtcp_step clk)\<^sup>*\<^sup>* (rtcp_life_start (NewRTCPSession ssrc rate rtpStats sendStats)) s"
  shows "reports_sent (rl_sess s) = rl_ticks s
    \<and> (rl_main s = RClosed \<longrightarrow> rl_stop s \<and> rl_recv s = VExit) \<and> \<not> rl_read_closed s
    \<and> (rl_stop s \<longrightarrow> (\<exists>s'. (rtcp_step clk)\<^sup>*\<^sup>* s s' \<and> rl_main s' = RClosed))
    \<and> FractionLost (rtcp_stats (rl_sess s)) = 0 \<and> CumulativeLost (rtcp_stats (rl_sess s)) = 0"
proof -
  have "rtcp_inv (0, 0, 0) (rtcp_life_start (NewRTCPSession ssrc rate rtpStats sendStats))"
    by (simp add: rtcp_inv_def rtcp_life_start_def NewRTCPSession_def loss_figures_def reports_sent_def)
  from rtcp_goroutines.reached [OF assms this] rtcp_end.drains [of s clk] show ?thesis
    by (auto simp: rtcp_inv_def loss_figures_def)
qed

definition rtcp_sample :: rtcp where
  "rtcp_sample = NewRTCPSession 7 8000 None send_stats0"

theorem rtcp_session_life_witness:
  "\<exists>s s'. (rtcp_step (\<lambda>n. 0))\<^sup>*\<^sup>* (rtcp_life_start rtcp_sample) s \<and> reports_sent (rl_sess s) = 1 \<and> rl_stop s
    \<and> (rtcp_step (\<lambda>n. 0))\<^sup>*\<^sup>* s s' \<and> rl_main s' = RClosed"
proof -
  let ?s0 = "rtcp_life_start rtcp_sample"
  define s1 where "s1 = ?s0\<lparr>rl_sess := send_report (\<lambda>n. 0) (rl_sess ?s0), rl_ticks := rl_ticks ?s0 + 1\<rparr>"
  define s2 where "s2 = s1\<lparr>rl_stop := True\<rparr>"
  have "rtcp_step (\<lambda>n. 0) ?s0 s1" unfolding s1_def by (rule by_Run, rule rtcp_tick) (simp add: rtcp_life_start_def)
  moreover have "rtcp_step (\<lambda>n. 0) s1 s2" unfolding s2_def by (rule by_call, rule rtcp_hangup)
  ultimately have r: "(rtcp_step (\<lambda>n. 0))\<^sup>*\<^sup>* ?s0 s2" by (meson converse_rtranclp_into_rtranclp rtranclp.rtrancl_refl)
  have t: "rl_ticks s2 = 1" "rl_stop s2" by (simp_all add: s2_def s1_def rtcp_life_start_def)
  from rtcp_session_life [OF r [unfolded rtcp_sample_def]] t obtain s' where
    "reports_sent (rl_sess s2) = 1" "(rtcp_step (\<lambda>n. 0))\<^sup>*\<^sup>* s2 s'" "rl_main s' = RClosed" by auto
  with r t(2) show ?thesis by blast
qed

end
