(* ===== verification/G722.thy ===== *)
theory G722
  imports Prelude
begin

text \<open>
  The two-band ADPCM codec of \<open>core/codec/g722.go\<close>. Samples and state are \<open>int16\<close> and \<open>int32\<close>
  values; every \<open>int32\<close> operation of the code wraps in the model. The theory shows that the
  decoder reproduces the encoder's predictor exactly on every input, that no operation ever
  overflows, how far a reconstructed band sample is from the original, and that digital silence
  is not reproduced.
\<close>

section \<open>The codec\<close>

record g722 =
  sl :: int
  dl :: int
  el :: int
  det0 :: int
  det1 :: int
  su :: int
  du :: int

definition g722_0 :: g722 where
  "g722_0 = \<lparr>sl = 0, dl = 0, el = 0, det0 = 0, det1 = 0, su = 0, du = 0\<rparr>"

definition clamp :: "int \<Rightarrow> int \<Rightarrow> int \<Rightarrow> int" where
  "clamp v lo hi = (if v < lo then lo else if v > hi then hi else v)"

definition saturate32 :: "int \<Rightarrow> int" where
  "saturate32 v = (if v > 32767 then 32767 else if v < -32768 then -32768 else v)"

definition saturate16 :: "int \<Rightarrow> int" where
  "saturate16 v = (if v > 32767 then 32767 else if v < -32768 then -32768 else i16 v)"

definition adaptPredict :: "int \<Rightarrow> int \<Rightarrow> int" where
  "adaptPredict s d = saturate32 (i32 (s + d))"

definition updateStep :: "int \<Rightarrow> int \<Rightarrow> bool \<Rightarrow> int" where
  "updateStep det q isLow =
     (let det = (if q = 0 then drop_bit 3 (i32 (det * 7)) else drop_bit 3 (i32 (det * 9)))
      in if det < 8 then 8 else if det > 32767 then 32767 else det)"

definition dequantLow :: "int \<Rightarrow> int \<Rightarrow> int" where
  "dequantLow q step =
     (let (sign, mag) = (if q \<ge> 32 then (-1, i32 (q - 32)) else (1, q))
      in i32 (i32 (sign * mag) * step))"

definition dequantHigh :: "int \<Rightarrow> int \<Rightarrow> int" where
  "dequantHigh q step =
     (if q \<ge> 2 then i32 (i32 (- i32 (i32 (q - 2) + 1)) * step) else i32 (i32 (q + 1) * step))"

definition min_step :: "int \<Rightarrow> int" where
  "min_step step = (if step < 8 then 8 else step)"

definition adpcmEncodeLow :: "g722 \<Rightarrow> int \<Rightarrow> int \<times> g722" where
  "adpcmEncodeLow s xL =
     (let e = i32 (xL - sl s);
          s = s\<lparr>el := e\<rparr>;
          step = min_step (det0 s);
          q = (if e < 0 then i32 (32 + clamp (i32 (i32 (- e) sdiv step)) 0 31)
               else clamp (i32 (e sdiv step)) 0 31);
          s = s\<lparr>dl := dequantLow q step\<rparr>;
          s = s\<lparr>sl := adaptPredict (sl s) (dl s)\<rparr>;
          s = s\<lparr>det0 := updateStep (det0 s) q True\<rparr>
      in (q, s))"

definition adpcmEncodeHigh :: "g722 \<Rightarrow> int \<Rightarrow> int \<times> g722" where
  "adpcmEncodeHigh s xH =
     (let e = i32 (xH - su s);
          step = min_step (det1 s);
          q = (if e < 0 then i32 (2 + clamp (i32 (i32 (- e) sdiv step)) 0 1)
               else clamp (i32 (e sdiv step)) 0 1);
          s = s\<lparr>du := dequantHigh q step\<rparr>;
          s = s\<lparr>su := adaptPredict (su s) (du s)\<rparr>;
          s = s\<lparr>det1 := updateStep (det1 s) q False\<rparr>
      in (q, s))"

definition adpcmDecodeLow :: "g722 \<Rightarrow> int \<Rightarrow> int \<times> g722" where
  "adpcmDecodeLow s q =
     (let step = min_step (det0 s);
          s = s\<lparr>dl := dequantLow q step\<rparr>;
          s = s\<lparr>sl := adaptPredict (sl s) (dl s)\<rparr>;
          s = s\<lparr>det0 := updateStep (det0 s) q True\<rparr>
      in (sl s, s))"

definition adpcmDecodeHigh :: "g722 \<Rightarrow> int \<Rightarrow> int \<times> g722" where
  "adpcmDecodeHigh s q =
     (let step = min_step (det1 s);
          s = s\<lparr>du := dequantHigh q step\<rparr>;
          s = s\<lparr>su := adaptPredict (su s) (du s)\<rparr>;
          s = s\<lparr>det1 := updateStep (det1 s) q False\<rparr>
      in (su s, s))"

text \<open>One pair of samples, one byte.\<close>

definition band_split :: "int \<Rightarrow> int \<Rightarrow> int \<times> int" where
  "band_split x0 x1 = (drop_bit 1 (i32 (x0 + x1)), drop_bit 1 (i32 (x0 - x1)))"

definition encode_pair :: "g722 \<Rightarrow> int \<Rightarrow> int \<Rightarrow> byte \<times> g722" where
  "encode_pair s x0 x1 =
     (let (xL, xH) = band_split x0 x1;
          (codL, s) = adpcmEncodeLow s xL;
          (codH, s) = adpcmEncodeHigh s xH
      in (of_int (push_bit 6 codH OR (codL AND 0x3F)), s))"

fun g722_encode :: "g722 \<Rightarrow> int list \<Rightarrow> bytes" where
  "g722_encode s [] = []"
| "g722_encode s [x0] = [fst (encode_pair s x0 0)]"
| "g722_encode s (x0 # x1 # xs) = (let (b, s) = encode_pair s x0 x1 in b # g722_encode s xs)"

definition decode_byte :: "g722 \<Rightarrow> byte \<Rightarrow> (int \<times> int) \<times> g722" where
  "decode_byte s b =
     (let codL = uint (b AND 0x3F);
          codH = uint (drop_bit 6 b AND 0x03);
          (xL, s) = adpcmDecodeLow s codL;
          (xH, s) = adpcmDecodeHigh s codH
      in ((saturate16 (i32 (xL + xH)), saturate16 (i32 (xL - xH))), s))"

fun g722_decode :: "g722 \<Rightarrow> bytes \<Rightarrow> int list" where
  "g722_decode s [] = []"
| "g722_decode s (b # bs) = (let ((y0, y1), s) = decode_byte s b in y0 # y1 # g722_decode s bs)"

definition G722Frame :: "int list \<Rightarrow> bytes" where
  "G722Frame samples = g722_encode g722_0 samples"

definition G722Decode :: "bytes \<Rightarrow> int list" where
  "G722Decode frame = g722_decode g722_0 frame"

section \<open>Ranges\<close>

definition i16_ok :: "int \<Rightarrow> bool" where
  "i16_ok x \<longleftrightarrow> -32768 \<le> x \<and> x \<le> 32767"

text \<open>Predictors are 16-bit values; a step size is 0 at the start and between 8 and 32767 afterwards.\<close>

definition g722_inv :: "g722 \<Rightarrow> bool" where
  "g722_inv s \<longleftrightarrow> i16_ok (sl s) \<and> i16_ok (su s) \<and> 0 \<le> det0 s \<and> det0 s \<le> 32767
     \<and> 0 \<le> det1 s \<and> det1 s \<le> 32767"

lemma min_step_range: "0 \<le> d \<Longrightarrow> d \<le> 32767 \<Longrightarrow> 8 \<le> min_step d \<and> min_step d \<le> 32767"
  by (simp add: min_step_def)

lemma updateStep_range: "8 \<le> updateStep d q l \<and> updateStep d q l \<le> 32767"
  by (simp add: updateStep_def Let_def)

lemma adaptPredict_range: "i16_ok (adaptPredict s d)"
  by (simp add: adaptPredict_def saturate32_def i16_ok_def)

lemma codeL_range: "fst (adpcmEncodeLow s x) \<in> {0..63}"
  by (auto simp: adpcmEncodeLow_def Let_def clamp_def i32_id)

lemma codeH_range: "fst (adpcmEncodeHigh s x) \<in> {0..3}"
  by (auto simp: adpcmEncodeHigh_def Let_def clamp_def i32_id)

lemma g722_inv_0 [inv_intros]: "g722_inv g722_0"
  by (simp add: g722_inv_def g722_0_def i16_ok_def)

lemma g722_inv_encode [inv_intros]:
  "g722_inv s \<Longrightarrow> g722_inv (snd (adpcmEncodeLow s x))" "g722_inv s \<Longrightarrow> g722_inv (snd (adpcmEncodeHigh s x))"
  using updateStep_range adaptPredict_range
  by (simp_all add: g722_inv_def adpcmEncodeLow_def adpcmEncodeHigh_def Let_def order.trans [of 0 8])

section \<open>The decoder follows the encoder\<close>

text \<open>The two states agree on everything but \<open>el\<close>, which only the encoder sets.\<close>

definition same_predictor :: "g722 \<Rightarrow> g722 \<Rightarrow> bool" where
  "same_predictor s t \<longleftrightarrow> sl s = sl t \<and> dl s = dl t \<and> det0 s = det0 t \<and> det1 s = det1 t
     \<and> su s = su t \<and> du s = du t"

lemma decode_low_follows:
  "same_predictor s t \<Longrightarrow> adpcmEncodeLow s x = (q, s') \<Longrightarrow>
   \<exists>t'. adpcmDecodeLow t q = (sl s', t') \<and> same_predictor s' t'"
  by (auto simp: same_predictor_def adpcmEncodeLow_def adpcmDecodeLow_def Let_def)

lemma decode_high_follows:
  "same_predictor s t \<Longrightarrow> adpcmEncodeHigh s x = (q, s') \<Longrightarrow>
   \<exists>t'. adpcmDecodeHigh t q = (su s', t') \<and> same_predictor s' t'"
  by (auto simp: same_predictor_def adpcmEncodeHigh_def adpcmDecodeHigh_def Let_def)

lemma encodeHigh_sl: "sl (snd (adpcmEncodeHigh s x)) = sl s"
  by (simp add: adpcmEncodeHigh_def Let_def)

lemma byte_fields_all:
  "list_all (\<lambda>h. list_all (\<lambda>l. uint ((of_int (push_bit 6 h OR (l AND 0x3F)) :: byte) AND 0x3F) = l
     \<and> uint (drop_bit 6 (of_int (push_bit 6 h OR (l AND 0x3F)) :: byte) AND 0x03) = h) [0..63]) [0..3]"
  by code_simp

lemma byte_fields:
  assumes "l \<in> {0..63}" "h \<in> {0..3}"
  shows "uint ((of_int (push_bit 6 h OR (l AND 0x3F)) :: byte) AND 0x3F) = l"
    "uint (drop_bit 6 (of_int (push_bit 6 h OR (l AND 0x3F)) :: byte) AND 0x03) = h"
  using byte_fields_all assms by (simp_all add: list_all_iff)

text \<open>What the encoder knows that the decoder will make of a pair.\<close>

definition predicted_pair :: "g722 \<Rightarrow> int \<times> int" where
  "predicted_pair s = (saturate16 (i32 (sl s + su s)), saturate16 (i32 (sl s - su s)))"

lemma pair_follows:
  assumes "same_predictor s t" "encode_pair s x0 x1 = (b, s')"
  shows "\<exists>t'. decode_byte t b = (predicted_pair s', t') \<and> same_predictor s' t'"
proof -
  obtain xL xH where split: "band_split x0 x1 = (xL, xH)" by fastforce
  obtain codL s1 where low: "adpcmEncodeLow s xL = (codL, s1)" by fastforce
  obtain codH s2 where high: "adpcmEncodeHigh s1 xH = (codH, s2)" by fastforce
  have codes: "codL \<in> {0..63}" "codH \<in> {0..3}"
    using codeL_range [of s xL] codeH_range [of s1 xH] low high by auto
  have enc: "b = of_int (push_bit 6 codH OR (codL AND 0x3F))" "s' = s2"
    using assms(2) by (simp_all add: encode_pair_def split low high)
  from decode_low_follows [OF assms(1) low] obtain t1 where
    t1: "adpcmDecodeLow t codL = (sl s1, t1)" "same_predictor s1 t1" by blast
  from decode_high_follows [OF t1(2) high] obtain t2 where
    t2: "adpcmDecodeHigh t1 codH = (su s2, t2)" "same_predictor s2 t2" by blast
  have "sl s2 = sl s1" using encodeHigh_sl [of s1 xH] high by simp
  with t1(1) t2 enc codes show ?thesis
    by (simp add: decode_byte_def byte_fields predicted_pair_def Let_def)
qed

text \<open>The reconstruction that the encoder predicts for a whole frame.\<close>

fun predicted :: "g722 \<Rightarrow> int list \<Rightarrow> int list" where
  "predicted s [] = []"
| "predicted s [x0] = (let (_, s) = encode_pair s x0 0; (y0, y1) = predicted_pair s in [y0, y1])"
| "predicted s (x0 # x1 # xs) =
     (let (_, s) = encode_pair s x0 x1; (y0, y1) = predicted_pair s in y0 # y1 # predicted s xs)"

lemma decode_follows: "same_predictor s t \<Longrightarrow> g722_decode t (g722_encode s xs) = predicted s xs"
proof (induction s xs arbitrary: t rule: predicted.induct)
  case (1 s)
  then show ?case by simp
next
  case (2 s x0)
  obtain b s' where e: "encode_pair s x0 0 = (b, s')" by fastforce
  from pair_follows [OF 2 e] show ?case by (auto simp: e split_beta Let_def)
next
  case (3 s x0 x1 xs)
  obtain b s' where e: "encode_pair s x0 x1 = (b, s')" by fastforce
  from pair_follows [OF "3.prems" e] obtain t' where
    "decode_byte t b = (predicted_pair s', t')" "same_predictor s' t'" by blast
  with "3.IH" [OF e [symmetric] refl refl prod.collapse] show ?case by (simp add: e split_beta Let_def)
qed

text \<open>C25: The decoder tracks the encoder's predictor exactly: decoding an encoded frame gives the
  reconstruction that the encoder's own state predicts, for every input, of odd length too.\<close>
theorem g722_decoder_in_step: "G722Decode (G722Frame xs) = predicted g722_0 xs"
  unfolding G722Decode_def G722Frame_def by (rule decode_follows) (simp add: same_predictor_def)

section \<open>No overflow\<close>

text \<open>The reference: the quantisers on unbounded integers.\<close>

definition quant :: "nat \<Rightarrow> int \<Rightarrow> int \<Rightarrow> int" where
  "quant levels e step = (if e < 0 then int levels + min (int levels - 1) (- e div step)
     else min (int levels - 1) (e div step))"

definition step_next :: "int \<Rightarrow> int \<Rightarrow> int" where
  "step_next d q = max 8 (min 32767 (if q = 0 then d * 7 div 8 else d * 9 div 8))"

definition lowZ :: "g722 \<Rightarrow> int \<Rightarrow> int \<times> g722" where
  "lowZ s x =
     (let step = max 8 (det0 s); e = x - sl s; q = quant 32 e step;
          d = (if q \<ge> 32 then - (q - 32) * step else q * step)
      in (q, s\<lparr>el := e, dl := d, sl := max (-32768) (min 32767 (sl s + d)), det0 := step_next (det0 s) q\<rparr>))"

definition highZ :: "g722 \<Rightarrow> int \<Rightarrow> int \<times> g722" where
  "highZ s x =
     (let step = max 8 (det1 s); e = x - su s; q = quant 2 e step;
          d = (if q \<ge> 2 then - (q - 1) * step else (q + 1) * step)
      in (q, s\<lparr>du := d, su := max (-32768) (min 32767 (su s + d)), det1 := step_next (det1 s) q\<rparr>))"

lemma clamp_min: "0 \<le> v \<Longrightarrow> clamp v 0 hi = min hi v"
  by (auto simp: clamp_def)

lemma sdiv_nonneg: "0 \<le> a \<Longrightarrow> 0 < b \<Longrightarrow> a sdiv b = a div (b :: int)"
  by (cases "a = 0") (simp_all add: signed_divide_int_def)

lemma div_small:
  fixes a b :: int
  assumes "0 \<le> a" "a \<le> 65535" "8 \<le> b"
  shows "0 \<le> a div b" "a div b \<le> 65535"
proof -
  have "a div b \<le> a div 1" using assms by (intro zdiv_mono2) simp_all
  with assms show "0 \<le> a div b" "a div b \<le> 65535" by (simp_all add: pos_imp_zdiv_nonneg_iff)
qed

lemma code_quant:
  assumes "- 65535 \<le> e" "e \<le> 65535" "8 \<le> step" "0 < n" "n \<le> 32" "k = int n" "m = int n - 1"
  shows "(if e < 0 then i32 (k + clamp (i32 (i32 (- e) sdiv step)) 0 m) else clamp (i32 (e sdiv step)) 0 m) = quant n e step"
proof (cases "e < 0")
  case True
  define a where "a = - e"
  have a: "0 \<le> a" "a \<le> 65535" using assms True by (simp_all add: a_def)
  note d = div_small [OF a assms(3)]
  have "a sdiv step = a div step" using a assms(3) by (intro sdiv_nonneg) simp_all
  then have c: "i32 (i32 a sdiv step) = a div step" using a d by (simp add: i32_id)
  have "i32 (int n + min (int n - 1) (a div step)) = int n + min (int n - 1) (a div step)"
    using d assms(4,5) by (intro i32_id) auto
  then show ?thesis
    using True unfolding quant_def a_def [symmetric] assms(6,7) by (simp only: if_True c clamp_min [OF d(1)])
next
  case False
  have d: "0 \<le> e div step" "e div step \<le> 65535" using div_small [of e step] assms False by simp_all
  then show ?thesis
    using False assms by (simp add: quant_def sdiv_nonneg clamp_min i32_id)
qed

lemma quant_range:
  assumes "8 \<le> step" "0 < n"
  shows "0 \<le> quant n e step" "quant n e step < 2 * int n"
  using assms by (auto simp: quant_def pos_imp_zdiv_nonneg_iff min_def)

lemma updateStep_Z: "0 \<le> d \<Longrightarrow> d \<le> 32767 \<Longrightarrow> updateStep d q l = step_next d q"
  by (auto simp: updateStep_def step_next_def Let_def i32_id drop_bit_eq_div)

lemma adaptPredict_Z:
  "i16_ok s \<Longrightarrow> -2000000 \<le> d \<Longrightarrow> d \<le> 2000000 \<Longrightarrow> adaptPredict s d = max (-32768) (min 32767 (s + d))"
  by (simp add: adaptPredict_def saturate32_def i16_ok_def i32_id)

lemma mult_small:
  fixes m step :: int
  assumes "0 \<le> m" "m \<le> 31" "0 \<le> step" "step \<le> 32767"
  shows "0 \<le> m * step" "m * step \<le> 1015777"
  using assms mult_mono [of m 31 step 32767] by simp_all

lemma i32_product:
  assumes "0 \<le> m" "m \<le> 31" "0 \<le> step" "step \<le> 32767"
  shows "i32 (m * step) = m * step" "i32 (- m * step) = - m * step" "- 1015777 \<le> m * step" "- 1015777 \<le> - m * step"
    "m * step \<le> 1015777" "- m * step \<le> 1015777"
  using mult_small [OF assms] by (simp_all add: i32_id)

lemma dequantLow_Z:
  assumes "0 \<le> q" "q \<le> 63" "0 \<le> step" "step \<le> 32767"
  shows "dequantLow q step = (if q \<ge> 32 then - (q - 32) * step else q * step)"
    and "- 1015777 \<le> dequantLow q step" "dequantLow q step \<le> 1015777"
proof -
  have "dequantLow q step = (if q \<ge> 32 then - (q - 32) * step else q * step)
    \<and> - 1015777 \<le> dequantLow q step \<and> dequantLow q step \<le> 1015777"
  proof (cases "q \<ge> 32")
    case True
    have "dequantLow q step = i32 (- (q - 32) * step)"
      using True assms by (simp add: dequantLow_def i32_id)
    with True i32_product [of "q - 32" step] assms show ?thesis by simp
  next
    case False
    have "dequantLow q step = i32 (q * step)" using False assms by (simp add: dequantLow_def i32_id)
    with False i32_product [of q step] assms show ?thesis by simp
  qed
  then show "dequantLow q step = (if q \<ge> 32 then - (q - 32) * step else q * step)"
    and "- 1015777 \<le> dequantLow q step" "dequantLow q step \<le> 1015777" by blast+
qed

lemma dequantHigh_Z:
  assumes "0 \<le> q" "q \<le> 3" "0 \<le> step" "step \<le> 32767"
  shows "dequantHigh q step = (if q \<ge> 2 then - (q - 1) * step else (q + 1) * step)"
    and "- 1015777 \<le> dequantHigh q step" "dequantHigh q step \<le> 1015777"
proof -
  have "dequantHigh q step = (if q \<ge> 2 then - (q - 1) * step else (q + 1) * step)
    \<and> - 1015777 \<le> dequantHigh q step \<and> dequantHigh q step \<le> 1015777"
  proof (cases "q \<ge> 2")
    case True
    have "dequantHigh q step = i32 (- (q - 1) * step)"
      using True assms by (simp add: dequantHigh_def i32_id)
    with True i32_product [of "q - 1" step] assms show ?thesis by simp
  next
    case False
    have "dequantHigh q step = i32 ((q + 1) * step)" using False assms by (simp add: dequantHigh_def i32_id)
    with False i32_product [of "q + 1" step] assms show ?thesis by simp
  qed
  then show "dequantHigh q step = (if q \<ge> 2 then - (q - 1) * step else (q + 1) * step)"
    and "- 1015777 \<le> dequantHigh q step" "dequantHigh q step \<le> 1015777" by blast+
qed

lemma encodeLow_Z:
  assumes "g722_inv s" "i16_ok x"
  shows "adpcmEncodeLow s x = lowZ s x"
proof -
  have r: "i16_ok (sl s)" "0 \<le> det0 s" "det0 s \<le> 32767" using assms(1) by (simp_all add: g722_inv_def)
  define step where "step = min_step (det0 s)"
  have step: "8 \<le> step" "step \<le> 32767" "step = max 8 (det0 s)"
    using min_step_range [OF r(2,3)] by (auto simp: step_def min_step_def)
  define e where "e = x - sl s"
  have e: "i32 (x - sl s) = e" "- 65535 \<le> e" "e \<le> 65535"
    using assms(2) r(1) by (simp_all add: i16_ok_def e_def i32_id)
  define q where "q = quant 32 e step"
  have q: "0 \<le> q" "q \<le> 63" using quant_range [OF step(1), of 32 e] by (simp_all add: q_def)
  have code: "(if e < 0 then i32 (32 + clamp (i32 (i32 (- e) sdiv step)) 0 31) else clamp (i32 (e sdiv step)) 0 31) = q"
    unfolding q_def by (rule code_quant [OF e(2,3) step(1)]) simp_all
  note d = dequantLow_Z [OF q _ step(2)]
  have "adaptPredict (sl s) (dequantLow q step) = max (-32768) (min 32767 (sl s + dequantLow q step))"
    using d(2,3) step(1) by (intro adaptPredict_Z [OF r(1)]) simp_all
  moreover have "adpcmEncodeLow s x = (q, s\<lparr>el := e, dl := dequantLow q step,
      sl := adaptPredict (sl s) (dequantLow q step), det0 := updateStep (det0 s) q True\<rparr>)"
    using code by (cases "e < 0") (simp_all add: adpcmEncodeLow_def Let_def e(1) step_def [symmetric])
  ultimately show ?thesis
    unfolding lowZ_def Let_def step(3) [symmetric] e_def [symmetric] q_def [symmetric] updateStep_Z [OF r(2,3)]
    using step(1) by (simp only: d(1) order.trans [OF _ step(1), of 0, simplified])
qed

lemma encodeHigh_Z:
  assumes "g722_inv s" "i16_ok x"
  shows "adpcmEncodeHigh s x = highZ s x"
proof -
  have r: "i16_ok (su s)" "0 \<le> det1 s" "det1 s \<le> 32767" using assms(1) by (simp_all add: g722_inv_def)
  define step where "step = min_step (det1 s)"
  have step: "8 \<le> step" "step \<le> 32767" "step = max 8 (det1 s)"
    using min_step_range [OF r(2,3)] by (auto simp: step_def min_step_def)
  define e where "e = x - su s"
  have e: "i32 (x - su s) = e" "- 65535 \<le> e" "e \<le> 65535"
    using assms(2) r(1) by (simp_all add: i16_ok_def e_def i32_id)
  define q where "q = quant 2 e step"
  have q: "0 \<le> q" "q \<le> 3" using quant_range [OF step(1), of 2 e] by (simp_all add: q_def)
  have code: "(if e < 0 then i32 (2 + clamp (i32 (i32 (- e) sdiv step)) 0 1) else clamp (i32 (e sdiv step)) 0 1) = q"
    unfolding q_def by (rule code_quant [OF e(2,3) step(1)]) simp_all
  note d = dequantHigh_Z [OF q _ step(2)]
  have "adaptPredict (su s) (dequantHigh q step) = max (-32768) (min 32767 (su s + dequantHigh q step))"
    using d(2,3) step(1) by (intro adaptPredict_Z [OF r(1)]) simp_all
  moreover have "adpcmEncodeHigh s x = (q, s\<lparr>du := dequantHigh q step,
      su := adaptPredict (su s) (dequantHigh q step), det1 := updateStep (det1 s) q False\<rparr>)"
    using code by (cases "e < 0") (simp_all add: adpcmEncodeHigh_def Let_def e(1) step_def [symmetric])
  ultimately show ?thesis
    unfolding highZ_def Let_def step(3) [symmetric] e_def [symmetric] q_def [symmetric] updateStep_Z [OF r(2,3)]
    using step(1) by (simp only: d(1) order.trans [OF _ step(1), of 0, simplified])
qed

lemma band_split_ok:
  assumes "i16_ok x0" "i16_ok x1" "band_split x0 x1 = (xL, xH)"
  shows "i16_ok xL" "i16_ok xH" "x1 = xL - xH" "x0 = xL + xH \<or> x0 = xL + xH + 1"
proof -
  have "xL = (x0 + x1) div 2" "xH = (x0 - x1) div 2"
    using assms by (simp_all add: band_split_def i16_ok_def i32_id drop_bit_eq_div)
  then show "i16_ok xL" "i16_ok xH" "x1 = xL - xH" "x0 = xL + xH \<or> x0 = xL + xH + 1"
    using assms(1,2) by (auto simp: i16_ok_def)
qed

text \<open>The encoder's whole run on the reference.\<close>

definition pair_Z :: "g722 \<Rightarrow> int \<Rightarrow> int \<Rightarrow> byte \<times> g722" where
  "pair_Z s x0 x1 =
     (let (codL, s) = lowZ s ((x0 + x1) div 2);
          (codH, s) = highZ s ((x0 - x1) div 2)
      in (of_int (64 * codH + codL), s))"

fun encode_Z :: "g722 \<Rightarrow> int list \<Rightarrow> bytes" where
  "encode_Z s [] = []"
| "encode_Z s [x0] = [fst (pair_Z s x0 0)]"
| "encode_Z s (x0 # x1 # xs) = (let (b, s) = pair_Z s x0 x1 in b # encode_Z s xs)"

lemma pack_all: "list_all (\<lambda>h. list_all (\<lambda>l. push_bit 6 h OR (l AND 0x3F) = 64 * h + (l :: int)) [0..63]) [0..3]"
  by code_simp

lemma pair_no_overflow:
  assumes "g722_inv s" "i16_ok x0" "i16_ok x1"
  shows "encode_pair s x0 x1 = pair_Z s x0 x1" "g722_inv (snd (encode_pair s x0 x1))"
proof -
  obtain xL xH where split: "band_split x0 x1 = (xL, xH)" by fastforce
  note ok = band_split_ok [OF assms(2,3) split]
  have div: "xL = (x0 + x1) div 2" "xH = (x0 - x1) div 2" using ok(3,4) by presburger+
  obtain codL s1 where low: "adpcmEncodeLow s xL = (codL, s1)" by fastforce
  obtain codH s2 where high: "adpcmEncodeHigh s1 xH = (codH, s2)" by fastforce
  have inv: "g722_inv s1" "g722_inv s2"
    using g722_inv_encode(1) [OF assms(1), of xL] g722_inv_encode(2) [of s1 xH] low high by simp_all
  have "codL \<in> {0..63}" "codH \<in> {0..3}"
    using codeL_range [of s xL] codeH_range [of s1 xH] low high by auto
  with pack_all have "push_bit 6 codH OR (codL AND 0x3F) = 64 * codH + codL" by (simp add: list_all_iff)
  moreover have "lowZ s xL = (codL, s1)" "highZ s1 xH = (codH, s2)"
    using encodeLow_Z [OF assms(1) ok(1)] encodeHigh_Z [OF inv(1) ok(2)] low high by simp_all
  ultimately show "encode_pair s x0 x1 = pair_Z s x0 x1" "g722_inv (snd (encode_pair s x0 x1))"
    using inv(2) by (simp_all add: encode_pair_def pair_Z_def split low high div [symmetric])
qed

lemma encode_no_overflow: "g722_inv s \<Longrightarrow> (\<And>x. x \<in> set xs \<Longrightarrow> i16_ok x) \<Longrightarrow> g722_encode s xs = encode_Z s xs"
proof (induction s xs rule: g722_encode.induct)
  case (1 s)
  then show ?case by simp
next
  case (2 s x0)
  then show ?case using pair_no_overflow(1) [of s x0 0] by (simp add: i16_ok_def)
next
  case (3 s x0 x1 xs)
  then have "i16_ok x0" "i16_ok x1" by simp_all
  note pair = pair_no_overflow [OF "3.prems"(1) this]
  have "g722_encode (snd (encode_pair s x0 x1)) xs = encode_Z (snd (encode_pair s x0 x1)) xs"
    by (rule "3.IH" [OF refl prod.collapse pair(2)]) (simp add: "3.prems"(2))
  then show ?case using pair(1) by (simp add: split_beta Let_def)
qed

text \<open>The decoder's run on the reference.\<close>

definition take_lowZ :: "g722 \<Rightarrow> int \<Rightarrow> int \<times> g722" where
  "take_lowZ s q =
     (let step = max 8 (det0 s);
          d = (if q \<ge> 32 then - (q - 32) * step else q * step);
          s = s\<lparr>dl := d, sl := max (-32768) (min 32767 (sl s + d)), det0 := step_next (det0 s) q\<rparr>
      in (sl s, s))"

definition take_highZ :: "g722 \<Rightarrow> int \<Rightarrow> int \<times> g722" where
  "take_highZ s q =
     (let step = max 8 (det1 s);
          d = (if q \<ge> 2 then - (q - 1) * step else (q + 1) * step);
          s = s\<lparr>du := d, su := max (-32768) (min 32767 (su s + d)), det1 := step_next (det1 s) q\<rparr>
      in (su s, s))"

definition byte_Z :: "g722 \<Rightarrow> byte \<Rightarrow> (int \<times> int) \<times> g722" where
  "byte_Z s b =
     (let (xL, s) = take_lowZ s (uint b mod 64);
          (xH, s) = take_highZ s (uint b div 64)
      in ((max (-32768) (min 32767 (xL + xH)), max (-32768) (min 32767 (xL - xH))), s))"

fun decode_Z :: "g722 \<Rightarrow> bytes \<Rightarrow> int list" where
  "decode_Z s [] = []"
| "decode_Z s (b # bs) = (let ((y0, y1), s) = byte_Z s b in y0 # y1 # decode_Z s bs)"

lemma saturate16_eq: "saturate16 v = max (-32768) (min 32767 v)"
  by (auto simp: saturate16_def i16_id)

lemma byte_codes: "uint (b AND 0x3F :: byte) = uint b mod 64" "uint (drop_bit 6 b AND 0x03 :: byte) = uint b div 64"
proof -
  have "uint b < 256" using uint_lt2p [of b] by simp
  then have "uint b div 64 mod 4 = uint b div 64" by (intro mod_pos_pos_trivial) (simp_all add: pos_imp_zdiv_nonneg_iff)
  moreover have "i AND 63 = i mod 64" "i AND 3 = i mod 4" for i :: int
    using take_bit_eq_mask [of 6 i] take_bit_eq_mask [of 2 i] by (simp_all add: take_bit_eq_mod mask_eq_exp_minus_1)
  ultimately show "uint (b AND 0x3F :: byte) = uint b mod 64" "uint (drop_bit 6 b AND 0x03 :: byte) = uint b div 64"
    by (simp_all add: unsigned_and_eq unsigned_drop_bit_eq drop_bit_eq_div uint_div)
qed

lemma decodeLow_Z:
  assumes "g722_inv s" "0 \<le> q" "q \<le> 63"
  shows "adpcmDecodeLow s q = take_lowZ s q" "g722_inv (snd (adpcmDecodeLow s q))" "i16_ok (fst (adpcmDecodeLow s q))"
proof -
  have r: "i16_ok (sl s)" "0 \<le> det0 s" "det0 s \<le> 32767" using assms(1) by (simp_all add: g722_inv_def)
  have step: "0 \<le> max 8 (det0 s)" "max 8 (det0 s) \<le> 32767" "min_step (det0 s) = max 8 (det0 s)"
    using r by (auto simp: min_step_def)
  note d = dequantLow_Z [OF assms(2,3) step(1,2)]
  have "adaptPredict (sl s) (dequantLow q (max 8 (det0 s))) = max (-32768) (min 32767 (sl s + dequantLow q (max 8 (det0 s))))"
    using d(2,3) by (intro adaptPredict_Z [OF r(1)]) simp_all
  then show "adpcmDecodeLow s q = take_lowZ s q"
    by (simp add: adpcmDecodeLow_def take_lowZ_def Let_def step(3) updateStep_Z [OF r(2,3)] d(1))
  show "g722_inv (snd (adpcmDecodeLow s q))" "i16_ok (fst (adpcmDecodeLow s q))"
    using assms(1) updateStep_range adaptPredict_range
    by (simp_all add: g722_inv_def adpcmDecodeLow_def Let_def order.trans [of 0 8])
qed

lemma decodeHigh_Z:
  assumes "g722_inv s" "0 \<le> q" "q \<le> 3"
  shows "adpcmDecodeHigh s q = take_highZ s q" "g722_inv (snd (adpcmDecodeHigh s q))" "i16_ok (fst (adpcmDecodeHigh s q))"
proof -
  have r: "i16_ok (su s)" "0 \<le> det1 s" "det1 s \<le> 32767" using assms(1) by (simp_all add: g722_inv_def)
  have step: "0 \<le> max 8 (det1 s)" "max 8 (det1 s) \<le> 32767" "min_step (det1 s) = max 8 (det1 s)"
    using r by (auto simp: min_step_def)
  note d = dequantHigh_Z [OF assms(2,3) step(1,2)]
  have "adaptPredict (su s) (dequantHigh q (max 8 (det1 s))) = max (-32768) (min 32767 (su s + dequantHigh q (max 8 (det1 s))))"
    using d(2,3) by (intro adaptPredict_Z [OF r(1)]) simp_all
  then show "adpcmDecodeHigh s q = take_highZ s q"
    by (simp add: adpcmDecodeHigh_def take_highZ_def Let_def step(3) updateStep_Z [OF r(2,3)] d(1))
  show "g722_inv (snd (adpcmDecodeHigh s q))" "i16_ok (fst (adpcmDecodeHigh s q))"
    using assms(1) updateStep_range adaptPredict_range
    by (simp_all add: g722_inv_def adpcmDecodeHigh_def Let_def order.trans [of 0 8])
qed

lemma byte_no_overflow:
  assumes "g722_inv s"
  shows "decode_byte s b = byte_Z s b" "g722_inv (snd (decode_byte s b))"
proof -
  have "uint b < 256" using uint_lt2p [of b] by simp
  then have codes: "0 \<le> uint b mod 64" "uint b mod 64 \<le> 63" "0 \<le> uint b div 64" "uint b div 64 \<le> 3"
    by (simp_all add: pos_imp_zdiv_nonneg_iff)
  obtain xL s1 where low: "take_lowZ s (uint b mod 64) = (xL, s1)" by fastforce
  obtain xH s2 where high: "take_highZ s1 (uint b div 64) = (xH, s2)" by fastforce
  have 1: "adpcmDecodeLow s (uint b mod 64) = (xL, s1)" "g722_inv s1" "i16_ok xL"
    using decodeLow_Z [OF assms codes(1,2)] by (simp_all add: low)
  have 2: "adpcmDecodeHigh s1 (uint b div 64) = (xH, s2)" "g722_inv s2" "i16_ok xH"
    using decodeHigh_Z [OF 1(2) codes(3,4)] by (simp_all add: high)
  have "i32 (xL + xH) = xL + xH" "i32 (xL - xH) = xL - xH"
    using 1(3) 2(3) by (simp_all add: i16_ok_def i32_id)
  with 1 2 show "decode_byte s b = byte_Z s b" "g722_inv (snd (decode_byte s b))"
    by (simp_all add: decode_byte_def byte_Z_def byte_codes low high saturate16_eq)
qed

lemma decode_no_overflow: "g722_inv s \<Longrightarrow> g722_decode s bs = decode_Z s bs"
proof (induction bs arbitrary: s)
  case (Cons b bs)
  note byte = byte_no_overflow [OF Cons.prems, of b]
  have "g722_decode (snd (byte_Z s b)) bs = decode_Z (snd (byte_Z s b)) bs"
    using byte by (intro Cons.IH) simp
  then show ?case by (simp add: byte(1) split_beta Let_def)
qed simp

text \<open>C26: No 32-bit operation of the codec ever overflows: for every frame of 16-bit samples the encoder,
  and for every string of bytes the decoder, computes what the same formulas give over the
  unbounded integers.\<close>
theorem g722_no_overflow:
  "((\<forall>x \<in> set xs. i16_ok x) \<longrightarrow> G722Frame xs = encode_Z g722_0 xs) \<and> G722Decode bs = decode_Z g722_0 bs"
  using encode_no_overflow [OF g722_inv_0] decode_no_overflow [OF g722_inv_0]
  by (simp add: G722Frame_def G722Decode_def)

theorem g722_no_overflow_witness:
  "G722Frame [32767, -32768, 5] = encode_Z g722_0 [32767, -32768, 5]
     \<and> G722Decode [0xFF, 0x00, 0x9F] = decode_Z g722_0 [0xFF, 0x00, 0x9F]"
proof -
  have "\<forall>x \<in> set [32767, -32768, 5]. i16_ok x" by (simp add: i16_ok_def)
  with g722_no_overflow [of "[32767, -32768, 5]" "[0xFF, 0x00, 0x9F]"] show ?thesis by blast
qed

section \<open>Accuracy\<close>

lemma saturate_closer:
  assumes "i16_ok x"
  shows "\<bar>max (-32768) (min 32767 v) - x\<bar> \<le> \<bar>v - x\<bar>"
  using assms by (auto simp: i16_ok_def max_def min_def)

lemma div_below: "0 < b \<Longrightarrow> a < k * b \<Longrightarrow> a div b < (k :: int)"
proof (rule ccontr)
  assume b: "0 < b" "a < k * b" "\<not> a div b < k"
  then have "k * b \<le> a div b * b" by (intro mult_right_mono) simp_all
  also have "\<dots> \<le> a" using b(1) div_mult_mod_eq [of a b] pos_mod_sign [OF b(1), of a] by linarith
  finally show False using b(2) by simp
qed

lemma quant_split:
  fixes a step :: int
  assumes "0 \<le> a" "a < k * step" "0 < step"
  obtains d r where "a div step = d" "a = d * step + r" "0 \<le> r" "r < step" "0 \<le> d" "d < k"
  using assms div_below [OF assms(3,2)] that [of "a div step" "a mod step"]
  by (simp add: pos_imp_zdiv_nonneg_iff)

lemma low_quant_error:
  assumes "\<bar>e\<bar> < 32 * step" "0 < step" "q = quant 32 e step"
  shows "\<bar>(if q \<ge> 32 then - (q - 32) * step else q * step) - e\<bar> < step"
proof (cases "e < 0")
  case True
  then have "0 \<le> - e" "- e < 32 * step" using assms(1) by simp_all
  from quant_split [OF this assms(2)] obtain d r where
    d: "- e div step = d" "- e = d * step + r" "0 \<le> r" "r < step" "0 \<le> d" "d < 32" .
  then have "q = 32 + d" using True by (simp add: assms(3) quant_def)
  with d show ?thesis by simp
next
  case False
  then have "0 \<le> e" "e < 32 * step" using assms(1) by simp_all
  from quant_split [OF this assms(2)] obtain d r where
    d: "e div step = d" "e = d * step + r" "0 \<le> r" "r < step" "0 \<le> d" "d < 32" .
  then have "q = d" using False by (simp add: assms(3) quant_def)
  with d show ?thesis by simp
qed

lemma high_quant_error:
  assumes "\<bar>e\<bar> < 2 * step" "0 < step" "q = quant 2 e step"
  shows "\<bar>(if q \<ge> 2 then - (q - 1) * step else (q + 1) * step) - e\<bar> \<le> step"
proof (cases "e < 0")
  case True
  then have "0 \<le> - e" "- e < 2 * step" using assms(1) by simp_all
  from quant_split [OF this assms(2)] obtain d r where
    d: "- e div step = d" "- e = d * step + r" "0 \<le> r" "r < step" "0 \<le> d" "d < 2" .
  then have "q = 2 + d" using True by (simp add: assms(3) quant_def)
  with d show ?thesis by (simp add: algebra_simps)
next
  case False
  then have "0 \<le> e" "e < 2 * step" using assms(1) by simp_all
  from quant_split [OF this assms(2)] obtain d r where
    d: "e div step = d" "e = d * step + r" "0 \<le> r" "r < step" "0 \<le> d" "d < 2" .
  then have "q = d" using False by (simp add: assms(3) quant_def)
  with d show ?thesis by (simp add: algebra_simps)
qed

lemma low_error:
  assumes "i16_ok x" "\<bar>x - sl s\<bar> < 32 * max 8 (det0 s)"
  shows "\<bar>sl (snd (lowZ s x)) - x\<bar> < max 8 (det0 s)"
proof -
  define step where "step = max 8 (det0 s)"
  define q where "q = quant 32 (x - sl s) step"
  let ?d = "if q \<ge> 32 then - (q - 32) * step else q * step"
  have "\<bar>?d - (x - sl s)\<bar> < step"
    using assms(2) by (intro low_quant_error) (simp_all add: step_def q_def)
  moreover have "sl (snd (lowZ s x)) = max (-32768) (min 32767 (sl s + ?d))"
    by (simp add: lowZ_def Let_def step_def q_def)
  ultimately show ?thesis
    using saturate_closer [OF assms(1), of "sl s + ?d"] unfolding step_def [symmetric] by linarith
qed

lemma high_error:
  assumes "i16_ok x" "\<bar>x - su s\<bar> < 2 * max 8 (det1 s)"
  shows "\<bar>su (snd (highZ s x)) - x\<bar> \<le> max 8 (det1 s)"
proof -
  define step where "step = max 8 (det1 s)"
  define q where "q = quant 2 (x - su s) step"
  let ?d = "if q \<ge> 2 then - (q - 1) * step else (q + 1) * step"
  have "\<bar>?d - (x - su s)\<bar> \<le> step"
    using assms(2) by (intro high_quant_error) (simp_all add: step_def q_def)
  moreover have "su (snd (highZ s x)) = max (-32768) (min 32767 (su s + ?d))"
    by (simp add: highZ_def Let_def step_def q_def)
  ultimately show ?thesis
    using saturate_closer [OF assms(1), of "su s + ?d"] unfolding step_def [symmetric] by linarith
qed

text \<open>When the predictors are within reach of the two band signals, the decoder's pair of samples
  differs from the encoder's by at most the sum of the two step sizes (the odd sample by one less).\<close>
theorem g722_pair_error:
  assumes "g722_inv s" "same_predictor s t" "i16_ok x0" "i16_ok x1"
    and "band_split x0 x1 = (xL, xH)"
    and "\<bar>xL - sl s\<bar> < 32 * max 8 (det0 s)" "\<bar>xH - su s\<bar> < 2 * max 8 (det1 s)"
    and "decode_byte t (fst (encode_pair s x0 x1)) = ((y0, y1), t')"
  shows "\<bar>y0 - x0\<bar> \<le> max 8 (det0 s) + max 8 (det1 s) \<and> \<bar>y1 - x1\<bar> < max 8 (det0 s) + max 8 (det1 s)"
proof -
  note ok = band_split_ok [OF assms(3,4,5)]
  obtain codL s1 where low: "adpcmEncodeLow s xL = (codL, s1)" by fastforce
  obtain codH s2 where high: "adpcmEncodeHigh s1 xH = (codH, s2)" by fastforce
  have enc: "snd (encode_pair s x0 x1) = s2"
    by (simp add: encode_pair_def assms(5) low high)
  have y: "(y0, y1) = predicted_pair s2"
    using pair_follows [OF assms(2), of x0 x1 "fst (encode_pair s x0 x1)" s2] enc assms(8) by (simp add: prod_eq_iff)
  have inv1: "g722_inv s1" using g722_inv_encode(1) [OF assms(1), of xL] low by simp
  have s1: "su s1 = su s" "det1 s1 = det1 s" using low by (auto simp: adpcmEncodeLow_def Let_def)
  have "sl s2 = sl s1" using encodeHigh_sl [of s1 xH] high by simp
  then have L: "\<bar>sl s2 - xL\<bar> < max 8 (det0 s)"
    using low_error [OF ok(1) assms(6)] encodeLow_Z [OF assms(1) ok(1)] low by (metis snd_conv)
  have "\<bar>xH - su s1\<bar> < 2 * max 8 (det1 s1)" using assms(7) s1 by simp
  from high_error [OF ok(2) this] have H: "\<bar>su s2 - xH\<bar> \<le> max 8 (det1 s)"
    using encodeHigh_Z [OF inv1 ok(2)] high s1(2) by (metis snd_conv)
  have "g722_inv s2" using g722_inv_encode(2) [OF inv1, of xH] high by simp
  then have "i32 (sl s2 + su s2) = sl s2 + su s2" "i32 (sl s2 - su s2) = sl s2 - su s2"
    by (simp_all add: g722_inv_def i16_ok_def i32_id)
  then have y01: "y0 = max (-32768) (min 32767 (sl s2 + su s2))" "y1 = max (-32768) (min 32767 (sl s2 - su s2))"
    using y by (simp_all add: predicted_pair_def saturate16_eq)
  have "\<bar>y0 - x0\<bar> \<le> \<bar>(sl s2 - xL) + (su s2 - xH) + (xL + xH - x0)\<bar>"
    using saturate_closer [OF assms(3), of "sl s2 + su s2"] unfolding y01(1) by (simp add: algebra_simps)
  also have "\<dots> \<le> \<bar>sl s2 - xL\<bar> + \<bar>su s2 - xH\<bar> + \<bar>xL + xH - x0\<bar>" by arith
  also have "\<dots> \<le> max 8 (det0 s) + max 8 (det1 s)" using L H ok(4) by auto
  finally have a: "\<bar>y0 - x0\<bar> \<le> max 8 (det0 s) + max 8 (det1 s)" .
  have "\<bar>y1 - x1\<bar> \<le> \<bar>(sl s2 - xL) - (su s2 - xH)\<bar>"
    using saturate_closer [OF assms(4), of "sl s2 - su s2"] unfolding y01(2) ok(3) by (simp add: algebra_simps)
  also have "\<dots> \<le> \<bar>sl s2 - xL\<bar> + \<bar>su s2 - xH\<bar>" by arith
  also have "\<dots> < max 8 (det0 s) + max 8 (det1 s)" using L H by (rule add_less_le_mono)
  finally show ?thesis using a by simp
qed

theorem g722_pair_error_witness:
  "\<bar>fst (fst (decode_byte g722_0 (fst (encode_pair g722_0 100 90)))) - 100\<bar> \<le> 16"
proof -
  have "band_split 100 90 = (95, 5)" by code_simp
  then show ?thesis
    using g722_pair_error [of g722_0 g722_0 100 90 95 5] g722_inv_0
    by (cases "decode_byte g722_0 (fst (encode_pair g722_0 100 90))" rule: prod.exhaust)
      (force simp: same_predictor_def i16_ok_def g722_0_def)
qed

section \<open>Silence\<close>

lemma first_high:
  "codH \<in> {0..3} \<Longrightarrow> det1 s = 0 \<Longrightarrow> su s = 0 \<Longrightarrow> fst (adpcmDecodeHigh s codH) \<in> {-16, -8, 8, 16}"
proof -
  assume "codH \<in> {0..3}" and s: "det1 s = 0" "su s = 0"
  then consider "codH = 0" | "codH = 1" | "codH = 2" | "codH = 3" by fastforce
  then show ?thesis
    using s by cases (simp_all add: adpcmDecodeHigh_def Let_def min_step_def dequantHigh_def adaptPredict_def saturate32_def i32_id)
qed

text \<open>No frame decodes to digital silence: the upper band has no code for zero, so the first two
  samples out of the decoder are never both 0.\<close>
theorem g722_no_silence: "take 2 (G722Decode (b # bs)) \<noteq> [0, 0]"
proof -
  obtain xL s1 where low: "adpcmDecodeLow g722_0 (uint (b AND 0x3F)) = (xL, s1)" by fastforce
  obtain xH s2 where high: "adpcmDecodeHigh s1 (uint (drop_bit 6 b AND 0x03)) = (xH, s2)" by fastforce
  have s1: "det1 s1 = 0" "su s1 = 0" "xL = sl s1"
    using low by (auto simp: adpcmDecodeLow_def Let_def g722_0_def)
  have "i16_ok xL" using low adaptPredict_range by (auto simp: adpcmDecodeLow_def Let_def)
  have "uint (drop_bit 6 b AND (mask 2)) \<in> {0..3}"
    unfolding take_bit_eq_mask [symmetric] unsigned_take_bit_eq using take_bit_int_less_exp [of 2 "uint (drop_bit 6 b)"] by simp
  then have "uint (drop_bit 6 b AND 0x03) \<in> {0..3}" by (simp add: mask_eq_exp_minus_1)
  from first_high [OF this s1(1,2)] high have xH: "xH \<in> {-16, -8, 8, 16}" by simp
  have out: "take 2 (G722Decode (b # bs)) = [saturate16 (i32 (xL + xH)), saturate16 (i32 (xL - xH))]"
    by (simp add: G722Decode_def decode_byte_def low high Let_def split_beta)
  have "saturate16 (i32 (xL + xH)) = 0 \<Longrightarrow> xL + xH = 0" "saturate16 (i32 (xL - xH)) = 0 \<Longrightarrow> xL - xH = 0"
    using \<open>i16_ok xL\<close> xH by (auto simp: i16_ok_def saturate16_eq i32_id max_def min_def split: if_splits)
  then show ?thesis using xH unfolding out by auto
qed

end
