(* ===== verification/Go_Strings.thy ===== *)
theory Go_Strings
  imports Prelude "HOL-Library.Sublist"
begin

text \<open>
  The functions of Go's \<open>strings\<close> and \<open>strconv\<close> that the signaling code uses, on strings as lists
  of characters: trimming, splitting, prefixes, replacement, decimal printing and parsing. White
  space and letter case are those of ASCII; the SDP and CSV texts the code reads are ASCII (the
  Unicode spaces and letters that Go also knows are left out). The lemmas give what splitting and
  parsing return on a text that was put together by printing.
\<close>

section \<open>Functions of \<open>strings\<close>\<close>

definition is_space :: "char \<Rightarrow> bool" where
  "is_space c = (c \<in> {CHR '' '', CHR 0x09, CHR 0x0A, CHR 0x0B, CHR 0x0C, CHR 0x0D})"

definition TrimSpace :: "string \<Rightarrow> string" where
  "TrimSpace s = rev (dropWhile is_space (rev (dropWhile is_space s)))"

text \<open>\<open>strings.Fields\<close>: \<open>cur\<close> is the field being read.\<close>

fun fields_from :: "string \<Rightarrow> string \<Rightarrow> string list" where
  "fields_from cur [] = (if cur = [] then [] else [cur])"
| "fields_from cur (c # s) =
     (if is_space c then (if cur = [] then fields_from [] s else cur # fields_from [] s)
      else fields_from (cur @ [c]) s)"

definition Fields :: "string \<Rightarrow> string list" where
  "Fields s = fields_from [] s"

text \<open>\<open>strings.Split\<close> at a separator of one character, and \<open>strings.SplitN(s, sep, 2)\<close>.\<close>

fun split_from :: "char \<Rightarrow> string \<Rightarrow> string \<Rightarrow> string list" where
  "split_from sep cur [] = [cur]"
| "split_from sep cur (c # s) = (if c = sep then cur # split_from sep [] s else split_from sep (cur @ [c]) s)"

definition Split :: "string \<Rightarrow> char \<Rightarrow> string list" where
  "Split s sep = split_from sep [] s"

definition SplitN2 :: "string \<Rightarrow> char \<Rightarrow> string list" where
  "SplitN2 s sep = (if sep \<in> set s
     then [takeWhile (\<lambda>c. c \<noteq> sep) s, tl (dropWhile (\<lambda>c. c \<noteq> sep) s)] else [s])"

definition HasPrefix :: "string \<Rightarrow> string \<Rightarrow> bool" where
  "HasPrefix s p = (take (length p) s = p)"

fun Contains :: "string \<Rightarrow> string \<Rightarrow> bool" where
  "Contains [] p = (p = [])"
| "Contains (c # s) p = (HasPrefix (c # s) p \<or> Contains s p)"

definition Count :: "string \<Rightarrow> char \<Rightarrow> nat" where
  "Count s c = length (filter (\<lambda>x. x = c) s)"

text \<open>Replacement of every CR LF by LF.\<close>

fun normalise_crlf :: "string \<Rightarrow> string" where
  "normalise_crlf [] = []"
| "normalise_crlf [c] = [c]"
| "normalise_crlf (c # d # s) =
     (if c = CHR 0x0D \<and> d = CHR 0x0A then CHR 0x0A # normalise_crlf s else c # normalise_crlf (d # s))"

definition upcase :: "char \<Rightarrow> char" where
  "upcase c = (let n = of_char c :: nat in if 97 \<le> n \<and> n \<le> 122 then char_of (n - 32) else c)"

definition downcase :: "char \<Rightarrow> char" where
  "downcase c = (let n = of_char c :: nat in if 65 \<le> n \<and> n \<le> 90 then char_of (n + 32) else c)"

definition ToUpper :: "string \<Rightarrow> string" where
  "ToUpper = map upcase"

definition ToLower :: "string \<Rightarrow> string" where
  "ToLower = map downcase"

definition crlf :: string where
  "crlf = [CHR 0x0D, CHR 0x0A]"

section \<open>Decimal numbers\<close>

definition digit_char :: "nat \<Rightarrow> char" where
  "digit_char d = char_of (d + 48)"

fun show_nat :: "nat \<Rightarrow> string" where
  "show_nat n = (if n < 10 then [digit_char n] else show_nat (n div 10) @ [digit_char (n mod 10)])"

declare show_nat.simps [simp del]

definition show_int :: "int \<Rightarrow> string" where
  "show_int i = (if i < 0 then CHR ''-'' # show_nat (nat (- i)) else show_nat (nat i))"

definition is_digit :: "char \<Rightarrow> bool" where
  "is_digit c = (48 \<le> (of_char c :: nat) \<and> (of_char c :: nat) \<le> 57)"

definition parse_digits :: "string \<Rightarrow> int" where
  "parse_digits s = foldl (\<lambda>n c. 10 * n + (int (of_char c) - 48)) 0 s"

text \<open>\<open>strconv.Atoi\<close>: an optional sign and at least one digit, in the range of \<open>int\<close> (64 bits).\<close>

definition Atoi :: "string \<Rightarrow> int option" where
  "Atoi s =
     (let neg = (s \<noteq> [] \<and> hd s = CHR ''-'');
          ds = (if s \<noteq> [] \<and> (hd s = CHR ''-'' \<or> hd s = CHR ''+'') then tl s else s);
          n = (if neg then - parse_digits ds else parse_digits ds)
      in if ds = [] \<or> \<not> list_all is_digit ds then None
         else if n < - (2 ^ 63) \<or> n \<ge> 2 ^ 63 then None else Some n)"

section \<open>Splitting what was put together\<close>

text \<open>Text without white space, and text of one line.\<close>

definition word_ok :: "string \<Rightarrow> bool" where
  "word_ok s \<longleftrightarrow> s \<noteq> [] \<and> list_all (\<lambda>c. \<not> is_space c) s"

definition line_ok :: "string \<Rightarrow> bool" where
  "line_ok s \<longleftrightarrow> list_all (\<lambda>c. c \<noteq> CHR 0x0D \<and> c \<noteq> CHR 0x0A) s"

named_theorems go_strings "reading back what was printed"

lemma fields_from_word: "list_all (\<lambda>c. \<not> is_space c) w \<Longrightarrow> fields_from cur (w @ s) = fields_from (cur @ w) s"
  by (induction w arbitrary: cur) auto

lemma Fields_word [go_strings]: "word_ok w \<Longrightarrow> Fields w = [w]"
  using fields_from_word [of w "[]" "[]"] by (simp add: Fields_def word_ok_def)

lemma Fields_cons [go_strings]: "word_ok w \<Longrightarrow> Fields (w @ CHR '' '' # s) = w # Fields s"
  using fields_from_word [of w "[]" "CHR '' '' # s"] by (simp add: Fields_def word_ok_def is_space_def)

lemma split_from_word: "sep \<notin> set w \<Longrightarrow> split_from sep cur (w @ s) = split_from sep (cur @ w) s"
  by (induction w arbitrary: cur) auto

lemma Split_end: "sep \<notin> set w \<Longrightarrow> Split w sep = [w]"
  using split_from_word [of sep w "[]" "[]"] by (simp add: Split_def)

lemma Split_cons: "sep \<notin> set w \<Longrightarrow> Split (w @ sep # s) sep = w # Split s sep"
  using split_from_word [of sep w "[]" "sep # s"] by (simp add: Split_def)

lemma Split_lines:
  "(\<And>l. l \<in> set ls \<Longrightarrow> sep \<notin> set l) \<Longrightarrow> Split (concat (map (\<lambda>l. l @ [sep]) ls)) sep = ls @ [[]]"
  by (induction ls) (simp_all add: Split_cons Split_end)

lemma SplitN2_cut [go_strings]: "sep \<notin> set w \<Longrightarrow> SplitN2 (w @ sep # s) sep = [w, s]"
proof -
  assume w: "sep \<notin> set w"
  then have "takeWhile (\<lambda>c. c \<noteq> sep) (w @ sep # s) = w" "dropWhile (\<lambda>c. c \<noteq> sep) (w @ sep # s) = sep # s"
    by (induction w) auto
  then show ?thesis by (simp add: SplitN2_def)
qed

lemma HasPrefix_append [go_strings]: "HasPrefix (p @ s) p"
  by (simp add: HasPrefix_def)

lemma normalise_line: "line_ok l \<Longrightarrow> normalise_crlf (l @ crlf @ s) = l @ CHR 0x0A # normalise_crlf s"
proof (induction l)
  case Nil
  then show ?case by (cases s) (simp_all add: crlf_def)
next
  case (Cons c l)
  then have "normalise_crlf (l @ crlf @ s) = l @ CHR 0x0A # normalise_crlf s" "c \<noteq> CHR 0x0D"
    by (simp_all add: line_ok_def)
  then show ?case by (cases "l @ crlf @ s") (simp_all add: crlf_def)
qed

lemma normalise_lines:
  "(\<And>l. l \<in> set ls \<Longrightarrow> line_ok l) \<Longrightarrow>
    normalise_crlf (concat (map (\<lambda>l. l @ crlf) ls)) = concat (map (\<lambda>l. l @ [CHR 0x0A]) ls)"
  by (induction ls) (simp_all add: normalise_line)

lemma lines_of_text:
  assumes "\<And>l. l \<in> set ls \<Longrightarrow> line_ok l"
  shows "Split (normalise_crlf (concat (map (\<lambda>l. l @ crlf) ls))) (CHR 0x0A) = ls @ [[]]"
proof -
  have "CHR 0x0A \<notin> set l" if "l \<in> set ls" for l
    using assms [OF that] by (auto simp: line_ok_def list_all_iff)
  then show ?thesis using normalise_lines [OF assms] by (simp add: Split_lines)
qed

lemma TrimSpace_id [go_strings]: "\<not> is_space (hd s) \<Longrightarrow> \<not> is_space (List.last s) \<Longrightarrow> TrimSpace s = s"
proof -
  assume h: "\<not> is_space (hd s)" "\<not> is_space (List.last s)"
  have "dropWhile is_space s = s" using h(1) by (cases s) simp_all
  moreover have "dropWhile is_space (rev s) = rev s" using h(2) by (cases s rule: rev_cases) simp_all
  ultimately show ?thesis by (simp add: TrimSpace_def)
qed

section \<open>Printing and parsing numbers\<close>

lemma digit_char_facts:
  assumes "d < 10"
  shows "is_digit (digit_char d)" "of_char (digit_char d) = d + 48" "\<not> is_space (digit_char d)"
    "digit_char d \<noteq> CHR ''-''" "digit_char d \<noteq> CHR ''+''" "digit_char d \<noteq> CHR '' ''" "digit_char d \<noteq> CHR ''/''"
proof -
  have "\<forall>d \<in> set [0..<10]. is_digit (digit_char d) \<and> of_char (digit_char d) = d + 48 \<and> \<not> is_space (digit_char d)
      \<and> digit_char d \<noteq> CHR ''-'' \<and> digit_char d \<noteq> CHR ''+'' \<and> digit_char d \<noteq> CHR '' '' \<and> digit_char d \<noteq> CHR ''/''"
    by code_simp
  moreover have "d \<in> set [0..<10]" using assms by simp
  ultimately show "is_digit (digit_char d)" "of_char (digit_char d) = d + 48" "\<not> is_space (digit_char d)"
    "digit_char d \<noteq> CHR ''-''" "digit_char d \<noteq> CHR ''+''" "digit_char d \<noteq> CHR '' ''" "digit_char d \<noteq> CHR ''/''"
    by blast+
qed

lemma show_nat_digits: "c \<in> set (show_nat n) \<Longrightarrow> \<exists>d < 10. c = digit_char d"
proof (induction n rule: show_nat.induct)
  case (1 n)
  show ?case
  proof (cases "n < 10")
    case True
    with 1(2) show ?thesis by (subst (asm) show_nat.simps) auto
  next
    case False
    then have "c \<in> set (show_nat (n div 10)) \<or> c = digit_char (n mod 10)"
      using 1(2) by (subst (asm) show_nat.simps) auto
    moreover have "n mod 10 < 10" by simp
    ultimately show ?thesis using 1(1) [OF False] by blast
  qed
qed

lemma show_nat_nonempty: "show_nat n \<noteq> []"
  by (subst show_nat.simps) simp

lemma parse_digits_snoc: "parse_digits (s @ [c]) = 10 * parse_digits s + (int (of_char c) - 48)"
  by (simp add: parse_digits_def)

lemma parse_show_nat: "parse_digits (show_nat n) = int n"
proof (induction n rule: show_nat.induct)
  case (1 n)
  show ?case
  proof (cases "n < 10")
    case True
    then show ?thesis by (subst show_nat.simps) (simp add: parse_digits_def digit_char_facts)
  next
    case False
    then have "parse_digits (show_nat n) = 10 * int (n div 10) + int (n mod 10)"
      using 1 by (subst show_nat.simps) (simp add: parse_digits_snoc digit_char_facts)
    then show ?thesis by (metis div_mult_mod_eq mult.commute of_nat_add of_nat_mult of_nat_numeral)
  qed
qed

lemma word_ok_show_nat [go_strings]: "word_ok (show_nat n)"
  using show_nat_nonempty by (auto simp: word_ok_def list_all_iff dest!: show_nat_digits simp: digit_char_facts)

lemma show_nat_chars [go_strings]: "CHR '' '' \<notin> set (show_nat n)" "CHR ''/'' \<notin> set (show_nat n)"
  by (metis show_nat_digits digit_char_facts(6), metis show_nat_digits digit_char_facts(7))

lemma Atoi_show_nat [go_strings]: "n < 2 ^ 63 \<Longrightarrow> Atoi (show_nat n) = Some (int n)"
proof -
  assume n: "n < 2 ^ 63"
  obtain c s where s: "show_nat n = c # s" using show_nat_nonempty [of n] by (cases "show_nat n") auto
  then obtain d where "d < 10" "c = digit_char d" using show_nat_digits [of c n] by auto
  then have c: "c \<noteq> CHR ''-''" "c \<noteq> CHR ''+''" by (simp_all add: digit_char_facts)
  have "list_all is_digit (show_nat n)"
    by (auto simp: list_all_iff dest!: show_nat_digits simp: digit_char_facts)
  moreover have "int n < 2 ^ 63" using n by (simp only: of_nat_less_numeral_power_cancel_iff)
  ultimately show ?thesis using c s parse_show_nat [of n] by (simp add: Atoi_def)
qed

end
