(* ===== verification/Codec.thy ===== *)
theory Codec
  imports G722 Go_Strings
begin

text \<open>
  The codecs of a call: the factory of \<open>core/codec/codec.go\<close> with the wrappers \<open>g711.go\<close>,
  \<open>g729.go\<close>, \<open>opus.go\<close> and their build-tag stubs, the frame geometry of
  \<open>core/audio/codec_loader.go\<close> and the silence size of \<open>sip/vars.go\<close>. The G.711 tables, libopus and
  bcg729 are third-party code and parameters. The interface \<open>frame_codec\<close> says that one 20 ms frame
  becomes a payload of a fixed size; it is interpreted on every codec with a fixed rate, and gives
  that the silence of the jitter buffer has the size of the audio it replaces.
\<close>

datatype codec = PCMU | PCMA | G722Codec | Opus | G729

datatype codec_error = UnknownCodec string | OpusInit | G729Disabled

text \<open>\<open>opus\<close> says whether the build has cgo and libopus initialises, \<open>g729\<close> is the build tag.\<close>

definition NewCodec :: "bool \<Rightarrow> bool \<Rightarrow> string \<Rightarrow> codec_error + codec" where
  "NewCodec opus g729 name =
     (if name = ''PCMU'' then Inr PCMU
      else if name = ''PCMA'' then Inr PCMA
      else if name = ''G722'' then Inr G722Codec
      else if name = ''OPUS'' then (if opus then Inr Opus else Inl OpusInit)
      else if name = ''G729'' then (if g729 then Inr G729 else Inl G729Disabled)
      else Inl (UnknownCodec name))"

fun codec_Name :: "codec \<Rightarrow> string" where
  "codec_Name PCMU = ''PCMU''"
| "codec_Name PCMA = ''PCMA''"
| "codec_Name G722Codec = ''G722''"
| "codec_Name Opus = ''OPUS''"
| "codec_Name G729 = ''G729''"

fun codec_PayloadType :: "codec \<Rightarrow> byte" where
  "codec_PayloadType PCMU = 0"
| "codec_PayloadType PCMA = 8"
| "codec_PayloadType G722Codec = 9"
| "codec_PayloadType Opus = 111"
| "codec_PayloadType G729 = 18"

fun codec_SampleRate :: "codec \<Rightarrow> int" where
  "codec_SampleRate Opus = 48000"
| "codec_SampleRate _ = 8000"

definition plcPayloadSize :: "string \<Rightarrow> nat" where
  "plcPayloadSize name = (if name = ''G729'' then 20 else if name = ''OPUS'' then 0 else 160)"

definition rateAndFrameForCodec :: "string \<Rightarrow> int \<times> nat" where
  "rateAndFrameForCodec name =
     (if ToUpper name = ''G722'' then (16000, 320)
      else if ToUpper name = ''OPUS'' then (48000, 960)
      else (8000, 160))"

section \<open>Encoding\<close>

text \<open>What the code calls in other libraries: the two G.711 tables, one block of bcg729 with its state,
  and libopus.\<close>

record 'st codec_libs =
  EncodeUlawFrame :: "int \<Rightarrow> byte"
  DecodeUlawFrame :: "byte \<Rightarrow> int"
  EncodeAlawFrame :: "int \<Rightarrow> byte"
  DecodeAlawFrame :: "byte \<Rightarrow> int"
  bcg729Encoder :: "'st \<Rightarrow> int list \<Rightarrow> bytes \<times> 'st"
  bcg729Decoder :: "'st \<Rightarrow> bytes \<Rightarrow> int list \<times> 'st"
  opus_encode :: "'st \<Rightarrow> int list \<Rightarrow> bytes option \<times> 'st"
  opus_decode :: "'st \<Rightarrow> bytes \<Rightarrow> int list option \<times> 'st"

definition pcm_map :: "(int \<Rightarrow> byte) \<Rightarrow> int list \<Rightarrow> bytes" where
  "pcm_map f frame = map f frame"

text \<open>The library writes into a region of 10 zero bytes of the output.\<close>

fun g729_blocks :: "('st \<Rightarrow> int list \<Rightarrow> bytes \<times> 'st) \<Rightarrow> nat \<Rightarrow> int list \<Rightarrow> 'st \<Rightarrow> bytes \<times> 'st" where
  "g729_blocks enc 0 frame st = ([], st)"
| "g729_blocks enc (Suc n) frame st =
     (let (b, st) = enc st (take 80 frame); (bs, st) = g729_blocks enc n (drop 80 frame) st
      in (take 10 (b @ replicate 10 0) @ bs, st))"

definition G729_Encode :: "('st \<Rightarrow> int list \<Rightarrow> bytes \<times> 'st) \<Rightarrow> int list \<Rightarrow> 'st \<Rightarrow> bytes \<times> 'st" where
  "G729_Encode enc frame st =
     (if length frame = 0 then ([], st)
      else if length frame mod 80 \<noteq> 0 then ([], st)
      else g729_blocks enc (length frame div 80) frame st)"

fun g729_unblocks :: "('st \<Rightarrow> bytes \<Rightarrow> int list \<times> 'st) \<Rightarrow> nat \<Rightarrow> bytes \<Rightarrow> 'st \<Rightarrow> int list \<times> 'st" where
  "g729_unblocks dec 0 payload st = ([], st)"
| "g729_unblocks dec (Suc n) payload st =
     (let (b, st) = dec st (take 10 payload); (bs, st) = g729_unblocks dec n (drop 10 payload) st
      in (take 80 (b @ replicate 80 0) @ bs, st))"

definition G729_Decode :: "('st \<Rightarrow> bytes \<Rightarrow> int list \<times> 'st) \<Rightarrow> bytes \<Rightarrow> 'st \<Rightarrow> int list \<times> 'st" where
  "G729_Decode dec payload st =
     (if length payload = 0 then ([], st)
      else if length payload mod 10 \<noteq> 0 then ([], st)
      else g729_unblocks dec (length payload div 10) payload st)"

definition Opus_Encode :: "('st \<Rightarrow> int list \<Rightarrow> bytes option \<times> 'st) \<Rightarrow> int list \<Rightarrow> 'st \<Rightarrow> bytes \<times> 'st" where
  "Opus_Encode enc frame st =
     (if length frame = 0 then ([], st)
      else let (r, st) = enc st frame in (case r of None \<Rightarrow> [] | Some b \<Rightarrow> take 1500 b, st))"

definition Opus_Decode :: "('st \<Rightarrow> bytes \<Rightarrow> int list option \<times> 'st) \<Rightarrow> bytes \<Rightarrow> 'st \<Rightarrow> int list \<times> 'st" where
  "Opus_Decode dec payload st =
     (if length payload = 0 then ([], st)
      else let (r, st) = dec st payload in (case r of None \<Rightarrow> [] | Some b \<Rightarrow> take 960 b, st))"

fun codec_Encode :: "'st codec_libs \<Rightarrow> codec \<Rightarrow> int list \<Rightarrow> 'st \<Rightarrow> bytes \<times> 'st" where
  "codec_Encode L PCMU frame st = (pcm_map (EncodeUlawFrame L) frame, st)"
| "codec_Encode L PCMA frame st = (pcm_map (EncodeAlawFrame L) frame, st)"
| "codec_Encode L G722Codec frame st = (G722Frame frame, st)"
| "codec_Encode L Opus frame st = Opus_Encode (opus_encode L) frame st"
| "codec_Encode L G729 frame st = G729_Encode (bcg729Encoder L) frame st"

fun codec_Decode :: "'st codec_libs \<Rightarrow> codec \<Rightarrow> bytes \<Rightarrow> 'st \<Rightarrow> int list \<times> 'st" where
  "codec_Decode L PCMU payload st = (map (DecodeUlawFrame L) payload, st)"
| "codec_Decode L PCMA payload st = (map (DecodeAlawFrame L) payload, st)"
| "codec_Decode L G722Codec payload st = (G722Decode payload, st)"
| "codec_Decode L Opus payload st = Opus_Decode (opus_decode L) payload st"
| "codec_Decode L G729 payload st = G729_Decode (bcg729Decoder L) payload st"

section \<open>Frames of fixed size\<close>

text \<open>The loader encodes frame by frame. A codec with a fixed rate turns every frame of \<open>samples\<close> samples into \<open>octets\<close> bytes, whatever its state, and
  such a payload back into as many samples.\<close>

fun encode_all :: "(int list \<Rightarrow> 'st \<Rightarrow> bytes \<times> 'st) \<Rightarrow> int list list \<Rightarrow> 'st \<Rightarrow> bytes list" where
  "encode_all enc [] st = []"
| "encode_all enc (f # fs) st = fst (enc f st) # encode_all enc fs (snd (enc f st))"

locale frame_codec =
  fixes encode :: "int list \<Rightarrow> 'st \<Rightarrow> bytes \<times> 'st"
    and decode :: "bytes \<Rightarrow> 'st \<Rightarrow> int list \<times> 'st"
    and samples :: nat and octets :: nat
  assumes encode_size: "length frame = samples \<Longrightarrow> length (fst (encode frame st)) = octets"
    and decode_size: "length payload = octets \<Longrightarrow> length (fst (decode payload st)) = samples"
begin

lemma encode_all_size:
  "(\<And>f. f \<in> set fs \<Longrightarrow> length f = samples) \<Longrightarrow> p \<in> set (encode_all encode fs st) \<Longrightarrow> length p = octets"
  by (induction fs arbitrary: st) (auto simp: encode_size)

lemma roundtrip_size: "length frame = samples \<Longrightarrow> length (fst (decode (fst (encode frame st)) st')) = samples"
  by (simp add: decode_size encode_size)

end

lemma length_g722_encode: "length (g722_encode s xs) = (length xs + 1) div 2"
  by (induction xs arbitrary: s rule: induct_list012) (simp_all add: split_beta Let_def)

lemma length_g722_decode: "length (g722_decode s bs) = 2 * length bs"
  by (induction bs arbitrary: s) (simp_all add: split_beta Let_def)

lemma length_g729_blocks: "length (fst (g729_blocks enc n frame st)) = 10 * n"
  by (induction n arbitrary: frame st) (simp_all add: split_beta Let_def)

lemma length_g729_unblocks: "length (fst (g729_unblocks dec n payload st)) = 80 * n"
  by (induction n arbitrary: payload st) (simp_all add: split_beta Let_def)

interpretation pcmu: frame_codec "codec_Encode L PCMU" "codec_Decode L PCMU" 160 160 for L
  by unfold_locales (simp_all add: pcm_map_def)

interpretation pcma: frame_codec "codec_Encode L PCMA" "codec_Decode L PCMA" 160 160 for L
  by unfold_locales (simp_all add: pcm_map_def)

interpretation g722: frame_codec "codec_Encode L G722Codec" "codec_Decode L G722Codec" 320 160 for L
  by unfold_locales (simp_all add: G722Frame_def G722Decode_def length_g722_encode length_g722_decode)

interpretation g729: frame_codec "codec_Encode L G729" "codec_Decode L G729" 160 20 for L
  by unfold_locales (simp_all add: G729_Encode_def G729_Decode_def length_g729_blocks length_g729_unblocks)

text \<open>For every codec that the factory makes except Opus, one 20 ms frame of the loader encodes to a
  payload of exactly the size that the jitter buffer uses for its silence, and decodes back to a
  frame of the same length, whatever the state of the library. Opus is the only codec for which
  silence is skipped.\<close>
theorem plc_matches_frame:
  assumes "NewCodec opus g729 name = Inr c" "length frame = snd (rateAndFrameForCodec (codec_Name c))"
  shows "if c = Opus then plcPayloadSize (codec_Name c) = 0
    else length (fst (codec_Encode L c frame st)) = plcPayloadSize (codec_Name c)
      \<and> length (fst (codec_Decode L c (fst (codec_Encode L c frame st)) st')) = length frame"
proof -
  have n: "rateAndFrameForCodec (codec_Name PCMU) = (8000, 160)" "rateAndFrameForCodec (codec_Name PCMA) = (8000, 160)"
    "rateAndFrameForCodec (codec_Name G722Codec) = (16000, 320)" "rateAndFrameForCodec (codec_Name G729) = (8000, 160)"
    by code_simp+
  show ?thesis
  proof (cases c)
    case PCMU
    with assms(2) n(1) show ?thesis
      using pcmu.encode_size [of frame L st] pcmu.roundtrip_size [of frame L st st'] by (simp add: plcPayloadSize_def)
  next
    case PCMA
    with assms(2) n(2) show ?thesis
      using pcma.encode_size [of frame L st] pcma.roundtrip_size [of frame L st st'] by (simp add: plcPayloadSize_def)
  next
    case G722Codec
    with assms(2) n(3) show ?thesis
      using g722.encode_size [of frame L st] g722.roundtrip_size [of frame L st st'] by (simp add: plcPayloadSize_def)
  next
    case G729
    with assms(2) n(4) show ?thesis
      using g729.encode_size [of frame L st] g729.roundtrip_size [of frame L st st'] by (simp add: plcPayloadSize_def)
  qed (simp add: plcPayloadSize_def)
qed

theorem plc_matches_frame_witness:
  "\<forall>L (st :: unit). length (fst (codec_Encode L G722Codec (replicate 320 0) st)) = 160"
proof (intro allI)
  fix L and st :: unit
  have "NewCodec True True ''G722'' = Inr G722Codec" by (simp add: NewCodec_def)
  moreover have "length (replicate 320 (0 :: int)) = snd (rateAndFrameForCodec (codec_Name G722Codec))" by code_simp
  ultimately have "length (fst (codec_Encode L G722Codec (replicate 320 0) st)) = plcPayloadSize (codec_Name G722Codec)"
    using plc_matches_frame [of True True "''G722''" G722Codec "replicate 320 0" L st st] by (simp del: codec_Encode.simps)
  then show "length (fst (codec_Encode L G722Codec (replicate 320 0) st)) = 160" by (simp add: plcPayloadSize_def)
qed

end
