(* ===== verification/Audio.thy ===== *)
theory Audio
  imports Float64 Codec
begin

text \<open>
  Preparation of audio (\<open>core/audio/pcm.go\<close>, \<open>frame.go\<close>, \<open>silence.go\<close>, \<open>loader.go\<close>,
  \<open>codec_loader.go\<close>): clamping, framing, silence ratios, format detection, downmix, resampling in
  binary64 arithmetic and the loading of a file for a codec. The WAV and MP3 decoders and the file
  system are parameters. The theory shows that framing loses only an incomplete tail, that the
  downmix never overflows and averages, that resampling never leaves the range of the two samples
  it interpolates, and what the loader returns.
\<close>

section \<open>Samples and frames\<close>

definition IntToInt16 :: "int list \<Rightarrow> int list" where
  "IntToInt16 = map (\<lambda>v. i16 (if v > 32767 then 32767 else if v < -32768 then -32768 else v))"

definition FrameSize :: nat where
  "FrameSize = 160"

text \<open>A frame size of 0 is a division by zero, a panic.\<close>

definition SplitFrames :: "int list \<Rightarrow> nat \<Rightarrow> int list list option" where
  "SplitFrames samples frameSize =
     (if frameSize = 0 then None
      else let count = length samples div frameSize
        in Some (map (\<lambda>i. take frameSize (drop (i * frameSize) samples)) [0..<count]))"

text \<open>A count of \<open>int16\<close> samples within the threshold over the number of samples.\<close>

definition SilenceRatio :: "int list \<Rightarrow> float64" where
  "SilenceRatio samples =
     (if samples = [] then 1
      else fdiv (fint (int (length (filter (\<lambda>s. -100 \<le> s \<and> s \<le> 100) samples)))) (fint (int (length samples))))"

definition SilenceRatioBytes :: "bytes \<Rightarrow> float64" where
  "SilenceRatioBytes pcmu =
     (if pcmu = [] then 1
      else fdiv (fint (int (length (filter (\<lambda>b. b = 0xFF \<or> b = 0x7F) pcmu)))) (fint (int (length pcmu))))"

section \<open>Format\<close>

datatype audio_format = WAV | MP3 | UnknownFormat

fun fileExt_loop :: "string \<Rightarrow> nat \<Rightarrow> string" where
  "fileExt_loop path 0 = []"
| "fileExt_loop path (Suc i) = (if path ! i = CHR ''.'' then drop i path else fileExt_loop path i)"

definition fileExt :: "string \<Rightarrow> string" where
  "fileExt path = fileExt_loop path (length path)"

definition ascii :: "string \<Rightarrow> bytes" where
  "ascii = map (\<lambda>c. of_char c)"

definition detectFormat :: "bytes \<Rightarrow> string \<Rightarrow> audio_format" where
  "detectFormat data path =
     (if length data \<ge> 12 \<and> take 4 data = ascii ''RIFF'' \<and> take 4 (drop 8 data) = ascii ''WAVE'' then WAV
      else if length data \<ge> 3 \<and> take 3 data = ascii ''ID3'' then MP3
      else if length data \<ge> 3 \<and> data ! 0 = 0xFF \<and> data ! 1 AND 0xE0 = 0xE0 then MP3
      else if ToLower (fileExt path) = ''.wav'' then WAV
      else if ToLower (fileExt path) = ''.mp3'' then MP3
      else UnknownFormat)"

section \<open>Downmix\<close>

text \<open>The inner loop over the channels of sample \<open>i\<close>, with its bounds check.\<close>

fun channel_sum :: "int list \<Rightarrow> nat \<Rightarrow> nat \<Rightarrow> nat \<Rightarrow> nat \<Rightarrow> int \<Rightarrow> int" where
  "channel_sum samples channels i 0 ch acc = acc"
| "channel_sum samples channels i (Suc n) ch acc =
     channel_sum samples channels i n (ch + 1)
       (let idx = i * channels + ch in if idx < length samples then i32 (acc + samples ! idx) else acc)"

definition toMono :: "int list \<Rightarrow> nat \<Rightarrow> int list" where
  "toMono samples channels =
     (if channels \<le> 1 then samples
      else map (\<lambda>i. i16 (channel_sum samples channels i channels 0 0 sdiv i32 (int channels)))
             [0..<length samples div channels])"

section \<open>Resampling\<close>

definition resample_at :: "int list \<Rightarrow> float64 \<Rightarrow> nat \<Rightarrow> int" where
  "resample_at samples ratio i =
     (let srcPos = fmul (fint (int i)) ratio;
          idx = trunc64 srcPos;
          fr = fsub srcPos (fint idx)
      in if idx \<ge> int (length samples) - 1 then samples ! (length samples - 1)
         else
           let s0 = fint (samples ! nat idx);
               s1 = fint (samples ! nat (idx + 1))
           in i16 (trunc64 (fadd s0 (fmul fr (fsub s1 s0)))))"

text \<open>A source rate of 0 makes \<open>outLen\<close> the conversion of an infinity, which is no valid length:
  \<open>make\<close> panics (\<open>None\<close>).\<close>

definition resample :: "int list \<Rightarrow> int \<Rightarrow> int \<Rightarrow> int list option" where
  "resample samples srcRate dstRate =
     (if srcRate = dstRate \<or> samples = [] then Some samples
      else
        let ratio = fdiv (fint srcRate) (fint dstRate) in
        if ratio = 0 then None
        else
          let outLen = trunc64 (math_round (fdiv (fint (int (length samples))) ratio))
          in Some (map (resample_at samples ratio) [0..<nat outLen]))"

section \<open>Loading\<close>

record audio_file =
  af_Samples :: "int list"
  af_SampleRate :: int
  af_Channels :: nat

datatype load_error = NilCodec | ReadFailed | UnsupportedFormat | DecodeFailed string

text \<open>\<open>mp3\<close> gives the sample rate and the raw bytes of the decoder's stereo output.\<close>

fun le_pairs :: "bytes \<Rightarrow> int list" where
  "le_pairs (lo # hi # rest) = i16 (uint (ucast lo OR push_bit 8 (ucast hi) :: u16)) # le_pairs rest"
| "le_pairs _ = []"

definition decodeMP3 :: "(bytes \<Rightarrow> string + int \<times> bytes) \<Rightarrow> bytes \<Rightarrow> load_error + audio_file" where
  "decodeMP3 mp3 data = (case mp3 data of
       Inl e \<Rightarrow> Inl (DecodeFailed e)
     | Inr (rate, raw) \<Rightarrow> Inr \<lparr>af_Samples = le_pairs raw, af_SampleRate = rate, af_Channels = 2\<rparr>)"

text \<open>\<open>wav\<close> gives sample rate, channels and the interleaved integers of the decoder.\<close>

definition decodeWAV :: "(bytes \<Rightarrow> string + int \<times> nat \<times> int list) \<Rightarrow> bytes \<Rightarrow> load_error + audio_file" where
  "decodeWAV wav data = (case wav data of
       Inl e \<Rightarrow> Inl (DecodeFailed e)
     | Inr (rate, channels, ints) \<Rightarrow>
         Inr \<lparr>af_Samples = IntToInt16 ints, af_SampleRate = rate, af_Channels = channels\<rparr>)"

definition LoadAudio ::
    "(string \<Rightarrow> bytes option) \<Rightarrow> (bytes \<Rightarrow> string + int \<times> nat \<times> int list) \<Rightarrow> (bytes \<Rightarrow> string + int \<times> bytes)
      \<Rightarrow> string \<Rightarrow> int \<Rightarrow> load_error + int list option" where
  "LoadAudio files wav mp3 path targetRate = (case files path of
       None \<Rightarrow> Inl ReadFailed
     | Some data \<Rightarrow>
         result_bind (case detectFormat data path of
             WAV \<Rightarrow> decodeWAV wav data
           | MP3 \<Rightarrow> decodeMP3 mp3 data
           | UnknownFormat \<Rightarrow> Inl UnsupportedFormat) (\<lambda>af.
         let mono = toMono (af_Samples af) (af_Channels af)
         in Inr (if af_SampleRate af \<noteq> targetRate then resample mono (af_SampleRate af) targetRate else Some mono)))"

text \<open>Both loaders with an encoder: \<open>encode\<close> is the encoder on its state.\<close>

definition LoadAudioAsPayloads ::
    "(string \<Rightarrow> bytes option) \<Rightarrow> (bytes \<Rightarrow> string + int \<times> nat \<times> int list) \<Rightarrow> (bytes \<Rightarrow> string + int \<times> bytes)
      \<Rightarrow> string \<Rightarrow> int \<Rightarrow> nat \<Rightarrow> (int list \<Rightarrow> 'st \<Rightarrow> bytes \<times> 'st) \<Rightarrow> 'st \<Rightarrow> load_error + bytes list option" where
  "LoadAudioAsPayloads files wav mp3 path targetRate frameSize encode st =
     result_bind (LoadAudio files wav mp3 path targetRate) (\<lambda>samples.
       Inr (Option.bind samples (\<lambda>samples. Option.bind (SplitFrames samples frameSize)
         (\<lambda>fs. Some (encode_all encode fs st)))))"

definition LoadAudioForCodec ::
    "(string \<Rightarrow> bytes option) \<Rightarrow> (bytes \<Rightarrow> string + int \<times> nat \<times> int list) \<Rightarrow> (bytes \<Rightarrow> string + int \<times> bytes)
      \<Rightarrow> 'st codec_libs \<Rightarrow> string \<Rightarrow> codec option \<Rightarrow> 'st \<Rightarrow> load_error + bytes list option" where
  "LoadAudioForCodec files wav mp3 L path cod st = (case cod of
       None \<Rightarrow> Inl NilCodec
     | Some cod \<Rightarrow>
         let (targetRate, frameSize) = rateAndFrameForCodec (codec_Name cod)
         in result_bind (LoadAudio files wav mp3 path targetRate) (\<lambda>samples.
              Inr (Option.bind samples (\<lambda>samples. Option.bind (SplitFrames samples frameSize)
                (\<lambda>fs. Some (encode_all (codec_Encode L cod) fs st))))))"

section \<open>Framing\<close>

lemma concat_frames:
  "n * f \<le> length xs \<Longrightarrow> concat (map (\<lambda>i. take f (drop (i * f) xs)) [0..<n]) = take (n * f) xs"
proof (induction n)
  case 0
  then show ?case by simp
next
  case (Suc n)
  have "take (n * f) xs @ take f (drop (n * f) xs) = take (n * f + f) xs" by (simp add: take_add)
  with Suc show ?case by (simp add: add.commute)
qed

lemma split_frames_sizes: "f \<in> set (map (\<lambda>i. take n (drop (i * n) xs)) [0..<length xs div n]) \<Longrightarrow> length f = n"
proof -
  assume "f \<in> set (map (\<lambda>i. take n (drop (i * n) xs)) [0..<length xs div n])"
  then obtain i where i: "i < length xs div n" "f = take n (drop (i * n) xs)" by auto
  then have "(i + 1) * n \<le> length xs div n * n" by (intro mult_right_mono) simp_all
  then have "(i + 1) * n \<le> length xs" by (rule order_trans) simp
  then have "n \<le> length xs - i * n" by simp
  then show ?thesis unfolding i(2) by simp
qed

text \<open>Framing cuts the samples into consecutive frames of the given size and loses nothing but a
  tail shorter than one frame.\<close>
theorem split_frames_exact:
  assumes "frameSize > 0"
  shows "\<exists>fs. SplitFrames samples frameSize = Some fs \<and> (\<forall>f \<in> set fs. length f = frameSize)
    \<and> length fs = length samples div frameSize
    \<and> samples = concat fs @ drop (length fs * frameSize) samples
    \<and> length (drop (length fs * frameSize) samples) < frameSize"
proof -
  let ?n = "length samples div frameSize"
  let ?fs = "map (\<lambda>i. take frameSize (drop (i * frameSize) samples)) [0..<?n]"
  have n: "?n * frameSize \<le> length samples" by simp
  have "length f = frameSize" if "f \<in> set ?fs" for f using split_frames_sizes [OF that] .
  moreover have "length (drop (?n * frameSize) samples) < frameSize"
    using assms by (simp add: minus_div_mult_eq_mod)
  moreover have "samples = concat ?fs @ drop (?n * frameSize) samples"
    by (simp add: concat_frames [OF n])
  moreover have "SplitFrames samples frameSize = Some ?fs" "length ?fs = ?n"
    using assms by (simp_all add: SplitFrames_def)
  ultimately show ?thesis by metis
qed

theorem split_frames_exact_witness:
  "\<exists>fs. SplitFrames [1, 2, 3, 4, 5] 2 = Some fs \<and> length fs = 2 \<and> (\<forall>f \<in> set fs. length f = 2)"
  using split_frames_exact [of 2 "[1, 2, 3, 4, 5]"] by auto

section \<open>Downmix\<close>

lemma channel_sum_bound:
  assumes "\<And>x. x \<in> set samples \<Longrightarrow> i16_ok x" "(i + 1) * channels \<le> length samples"
  shows "ch + n \<le> channels \<Longrightarrow> channels \<le> 65535 \<Longrightarrow> - 32768 * int ch \<le> acc \<Longrightarrow> acc \<le> 32767 * int ch \<Longrightarrow>
    channel_sum samples channels i n ch acc = acc + (\<Sum>c\<in>{ch..<ch + n}. samples ! (i * channels + c))
    \<and> - 32768 * int (ch + n) \<le> channel_sum samples channels i n ch acc
    \<and> channel_sum samples channels i n ch acc \<le> 32767 * int (ch + n)"
proof (induction n arbitrary: ch acc)
  case 0
  then show ?case by simp
next
  case (Suc n)
  let ?x = "samples ! (i * channels + ch)"
  have idx: "i * channels + ch < length samples"
    using assms(2) Suc.prems(1) by (simp add: algebra_simps)
  then have x: "- 32768 \<le> ?x" "?x \<le> 32767" using assms(1) nth_mem by (fastforce simp: i16_ok_def)+
  have acc: "- 32768 * int (ch + 1) \<le> acc + ?x" "acc + ?x \<le> 32767 * int (ch + 1)"
    using Suc.prems(3,4) x by simp_all
  have "int (ch + 1) \<le> 65535" using Suc.prems(1,2) by simp
  then have "- 32768 * 65535 \<le> - 32768 * int (ch + 1)" "32767 * int (ch + 1) \<le> 32767 * 65535"
    by (simp_all only: mult_le_cancel_left) simp_all
  then have "-2147483648 \<le> acc + ?x" "acc + ?x \<le> 2147483647" using acc by linarith+
  then have "i32 (acc + ?x) = acc + ?x" by (rule i32_id)
  then have "channel_sum samples channels i (Suc n) ch acc = channel_sum samples channels i n (ch + 1) (acc + ?x)"
    using idx by simp
  moreover have "{ch..<ch + Suc n} = insert ch {ch + 1..<ch + 1 + n}" by auto
  ultimately show ?case
    using Suc.IH [of "ch + 1" "acc + ?x"] Suc.prems acc by simp
qed

lemma sdiv_between:
  assumes "0 < c" "- 32768 * c \<le> a" "a \<le> 32767 * c"
  shows "- 32768 \<le> a sdiv c" "a sdiv c \<le> (32767 :: int)"
proof -
  have "\<bar>a\<bar> div c \<le> 32767" if "0 \<le> a"
    using that assms zdiv_mono1 [of a "32767 * c" c] by simp
  moreover have "\<bar>a\<bar> div c \<le> 32768" if "a < 0"
    using that assms zdiv_mono1 [of "- a" "32768 * c" c] by simp
  moreover have "0 \<le> \<bar>a\<bar> div c" using assms(1) by (simp add: pos_imp_zdiv_nonneg_iff)
  ultimately show "- 32768 \<le> a sdiv c" "a sdiv c \<le> 32767"
    using assms(1) by (cases "a < 0"; cases "a = 0"; simp add: signed_divide_int_def)+
qed

text \<open>The downmix of interleaved 16-bit audio of up to 65535 channels is, per sample, the sum of its
  channels divided by their number (rounded towards zero); neither the 32-bit sum nor the 16-bit
  result overflows.\<close>
theorem mono_is_average:
  assumes "\<And>x. x \<in> set samples \<Longrightarrow> i16_ok x" "2 \<le> channels" "channels \<le> 65535" "i < length samples div channels"
  shows "length (toMono samples channels) = length samples div channels
    \<and> toMono samples channels ! i = (\<Sum>c<channels. samples ! (i * channels + c)) sdiv int channels
    \<and> i16_ok (toMono samples channels ! i)"
proof -
  have "(i + 1) * channels \<le> length samples div channels * channels"
    using assms(4) by (intro mult_right_mono) simp_all
  also have "\<dots> \<le> length samples" by simp
  finally have "(i + 1) * channels \<le> length samples" .
  from channel_sum_bound [OF assms(1) this, of 0 channels 0] assms(3)
  have s: "channel_sum samples channels i channels 0 0 = (\<Sum>c<channels. samples ! (i * channels + c))"
    "- 32768 * int channels \<le> channel_sum samples channels i channels 0 0"
    "channel_sum samples channels i channels 0 0 \<le> 32767 * int channels"
    by (simp_all add: atLeast0LessThan)
  have "i32 (int channels) = int channels" using assms(3) by (intro i32_id) simp_all
  moreover note r = sdiv_between [OF _ s(2,3)]
  ultimately show ?thesis
    using assms(2,4) s(1) by (simp add: toMono_def i16_id i16_ok_def)
qed

theorem mono_is_average_witness: "toMono [100, 200, -7, -8] 2 ! 1 = -7"
proof -
  have "\<And>x. x \<in> set [100, 200, -7, -8 :: int] \<Longrightarrow> i16_ok x" by (auto simp: i16_ok_def)
  from mono_is_average [where samples = "[100, 200, -7, -8]" and channels = 2 and i = 1, OF this]
  have "toMono [100, 200, -7, -8] 2 ! 1 = (\<Sum>c<2. [100, 200, -7, -8 :: int] ! (2 + c)) sdiv 2"
    by simp
  also have "\<dots> = -7" by (simp add: numeral_2_eq_2 signed_divide_int_def)
  finally show ?thesis .
qed

section \<open>Interpolation\<close>

lemma trunc64_between: "of_int m \<le> x \<Longrightarrow> x \<le> of_int n \<Longrightarrow> m \<le> trunc64 x \<and> trunc64 x \<le> n"
  by (auto simp: trunc64_def le_floor_iff floor_le_iff le_ceiling_iff ceiling_le_iff)

text \<open>One interpolated value lies between its two neighbours.\<close>

lemma interpolate_between:
  assumes fr: "0 \<le> fr" "fr \<le> 1" and a: "\<bar>a\<bar> \<le> 32768" and b: "\<bar>b\<bar> \<le> (32768 :: int)"
  shows "min a b \<le> trunc64 (fadd (fint a) (fmul fr (fsub (fint b) (fint a))))
    \<and> trunc64 (fadd (fint a) (fmul fr (fsub (fint b) (fint a)))) \<le> max a b"
proof -
  let ?d = "b - a"
  have d: "fsub (fint b) (fint a) = of_int ?d"
    using a b fl64_of_int [of ?d] by (simp add: fsub_def fint_exact flip: of_int_diff)
  let ?m = "fmul fr (of_int ?d)"
  have m: "of_int (min 0 ?d) \<le> ?m \<and> ?m \<le> of_int (max 0 ?d)"
  proof (cases "0 \<le> ?d")
    case True
    then have "0 \<le> fr * of_int ?d" "fr * of_int ?d \<le> of_int ?d"
      using fr mult_right_mono [of fr 1 "of_int ?d"] by simp_all
    then have "of_int 0 \<le> ?m" "?m \<le> of_int ?d"
      unfolding fmul_def by (intro fl64_ge_int fl64_le_int; use a b in simp)+
    with True show ?thesis by simp
  next
    case False
    then have "fr * of_int ?d \<le> 0" "of_int ?d \<le> fr * of_int ?d"
      using fr mult_right_mono_neg [of fr 1 "of_int ?d"] by (simp_all add: mult_nonneg_nonpos)
    then have "?m \<le> of_int 0" "of_int ?d \<le> ?m"
      unfolding fmul_def by (intro fl64_ge_int fl64_le_int; use a b in simp)+
    with False show ?thesis by simp
  qed
  have "of_int (min a b) \<le> fadd (of_int a) ?m"
  proof -
    have "min a b = a + min 0 ?d" by simp
    then have "(of_int (min a b) :: rat) \<le> of_int a + ?m" using m by (simp del: of_int_min)
    then show ?thesis unfolding fadd_def using a b by (intro fl64_ge_int) simp_all
  qed
  moreover have "fadd (of_int a) ?m \<le> of_int (max a b)"
  proof -
    have "max a b = a + max 0 ?d" by simp
    then have "of_int a + ?m \<le> (of_int (max a b) :: rat)" using m by (simp del: of_int_max)
    then show ?thesis unfolding fadd_def using a b by (intro fl64_le_int) simp_all
  qed
  ultimately show ?thesis using d a by (intro trunc64_between) (simp_all add: fint_exact)
qed

lemma i16_between: "i16_ok a \<Longrightarrow> i16_ok b \<Longrightarrow> min a b \<le> v \<and> v \<le> max a b \<Longrightarrow> i16 v = v"
  by (intro i16_id) (auto simp: i16_ok_def min_def max_def split: if_splits)

lemma resample_ratio_pos:
  assumes "0 < srcRate" "srcRate \<le> 2147483648" "0 < dstRate" "dstRate \<le> 2147483648"
  shows "0 < fdiv (fint srcRate) (fint dstRate)"
proof -
  have "fint srcRate = of_int srcRate" "fint dstRate = of_int dstRate"
    by (rule fint_exact; use assms in simp)+
  have "(2 powi (- 31) :: rat) \<le> of_int srcRate / of_int dstRate"
  proof -
    have "(of_int dstRate :: rat) \<le> of_int 2147483648" using assms(4) by (simp only: of_int_le_iff)
    then have d: "(of_int dstRate :: rat) \<le> 2147483648" by simp
    have s: "(1 :: rat) \<le> of_int srcRate" using assms(1) by simp
    have q: "(1 :: rat) / 2147483648 \<le> of_int srcRate / of_int dstRate"
      by (rule frac_le) (use d s assms(3) in simp_all)
    have "(2 powi (- 31) :: rat) = 1 / 2147483648" by (simp add: power_int_def field_simps)
    then show ?thesis using q by (simp only:)
  qed
  then have "fl64 (2 powi (- 31)) \<le> fl64 (of_int srcRate / of_int dstRate)" by (rule fl64_mono)
  moreover have "fl64 (of_int 1 * 2 powi (- 31)) = of_int 1 * 2 powi (- 31)" by (rule fl64_exact) simp_all
  moreover have "(0 :: rat) < of_int 1 * 2 powi (- 31)" by simp
  ultimately have "0 < fl64 (of_int srcRate / of_int dstRate)"
    by (simp only: of_int_1 mult_1)
  with \<open>fint srcRate = of_int srcRate\<close> \<open>fint dstRate = of_int dstRate\<close> show ?thesis
    by (simp only: fdiv_def)
qed

text \<open>Resampling with positive rates never panics, and every output sample lies between the two input
  samples next to its position (beyond the last one it repeats the last sample), so the conversion
  to 16 bits never wraps.\<close>
theorem resample_between:
  assumes "0 < srcRate" "srcRate \<le> 2147483648" "0 < dstRate" "dstRate \<le> 2147483648"
    "samples \<noteq> []" "length samples < 2 ^ 31" "\<And>x. x \<in> set samples \<Longrightarrow> i16_ok x" "srcRate \<noteq> dstRate"
  shows "\<exists>out. resample samples srcRate dstRate = Some out \<and> (\<forall>i < length out. \<exists>j < length samples.
      min (samples ! j) (samples ! min (j + 1) (length samples - 1)) \<le> out ! i
      \<and> out ! i \<le> max (samples ! j) (samples ! min (j + 1) (length samples - 1)))"
proof -
  let ?r = "fdiv (fint srcRate) (fint dstRate)" and ?n = "length samples - 1"
  have r: "0 < ?r" using assms(1-4) by (rule resample_ratio_pos)
  have n: "?n < length samples" using assms(5) by simp
  have len: "int (length samples) < 2 ^ 31"
    using assms(6) by (simp only: of_nat_less_numeral_power_cancel_iff)
  have rng: "\<bar>samples ! k\<bar> \<le> 32768" if "k < length samples" for k
    using assms(7) [OF nth_mem [OF that]] by (simp add: i16_ok_def abs_le_iff)
  have main: "\<exists>j < length samples. min (samples ! j) (samples ! min (j + 1) ?n) \<le> resample_at samples ?r i
      \<and> resample_at samples ?r i \<le> max (samples ! j) (samples ! min (j + 1) ?n)" for i
  proof -
    let ?p = "fmul (fint (int i)) ?r"
    have p: "0 \<le> ?p" using r by (simp add: fmul_def fl64_nonneg fint_nonneg)
    then have t: "trunc64 ?p = \<lfloor>?p\<rfloor>" "0 \<le> \<lfloor>?p\<rfloor>" by (simp_all add: trunc64_def)
    show ?thesis
    proof (cases "int (length samples) - 1 \<le> \<lfloor>?p\<rfloor>")
      case True
      then show ?thesis using n t by (intro exI [of _ ?n]) (simp add: resample_at_def Let_def)
    next
      case False
      let ?j = "nat \<lfloor>?p\<rfloor>"
      have j: "?j + 1 < length samples" "nat (\<lfloor>?p\<rfloor> + 1) = ?j + 1" using False t(2) by linarith+
      have "\<lfloor>?p\<rfloor> < 2 ^ 31" using False len by linarith
      then have "\<bar>\<lfloor>?p\<rfloor>\<bar> < 2 ^ 53" unfolding abs_of_nonneg [OF t(2)] by (rule less_trans) simp
      then have fl: "fint \<lfloor>?p\<rfloor> = of_int \<lfloor>?p\<rfloor>" by (rule fint_exact)
      have "0 \<le> ?p - of_int \<lfloor>?p\<rfloor>" "?p - of_int \<lfloor>?p\<rfloor> \<le> of_int 1"
        using floor_correct [of ?p] by (simp_all add: algebra_simps)
      then have fr: "0 \<le> fsub ?p (fint \<lfloor>?p\<rfloor>)" "fsub ?p (fint \<lfloor>?p\<rfloor>) \<le> 1"
        unfolding fl fsub_def using fl64_le_int [of "?p - of_int \<lfloor>?p\<rfloor>" 1] by (simp_all add: fl64_nonneg)
      let ?v = "trunc64 (fadd (fint (samples ! ?j)) (fmul (fsub ?p (fint \<lfloor>?p\<rfloor>))
          (fsub (fint (samples ! (?j + 1))) (fint (samples ! ?j)))))"
      have b: "min (samples ! ?j) (samples ! (?j + 1)) \<le> ?v \<and> ?v \<le> max (samples ! ?j) (samples ! (?j + 1))"
        using fr j(1) by (intro interpolate_between rng) simp_all
      have "i16_ok (samples ! ?j)" "i16_ok (samples ! (?j + 1))" using assms(7) j(1) by simp_all
      then have "i16 ?v = ?v" using b by (rule i16_between)
      then have "resample_at samples ?r i = ?v" using False t j by (simp add: resample_at_def Let_def)
      moreover have "min (?j + 1) ?n = ?j + 1" "?j < length samples" using j(1) by linarith+
      ultimately show ?thesis using b by metis
    qed
  qed
  show ?thesis using assms(5,8) r main by (auto simp: resample_def Let_def)
qed

theorem resample_between_witness:
  "\<exists>out. resample [1000, -1000] 8000 16000 = Some out \<and> (\<forall>i < length out. -1000 \<le> out ! i \<and> out ! i \<le> 1000)"
proof -
  have "\<exists>out. resample [1000, -1000] 8000 16000 = Some out \<and> (\<forall>i < length out. \<exists>j < length [1000, -1000 :: int].
      min ([1000, -1000] ! j) ([1000, -1000] ! min (j + 1) (length [1000, -1000 :: int] - 1)) \<le> out ! i
      \<and> out ! i \<le> max ([1000, -1000] ! j) ([1000, -1000] ! min (j + 1) (length [1000, -1000 :: int] - 1)))"
    by (rule resample_between) (auto simp: i16_ok_def)
  then show ?thesis by (fastforce simp: less_Suc_eq numeral_2_eq_2)
qed

section \<open>Loading\<close>

lemma split_frames_size: "SplitFrames xs n = Some fs \<Longrightarrow> f \<in> set fs \<Longrightarrow> length f = n"
  using split_frames_sizes [of f n xs] by (auto simp: SplitFrames_def split: if_splits)

text \<open>A file that loads for one of the fixed-rate codecs becomes payloads of exactly the size of a
  silence payload of that codec (160 bytes, or 20 for G.729), whatever the decoder returned.\<close>
theorem loaded_payload_sizes:
  assumes "LoadAudioForCodec files wav mp3 L path (Some c) st = Inr (Some payloads)" "c \<noteq> Opus" "p \<in> set payloads"
  shows "length p = plcPayloadSize (codec_Name c)"
proof -
  let ?f = "snd (rateAndFrameForCodec (codec_Name c))"
  from assms(1) obtain s samples fs where fs: "SplitFrames samples ?f = Some fs"
    and p: "payloads = encode_all (codec_Encode L c) fs st"
    by (auto simp: LoadAudioForCodec_def split_beta result_bind_Inr bind_eq_Some_conv)
  have n: "snd (rateAndFrameForCodec (codec_Name PCMU)) = 160" "snd (rateAndFrameForCodec (codec_Name PCMA)) = 160"
    "snd (rateAndFrameForCodec (codec_Name G722Codec)) = 320" "snd (rateAndFrameForCodec (codec_Name G729)) = 160"
    by code_simp+
  note size = split_frames_size [OF fs]
  show ?thesis
  proof (cases c)
    case PCMU
    with size n(1) have "length p = 160"
      using assms(3) p by (intro pcmu.encode_all_size [of fs p L st]) simp_all
    with PCMU show ?thesis by (simp add: plcPayloadSize_def)
  next
    case PCMA
    with size n(2) have "length p = 160"
      using assms(3) p by (intro pcma.encode_all_size [of fs p L st]) simp_all
    with PCMA show ?thesis by (simp add: plcPayloadSize_def)
  next
    case G722Codec
    with size n(3) have "length p = 160"
      using assms(3) p by (intro g722.encode_all_size [of fs p L st]) simp_all
    with G722Codec show ?thesis by (simp add: plcPayloadSize_def)
  next
    case G729
    with size n(4) have "length p = 20"
      using assms(3) p by (intro g729.encode_all_size [of fs p L st]) simp_all
    with G729 show ?thesis by (simp add: plcPayloadSize_def)
  qed (use assms(2) in simp)
qed

text \<open>A WAV file with more than 16 bits per sample is clipped, not scaled: when every integer of the
  decoder is outside the 16-bit range, loading keeps only its sign, at full scale.\<close>
theorem wide_wav_is_clipped:
  assumes "files path = Some data" "detectFormat data path = WAV" "wav data = Inr (targetRate, 1, ints)"
    "\<And>v. v \<in> set ints \<Longrightarrow> \<bar>v\<bar> > 32768"
  shows "LoadAudio files wav mp3 path targetRate = Inr (Some (map (\<lambda>v. if v > 0 then 32767 else -32768) ints))"
proof -
  have "IntToInt16 ints = map (\<lambda>v. if v > 0 then 32767 else -32768) ints"
    unfolding IntToInt16_def
  proof (rule map_cong [OF refl])
    fix v
    assume "v \<in> set ints"
    from assms(4) [OF this] show "i16 (if 32767 < v then 32767 else if v < -32768 then -32768 else v) = (if v > 0 then 32767 else -32768)"
      by (auto simp: i16_id)
  qed
  with assms(1-3) show ?thesis by (simp add: LoadAudio_def decodeWAV_def toMono_def)
qed

definition wav24 :: "bytes \<Rightarrow> string + int \<times> nat \<times> int list" where
  "wav24 data = Inr (8000, 1, [4000000, 100000, -100000])"

theorem wide_wav_is_clipped_witness:
  "LoadAudio (\<lambda>_. Some []) wav24 (\<lambda>_. Inl []) ''a.wav'' 8000 = Inr (Some [32767, 32767, -32768])"
proof -
  have "detectFormat [] ''a.wav'' = WAV" by code_simp
  moreover have "wav24 [] = Inr (8000, 1, [4000000, 100000, -100000])" by (simp add: wav24_def)
  ultimately have "LoadAudio (\<lambda>_. Some []) wav24 (\<lambda>_. Inl []) ''a.wav'' 8000
      = Inr (Some (map (\<lambda>v. if v > 0 then 32767 else -32768) [4000000, 100000, -100000 :: int]))"
    by (rule wide_wav_is_clipped [OF refl]) auto
  then show ?thesis by simp
qed

theorem loaded_payload_sizes_witness:
  "\<forall>L (st :: unit). \<forall>p \<in> set (encode_all (codec_Encode L PCMU) [replicate 160 32767] st). length p = 160"
proof (intro allI ballI)
  fix L p and st :: unit
  assume p: "p \<in> set (encode_all (codec_Encode L PCMU) [replicate 160 32767] st)"
  let ?wav = "\<lambda>_. Inr (8000, 1, replicate 161 4000000) :: string + int \<times> nat \<times> int list"
  have d: "detectFormat [] ''a.wav'' = WAV" "rateAndFrameForCodec (codec_Name PCMU) = (8000, 160)" by code_simp+
  have "SplitFrames (replicate 161 32767) 160 = Some [replicate 160 32767]"
    by (simp add: SplitFrames_def take_replicate del: replicate.simps)
  then have "LoadAudioForCodec (\<lambda>_. Some []) ?wav (\<lambda>_. Inl []) L ''a.wav'' (Some PCMU) st
      = Inr (Some (encode_all (codec_Encode L PCMU) [replicate 160 32767] st))"
    using d by (simp add: LoadAudioForCodec_def LoadAudio_def decodeWAV_def toMono_def IntToInt16_def i16_id
        del: replicate.simps)
  from loaded_payload_sizes [OF this _ p] show "length p = 160" by (simp add: plcPayloadSize_def)
qed

end
