(* ===== verification/Pcap.thy ===== *)
theory Pcap
  imports Prelude "HOL-Library.Monad_Syntax" "HOL-Library.Multiset"
begin

text \<open>
  The replay of captures (\<open>core/audio/pcap_reader.go\<close>): the PCAP headers, the stripping of
  Ethernet, VLAN, IPv4 and UDP, the minimal RTP parse and the selection of the payload type.
  Slicing and indexing are checked: the outer \<open>None\<close> of a result is the panic of Go on an index
  out of range, so that reading any file can be proved free of panics. The inner \<open>None\<close> of the
  extraction is its \<open>false\<close>. \<open>sort.Slice\<close> (which is not stable) and the iteration order of a Go
  map are parameters.
\<close>

section \<open>Checked access\<close>

definition slice :: "bytes \<Rightarrow> nat \<Rightarrow> nat \<Rightarrow> bytes option" where
  "slice b lo hi = (if lo \<le> hi \<and> hi \<le> length b then Some (take (hi - lo) (drop lo b)) else None)"

definition byte_at :: "bytes \<Rightarrow> nat \<Rightarrow> byte option" where
  "byte_at b i = (if i < length b then Some (b ! i) else None)"

definition Uint16 :: "bytes \<Rightarrow> u16 option" where
  "Uint16 b = (if 2 \<le> length b then Some (get16 b 0) else None)"

datatype byte_order = LittleEndian | BigEndian

definition Uint32 :: "byte_order \<Rightarrow> bytes \<Rightarrow> u32 option" where
  "Uint32 bo b = (if 4 \<le> length b
     then Some (case bo of BigEndian \<Rightarrow> get32 b 0 | LittleEndian \<Rightarrow> get32 (rev (take 4 b)) 0) else None)"

text \<open>\<open>io.ReadFull\<close> of \<open>n\<close> bytes: \<open>None\<close> is an error, also when some bytes were read.\<close>

definition ReadFull :: "nat \<Rightarrow> bytes \<Rightarrow> (bytes \<times> bytes) option" where
  "ReadFull n r = (if n \<le> length r then Some (take n r, drop n r) else None)"

section \<open>Headers\<close>

datatype pcap_error = OpenFailed | HeaderFailed | NotPcap u32 | NoFrames

definition parsePCAPGlobalHeader :: "bytes \<Rightarrow> (pcap_error + byte_order \<times> u32 \<times> bytes) option" where
  "parsePCAPGlobalHeader r = (case ReadFull 24 r of
       None \<Rightarrow> Some (Inl HeaderFailed)
     | Some (buf, r') \<Rightarrow> do {
         m \<leftarrow> slice buf 0 4;
         magic \<leftarrow> Uint32 LittleEndian m;
         if magic = 0xa1b2c3d4 \<or> magic = 0xd4c3b2a1
         then do {
           let bo = (if magic = 0xa1b2c3d4 then LittleEndian else BigEndian);
           l \<leftarrow> slice buf 20 24;
           linkType \<leftarrow> Uint32 bo l;
           Some (Inr (bo, linkType, r')) }
         else Some (Inl (NotPcap magic)) })"

definition parsePCAPRecordHeader :: "bytes \<Rightarrow> byte_order \<Rightarrow> (u32 \<times> u32 \<times> u32 \<times> bytes) option option" where
  "parsePCAPRecordHeader r bo = (case ReadFull 16 r of
       None \<Rightarrow> Some None
     | Some (buf, r') \<Rightarrow> do {
         a \<leftarrow> slice buf 0 4; tsSec \<leftarrow> Uint32 bo a;
         b \<leftarrow> slice buf 4 8; tsUsec \<leftarrow> Uint32 bo b;
         c \<leftarrow> slice buf 8 12; capLen \<leftarrow> Uint32 bo c;
         Some (Some (tsSec, tsUsec, capLen, r')) })"

definition extractUDPPayloadFromIP :: "bytes \<Rightarrow> bytes option option" where
  "extractUDPPayloadFromIP ip =
     (if length ip < 20 then Some None
      else do {
        b0 \<leftarrow> byte_at ip 0;
        if drop_bit 4 b0 \<noteq> 4 then Some None
        else do {
          protocol \<leftarrow> byte_at ip 9;
          if protocol \<noteq> 17 then Some None
          else do {
            let ihl = unat (b0 AND 0x0F) * 4;
            if length ip < ihl + 8 then Some None
            else do {
              udp \<leftarrow> slice ip ihl (length ip);
              l \<leftarrow> slice udp 4 6; w \<leftarrow> Uint16 l;
              let udpLen = unat w;
              if udpLen < 8 \<or> length udp < udpLen then Some None
              else do {
                s \<leftarrow> slice udp 0 2; srcPort \<leftarrow> Uint16 s;
                d \<leftarrow> slice udp 2 4; dstPort \<leftarrow> Uint16 d;
                if srcPort < 1024 \<and> dstPort < 1024 then Some None
                else map_option Some (slice udp 8 udpLen) }}}}})"

definition extractRTPFromEthernet :: "bytes \<Rightarrow> bytes option option" where
  "extractRTPFromEthernet data =
     (if length data < 14 then Some None
      else do {
        e \<leftarrow> slice data 12 14; etherType \<leftarrow> Uint16 e;
        ipStart \<leftarrow>
          (if etherType = 0x0800 then Some (Some 14)
           else if etherType = 0x8100 then
             (if length data < 18 then Some None
              else do {
                i \<leftarrow> slice data 16 18; innerEtherType \<leftarrow> Uint16 i;
                Some (if innerEtherType \<noteq> 0x0800 then None else Some 18) })
           else do {
             b0 \<leftarrow> byte_at data 0;
             Some (if drop_bit 4 b0 = 4 then Some 0 else None) });
        case ipStart of
          None \<Rightarrow> Some None
        | Some n \<Rightarrow> do { ip \<leftarrow> slice data n (length data); extractUDPPayloadFromIP ip } })"

section \<open>Loading\<close>

record pcap_frame =
  pf_Payload :: bytes
  pf_OffsetMicro :: int
  pf_PayloadType :: byte

text \<open>The body of the loop for one packet: its payload type and payload, or \<open>continue\<close>.\<close>

definition rtp_payload :: "bytes \<Rightarrow> (byte \<times> bytes) option option" where
  "rtp_payload data = do {
     x \<leftarrow> extractRTPFromEthernet data;
     case x of
       None \<Rightarrow> Some None
     | Some rtp \<Rightarrow>
         if length rtp < 12 then Some None
         else do {
           b0 \<leftarrow> byte_at rtp 0; b1 \<leftarrow> byte_at rtp 1;
           if drop_bit 6 b0 AND 0x3 \<noteq> 2 then Some None
           else do {
             let pt = b1 AND 0x7F;
             if pt > 127 then Some None
             else do {
               let cc = unat (b0 AND 0x0F);
               if length rtp < 12 + cc * 4 then Some None
               else do {
                 payload \<leftarrow> slice rtp (12 + cc * 4) (length rtp);
                 payload' \<leftarrow>
                   (if b0 AND 0x10 \<noteq> 0 \<and> length payload \<ge> 4 then do {
                      l \<leftarrow> slice payload 2 4; w \<leftarrow> Uint16 l;
                      let extLen = unat w * 4 + 4;
                      if length payload < extLen then Some None
                      else map_option Some (slice payload extLen (length payload)) }
                    else Some (Some payload));
                 Some (case payload' of None \<Rightarrow> None
                   | Some p \<Rightarrow> if p = [] then None else Some (pt, p)) }}}}}"

text \<open>The state of the loop: the frames so far, \<open>startMicro\<close> and \<open>ptCount\<close>. The sums fit in 64 bits.\<close>

type_synonym pcap_state = "pcap_frame list \<times> int \<times> (byte \<Rightarrow> nat)"

fun take_frame :: "u32 \<Rightarrow> u32 \<Rightarrow> (byte \<times> bytes) option \<Rightarrow> pcap_state \<Rightarrow> pcap_state" where
  "take_frame tsSec tsUsec None s = s"
| "take_frame tsSec tsUsec (Some (pt, payload)) (frames, startMicro, ptCount) =
     (let microTs = uint tsSec * 1000000 + uint tsUsec;
          startMicro' = (if startMicro < 0 then microTs else startMicro)
      in (frames @ [\<lparr>pf_Payload = payload, pf_OffsetMicro = microTs - startMicro', pf_PayloadType = pt\<rparr>],
          startMicro', ptCount(pt := ptCount pt + 1)))"

lemma record_header_shrinks:
  "parsePCAPRecordHeader r bo = Some (Some (a, b, c, r1)) \<Longrightarrow> length r1 < length r"
  by (auto simp: parsePCAPRecordHeader_def ReadFull_def bind_eq_Some_conv split: if_splits)

lemma ReadFull_shrinks: "ReadFull n r = Some (d, r') \<Longrightarrow> length r' \<le> length r"
  by (auto simp: ReadFull_def split: if_splits)

function pcap_loop :: "byte_order \<Rightarrow> bytes \<Rightarrow> pcap_state \<Rightarrow> pcap_state option" where
  "pcap_loop bo r s = (case parsePCAPRecordHeader r bo of
       None \<Rightarrow> None
     | Some None \<Rightarrow> Some s
     | Some (Some (tsSec, tsUsec, capLen, r1)) \<Rightarrow>
         (case ReadFull (unat capLen) r1 of
            None \<Rightarrow> Some s
          | Some (data, r2) \<Rightarrow>
              (case rtp_payload data of
                 None \<Rightarrow> None
               | Some x \<Rightarrow> pcap_loop bo r2 (take_frame tsSec tsUsec x s))))"
  by pat_completeness auto

termination
  by (relation "measure (\<lambda>(bo, r, s). length r)")
    (auto dest!: record_header_shrinks ReadFull_shrinks)

declare pcap_loop.simps [simp del]

definition dominant :: "byte list \<Rightarrow> (byte \<Rightarrow> nat) \<Rightarrow> byte" where
  "dominant order ptCount = foldl (\<lambda>dominantPT pt. if ptCount pt > ptCount dominantPT then pt else dominantPT) 0 order"

definition LoadPCAP ::
    "(string \<Rightarrow> bytes option) \<Rightarrow> (pcap_frame list \<Rightarrow> pcap_frame list) \<Rightarrow> ((byte \<Rightarrow> nat) \<Rightarrow> byte list)
      \<Rightarrow> string \<Rightarrow> (pcap_error + pcap_frame list \<times> byte) option" where
  "LoadPCAP files sortFrames order path = (case files path of
       None \<Rightarrow> Some (Inl OpenFailed)
     | Some f \<Rightarrow> do {
         h \<leftarrow> parsePCAPGlobalHeader f;
         case h of
           Inl e \<Rightarrow> Some (Inl e)
         | Inr (bo, linkType, r) \<Rightarrow> do {
             (frames, startMicro, ptCount) \<leftarrow> pcap_loop bo r ([], -1, \<lambda>_. 0);
             if frames = [] then Some (Inl NoFrames)
             else Some (Inr (sortFrames frames, dominant (order ptCount) ptCount)) } })"

definition PCAPPayloads :: "pcap_frame list \<Rightarrow> bytes list" where
  "PCAPPayloads frames = map pf_Payload frames"

section \<open>No panic\<close>

lemma slice_ok: "lo \<le> hi \<Longrightarrow> hi \<le> length b \<Longrightarrow> slice b lo hi = Some (take (hi - lo) (drop lo b))"
  by (simp add: slice_def)

lemma extractUDP_total: "extractUDPPayloadFromIP ip \<noteq> None"
  by (auto simp: extractUDPPayloadFromIP_def slice_def byte_at_def Uint16_def Let_def)

lemma extractRTP_total: "extractRTPFromEthernet data \<noteq> None"
  using extractUDP_total
  by (auto simp: extractRTPFromEthernet_def slice_def byte_at_def Uint16_def split: option.splits)

lemma rtp_payload_total: "rtp_payload data \<noteq> None"
proof -
  obtain x where x: "extractRTPFromEthernet data = Some x" using extractRTP_total by blast
  show ?thesis
    by (cases x) (auto simp: rtp_payload_def x slice_def byte_at_def Uint16_def Let_def)
qed

lemma record_header_total: "parsePCAPRecordHeader r bo \<noteq> None"
  by (auto simp: parsePCAPRecordHeader_def ReadFull_def slice_def Uint32_def)

lemma pcap_loop_total: "pcap_loop bo r s \<noteq> None"
proof (induction bo r s rule: pcap_loop.induct)
  case (1 bo r s)
  obtain h where h: "parsePCAPRecordHeader r bo = Some h" using record_header_total by blast
  show ?case
  proof (cases h)
    case (Some q)
    obtain tsSec tsUsec capLen r1 where q: "q = (tsSec, tsUsec, capLen, r1)" by (cases q)
    show ?thesis
    proof (cases "ReadFull (unat capLen) r1")
      case None
      with h Some q show ?thesis by (subst pcap_loop.simps) simp
    next
      case data: (Some d)
      obtain data r2 where d: "d = (data, r2)" by (cases d)
      obtain x where x: "rtp_payload data = Some x" using rtp_payload_total by blast
      have "pcap_loop bo r s = pcap_loop bo r2 (take_frame tsSec tsUsec x s)"
        using h Some q data d x by (subst pcap_loop.simps) simp
      moreover have "pcap_loop bo r2 (take_frame tsSec tsUsec x s) \<noteq> None"
        using 1 h Some q data d x by simp
      ultimately show ?thesis by simp
    qed
  qed (use h in \<open>subst pcap_loop.simps, simp\<close>)
qed

text \<open>Loading a capture never panics, whatever bytes the file holds: every slice and every index that
  the parsers take of attacker-controlled headers is in range, and the loop ends.\<close>
theorem pcap_never_panics: "LoadPCAP files sortFrames order path \<noteq> None"
proof -
  have g: "parsePCAPGlobalHeader f \<noteq> None" for f
    by (auto simp: parsePCAPGlobalHeader_def ReadFull_def slice_def Uint32_def Let_def)
  have "LoadPCAP files sortFrames order path \<noteq> None" if f: "files path = Some f" for f
  proof -
    obtain h where h: "parsePCAPGlobalHeader f = Some h" using g by blast
    show ?thesis
    proof (cases h)
      case (Inr q)
      obtain bo l r where q: "q = (bo, l, r)" by (cases q)
      obtain fs st c where "pcap_loop bo r ([], -1, \<lambda>_. 0) = Some (fs, st, c)"
        using pcap_loop_total [of bo r "([], -1, \<lambda>_. 0)"] by auto
      with f h Inr q show ?thesis by (simp add: LoadPCAP_def)
    qed (use f h in \<open>simp add: LoadPCAP_def\<close>)
  qed
  then show ?thesis by (cases "files path") (auto simp: LoadPCAP_def)
qed

section \<open>The dominant payload type\<close>

definition count_pt :: "byte \<Rightarrow> pcap_frame list \<Rightarrow> nat" where
  "count_pt q fs = length (filter (\<lambda>f. pf_PayloadType f = q) fs)"

fun counted :: "pcap_state \<Rightarrow> bool" where
  "counted (frames, startMicro, ptCount) \<longleftrightarrow> (\<forall>q. ptCount q = count_pt q frames)"

lemma counted_take_frame: "counted s \<Longrightarrow> counted (take_frame a b x s)"
  by (cases "(a, b, x, s)" rule: take_frame.cases) (auto simp: count_pt_def Let_def)

lemma counted_loop: "counted s \<Longrightarrow> pcap_loop bo r s = Some s' \<Longrightarrow> counted s'"
proof (induction bo r s rule: pcap_loop.induct)
  case (1 bo r s)
  obtain h where h: "parsePCAPRecordHeader r bo = Some h" using record_header_total by blast
  show ?case
  proof (cases h)
    case (Some q)
    obtain tsSec tsUsec capLen r1 where q: "q = (tsSec, tsUsec, capLen, r1)" by (cases q)
    show ?thesis
    proof (cases "ReadFull (unat capLen) r1")
      case None
      with h Some q 1(3) have "s' = s" by (subst (asm) pcap_loop.simps) simp
      with 1(2) show ?thesis by simp
    next
      case data: (Some d)
      obtain data r2 where d: "d = (data, r2)" by (cases d)
      obtain x where x: "rtp_payload data = Some x" using rtp_payload_total by blast
      have "pcap_loop bo r2 (take_frame tsSec tsUsec x s) = Some s'"
        using 1(3) h Some q data d x by (subst (asm) pcap_loop.simps) simp
      moreover have "counted (take_frame tsSec tsUsec x s)" using 1(2) by (rule counted_take_frame)
      ultimately show ?thesis using 1(1) h Some q data d x by simp
    qed
  qed (use h 1(2,3) in \<open>subst (asm) pcap_loop.simps, simp\<close>)
qed

lemma LoadPCAP_result:
  assumes "LoadPCAP files sortFrames order path = Some (Inr (frames, pt))"
  shows "\<exists>bo r fs st c. pcap_loop bo r ([], -1, \<lambda>_. 0) = Some (fs, st, c) \<and> frames = sortFrames fs
    \<and> pt = dominant (order c) c"
proof -
  from assms obtain f where f: "files path = Some f" by (cases "files path") (auto simp: LoadPCAP_def)
  with assms obtain h where h: "parsePCAPGlobalHeader f = Some h"
    by (cases "parsePCAPGlobalHeader f") (auto simp: LoadPCAP_def)
  with assms f obtain q where "h = Inr q" by (cases h) (auto simp: LoadPCAP_def)
  then obtain bo l r where "h = Inr (bo, l, r)" by (cases q) auto
  with assms f h show ?thesis by (fastforce simp: LoadPCAP_def bind_eq_Some_conv split: if_splits)
qed

lemma dominant_max:
  "(\<forall>q \<in> set order. c q \<le> c (foldl (\<lambda>d pt. if c pt > c d then pt else d) d0 order))
    \<and> c d0 \<le> c (foldl (\<lambda>d pt. if c pt > c d then pt else d) d0 order)" for c :: "byte \<Rightarrow> nat"
proof (induction order arbitrary: d0)
  case (Cons p ps)
  let ?d = "if c p > c d0 then p else d0"
  have "c p \<le> c ?d" "c d0 \<le> c ?d" by auto
  with Cons.IH [of ?d] show ?case by auto
qed simp

lemma count_pt_mset: "mset fs = mset gs \<Longrightarrow> count_pt q fs = count_pt q gs"
  unfolding count_pt_def by (metis mset_filter size_mset)

text \<open>The payload type that loading returns is one that no other payload type of the returned frames
  exceeds in number, in whatever order the map is iterated.\<close>
theorem dominant_is_most_common:
  assumes "LoadPCAP files sortFrames order path = Some (Inr (frames, pt))"
    "\<And>fs. mset (sortFrames fs) = mset fs" "\<And>c. set (order c) = {q. c q > 0}"
  shows "count_pt q frames \<le> count_pt pt frames"
proof -
  from LoadPCAP_result [OF assms(1)] obtain bo r fs st c where l: "pcap_loop bo r ([], -1, \<lambda>_. 0) = Some (fs, st, c)"
    and f: "frames = sortFrames fs" and p: "pt = dominant (order c) c" by blast
  have "counted ([], -1, \<lambda>_. 0)" by (simp add: count_pt_def)
  from counted_loop [OF this l] have c: "c q = count_pt q frames" for q
    using count_pt_mset [OF assms(2), of q fs] f by simp
  have "c q \<le> c pt"
  proof (cases "c q > 0")
    case True
    then have "q \<in> set (order c)" using assms(3) by simp
    then show ?thesis using dominant_max [of "order c" c 0] p by (auto simp: dominant_def)
  qed simp
  then show ?thesis by (simp add: c)
qed

section \<open>Captures written by a sniffer\<close>

text \<open>One captured RTP packet: time, link addresses, IP addresses, UDP ports, payload type, the ten bytes
  of sequence number, timestamp and SSRC, and the payload; then the file of a list of them, in
  either byte order.\<close>

record capture =
  cp_sec :: u32
  cp_usec :: u32
  cp_macs :: bytes
  cp_ips :: bytes
  cp_src :: u16
  cp_dst :: u16
  cp_pt :: byte
  cp_rtp :: bytes
  cp_payload :: bytes

definition capture_ok :: "capture \<Rightarrow> bool" where
  "capture_ok c \<longleftrightarrow> length (cp_macs c) = 12 \<and> length (cp_ips c) = 8 \<and> length (cp_rtp c) = 10
     \<and> cp_pt c < 128 \<and> cp_payload c \<noteq> [] \<and> length (cp_payload c) \<le> 1400
     \<and> (1024 \<le> cp_src c \<or> 1024 \<le> cp_dst c)"

definition rtp_of :: "capture \<Rightarrow> bytes" where
  "rtp_of c = [0x80, cp_pt c] @ cp_rtp c @ cp_payload c"

definition udp_of :: "capture \<Rightarrow> bytes" where
  "udp_of c = be16 (cp_src c) @ be16 (cp_dst c) @ be16 (word_of_nat (length (rtp_of c) + 8)) @ [0, 0] @ rtp_of c"

definition ip_of :: "capture \<Rightarrow> bytes" where
  "ip_of c = [0x45, 0, 0, 0, 0, 0, 0, 0, 64, 17, 0, 0] @ cp_ips c @ udp_of c"

definition eth_of :: "capture \<Rightarrow> bytes" where
  "eth_of c = cp_macs c @ be16 0x0800 @ ip_of c"

fun put32 :: "byte_order \<Rightarrow> u32 \<Rightarrow> bytes" where
  "put32 BigEndian w = be32 w"
| "put32 LittleEndian w = rev (be32 w)"

definition record_of :: "byte_order \<Rightarrow> capture \<Rightarrow> bytes" where
  "record_of bo c = put32 bo (cp_sec c) @ put32 bo (cp_usec c)
     @ put32 bo (word_of_nat (length (eth_of c))) @ put32 bo (word_of_nat (length (eth_of c))) @ eth_of c"

definition capture_file :: "byte_order \<Rightarrow> bytes \<Rightarrow> capture list \<Rightarrow> bytes" where
  "capture_file bo header cs = put32 bo 0xa1b2c3d4 @ header @ put32 bo 1 @ concat (map (record_of bo) cs)"

definition micro_of :: "capture \<Rightarrow> int" where
  "micro_of c = uint (cp_sec c) * 1000000 + uint (cp_usec c)"

definition frame_of :: "int \<Rightarrow> capture \<Rightarrow> pcap_frame" where
  "frame_of start c = \<lparr>pf_Payload = cp_payload c, pf_OffsetMicro = micro_of c - start, pf_PayloadType = cp_pt c\<rparr>"

lemma length_put32 [simp]: "length (put32 bo w) = 4"
  by (cases bo) simp_all

lemma Uint32_put32: "Uint32 bo (put32 bo w) = Some w"
  using get32_be32 [of "[]" w "[]"] by (cases bo) (simp_all add: Uint32_def)

lemma slice_mid: "length xs = lo \<Longrightarrow> hi = lo + length ys \<Longrightarrow> slice (xs @ ys @ zs) lo hi = Some ys"
  by (simp add: slice_def)

lemma slice_end: "length xs = lo \<Longrightarrow> hi = lo + length ys \<Longrightarrow> slice (xs @ ys) lo hi = Some ys"
  by (simp add: slice_def)

lemma Uint16_be16: "Uint16 (be16 w) = Some w"
  using get16_be16 [of "[]" w "[]"] by (simp add: Uint16_def)

lemma length_rtp_of: "capture_ok c \<Longrightarrow> length (rtp_of c) = 12 + length (cp_payload c)"
  by (simp add: rtp_of_def capture_ok_def)

lemma unat_u16: "n < 65536 \<Longrightarrow> unat (word_of_nat n :: u16) = n"
  by (simp add: unat_of_nat)

lemma extractUDP_of:
  assumes "capture_ok c"
  shows "extractUDPPayloadFromIP (ip_of c) = Some (Some (rtp_of c))"
proof -
  let ?n = "length (rtp_of c) + 8"
  have n: "?n \<le> 1420" using assms by (simp add: length_rtp_of) (simp add: capture_ok_def)
  then have w: "unat (word_of_nat ?n :: u16) = ?n" by (intro unat_u16) linarith
  have udp: "slice (ip_of c) 20 (length (ip_of c)) = Some (udp_of c)"
  proof -
    let ?h = "[0x45, 0, 0, 0, 0, 0, 0, 0, 64, 17, 0, 0] @ cp_ips c"
    have "length ?h = 20" using assms by (simp add: capture_ok_def)
    from slice_end [OF this refl, of "udp_of c"] this show ?thesis by (simp add: ip_of_def)
  qed
  have s: "slice (udp_of c) 4 6 = Some (be16 (word_of_nat ?n))" "slice (udp_of c) 0 2 = Some (be16 (cp_src c))"
    "slice (udp_of c) 2 4 = Some (be16 (cp_dst c))" "slice (udp_of c) 8 ?n = Some (rtp_of c)"
    unfolding udp_of_def
    using slice_mid [of "be16 (cp_src c) @ be16 (cp_dst c)" 4 6 "be16 (word_of_nat ?n)"]
      slice_mid [of "[]" 0 2 "be16 (cp_src c)"] slice_mid [of "be16 (cp_src c)" 2 4 "be16 (cp_dst c)"]
      slice_end [of "be16 (cp_src c) @ be16 (cp_dst c) @ be16 (word_of_nat ?n) @ [0, 0]" 8 ?n "rtp_of c"]
    by simp_all
  have len: "length (ip_of c) = 20 + ?n" "length (udp_of c) = ?n"
    using assms by (simp_all add: ip_of_def udp_of_def capture_ok_def)
  have ports: "\<not> (cp_src c < 1024 \<and> cp_dst c < 1024)" using assms by (auto simp: capture_ok_def)
  have h: "ip_of c ! 0 = 0x45" "ip_of c ! 9 = 17" by (simp_all add: ip_of_def)
  have "byte_at (ip_of c) 0 = Some 0x45" "byte_at (ip_of c) 9 = Some 17"
    using h len by (simp_all add: byte_at_def)
  moreover have "drop_bit 4 (0x45 :: byte) = 4" "unat ((0x45 :: byte) AND 0x0F) * 4 = 20" by code_simp+
  ultimately show ?thesis
    using udp s len ports w by (simp add: extractUDPPayloadFromIP_def Uint16_be16 del: of_nat_add)
qed

lemma extractRTP_of:
  assumes "capture_ok c"
  shows "extractRTPFromEthernet (eth_of c) = Some (Some (rtp_of c))"
proof -
  have m: "length (cp_macs c) = 12" using assms by (simp add: capture_ok_def)
  have "slice (eth_of c) 12 14 = Some (be16 0x0800)" "slice (eth_of c) 14 (length (eth_of c)) = Some (ip_of c)"
    using slice_mid [OF m, of 14 "be16 0x0800" "ip_of c"]
      slice_end [of "cp_macs c @ be16 0x0800" 14 "length (eth_of c)" "ip_of c"] m
    by (simp_all add: eth_of_def)
  moreover have "14 \<le> length (eth_of c)" using m by (simp add: eth_of_def)
  ultimately show ?thesis
    using extractUDP_of [OF assms] by (simp add: extractRTPFromEthernet_def Uint16_be16)
qed

lemma rtp_payload_of:
  assumes "capture_ok c"
  shows "rtp_payload (eth_of c) = Some (Some (cp_pt c, cp_payload c))"
proof -
  have r: "length (cp_rtp c) = 10" "cp_payload c \<noteq> []" "cp_pt c < 128" using assms by (auto simp: capture_ok_def)
  have "slice (rtp_of c) 12 (length (rtp_of c)) = Some (cp_payload c)"
    using slice_end [of "[0x80, cp_pt c] @ cp_rtp c" 12 _ "cp_payload c"] r by (simp add: rtp_of_def)
  moreover have "byte_at (rtp_of c) 0 = Some 0x80" "byte_at (rtp_of c) 1 = Some (cp_pt c)"
    by (simp_all add: rtp_of_def byte_at_def)
  moreover have "drop_bit 6 (0x80 :: byte) AND 3 = 2" "unat ((0x80 :: byte) AND 0x0F) = 0" "(0x80 :: byte) AND 0x10 = 0"
    by code_simp+
  moreover have "cp_pt c AND 0x7F = cp_pt c"
  proof -
    have "unat (take_bit 7 (cp_pt c)) = unat (cp_pt c)"
      using r(3) by (simp add: unsigned_take_bit_eq word_less_nat_alt take_bit_nat_eq_self)
    then have "take_bit 7 (cp_pt c) = cp_pt c" by (simp only: unat_arith_simps)
    then show ?thesis by (simp add: take_bit_eq_mask mask_eq_decr_exp)
  qed
  moreover have "\<not> cp_pt c > 127" using r(3) by (simp add: word_less_nat_alt)
  ultimately show ?thesis
    using extractRTP_of [OF assms] r(2) length_rtp_of [OF assms] by (simp add: rtp_payload_def)
qed

lemma length_eth_of: "capture_ok c \<Longrightarrow> length (eth_of c) \<le> 1500"
  using length_rtp_of [of c] by (simp add: eth_of_def ip_of_def udp_of_def capture_ok_def)

lemma record_header_of:
  assumes "capture_ok c"
  shows "parsePCAPRecordHeader (record_of bo c @ rest) bo
    = Some (Some (cp_sec c, cp_usec c, word_of_nat (length (eth_of c)), eth_of c @ rest))"
proof -
  let ?n = "put32 bo (word_of_nat (length (eth_of c)))"
  let ?h = "put32 bo (cp_sec c) @ put32 bo (cp_usec c) @ ?n @ ?n"
  have "ReadFull 16 (record_of bo c @ rest) = Some (?h, eth_of c @ rest)"
    by (simp add: ReadFull_def record_of_def)
  moreover have "slice ?h 0 4 = Some (put32 bo (cp_sec c))" "slice ?h 4 8 = Some (put32 bo (cp_usec c))"
    "slice ?h 8 12 = Some ?n"
    using slice_mid [of "[]" 0 4 "put32 bo (cp_sec c)"] slice_mid [of "put32 bo (cp_sec c)" 4 8 "put32 bo (cp_usec c)"]
      slice_mid [of "put32 bo (cp_sec c) @ put32 bo (cp_usec c)" 8 12 ?n ?n] by simp_all
  ultimately show ?thesis by (simp add: parsePCAPRecordHeader_def Uint32_put32)
qed

definition take_capture :: "pcap_state \<Rightarrow> capture \<Rightarrow> pcap_state" where
  "take_capture s c = take_frame (cp_sec c) (cp_usec c) (Some (cp_pt c, cp_payload c)) s"

lemma pcap_loop_of:
  "(\<And>c. c \<in> set cs \<Longrightarrow> capture_ok c) \<Longrightarrow>
    pcap_loop bo (concat (map (record_of bo) cs)) s = Some (foldl take_capture s cs)"
proof (induction cs arbitrary: s)
  case Nil
  then show ?case by (subst pcap_loop.simps) (simp add: parsePCAPRecordHeader_def ReadFull_def)
next
  case (Cons c cs)
  let ?rest = "concat (map (record_of bo) cs)"
  have ok: "capture_ok c" using Cons.prems by simp
  have "unat (word_of_nat (length (eth_of c)) :: u32) = length (eth_of c)"
    using length_eth_of [OF ok] by (simp add: unat_of_nat)
  then have d: "ReadFull (unat (word_of_nat (length (eth_of c)) :: u32)) (eth_of c @ ?rest) = Some (eth_of c, ?rest)"
    by (simp add: ReadFull_def)
  have "pcap_loop bo (record_of bo c @ ?rest) s = pcap_loop bo ?rest (take_capture s c)"
    using d by (subst pcap_loop.simps) (simp add: record_header_of [OF ok] rtp_payload_of [OF ok] take_capture_def)
  then show ?case using Cons by simp
qed

lemma foldl_take_capture:
  "0 \<le> start \<Longrightarrow> \<exists>n. foldl take_capture (fs, start, n0) cs = (fs @ map (frame_of start) cs, start, n)"
proof (induction cs arbitrary: fs n0)
  case (Cons c cs)
  have "take_capture (fs, start, n0) c = (fs @ [frame_of start c], start, n0(cp_pt c := n0 (cp_pt c) + 1))"
    using Cons.prems by (simp add: take_capture_def frame_of_def micro_of_def Let_def)
  with Cons.IH [OF Cons.prems, of "fs @ [frame_of start c]" "n0(cp_pt c := n0 (cp_pt c) + 1)"] show ?case
    by (simp del: fun_upd_apply)
qed simp

lemma global_header_of:
  assumes "length header = 16"
  shows "parsePCAPGlobalHeader (capture_file bo header cs) = Some (Inr (bo, 1, concat (map (record_of bo) cs)))"
proof -
  let ?body = "concat (map (record_of bo) cs)" and ?magic = "put32 bo 0xa1b2c3d4"
  let ?buf = "?magic @ header @ put32 bo 1"
  have "ReadFull 24 (capture_file bo header cs) = Some (?buf, ?body)"
    using assms by (simp add: ReadFull_def capture_file_def)
  moreover have "slice ?buf 0 4 = Some ?magic" "slice ?buf 20 24 = Some (put32 bo 1)"
    using slice_mid [of "[]" 0 4 ?magic] slice_end [of "?magic @ header" 20 24 "put32 bo 1"] assms by simp_all
  moreover have "Uint32 LittleEndian (put32 LittleEndian 0xa1b2c3d4) = Some 0xa1b2c3d4"
    "Uint32 LittleEndian (put32 BigEndian 0xa1b2c3d4) = Some 0xd4c3b2a1" by code_simp+
  ultimately show ?thesis
    using Uint32_put32 [of bo 1] by (cases bo) (simp_all del: put32.simps add: parsePCAPGlobalHeader_def)
qed

text \<open>C29: A capture of RTP packets written as a classic PCAP file, in either byte order, loads as exactly
  their payloads, payload types and times relative to the first packet, sorted by the library. The
  packets may come from any mix of hosts and ports: the frames of all flows are returned together.\<close>
theorem pcap_roundtrip:
  assumes "files path = Some (capture_file bo header cs)" "length header = 16" "cs \<noteq> []"
    "\<And>c. c \<in> set cs \<Longrightarrow> capture_ok c"
  shows "\<exists>pt. LoadPCAP files sortFrames order path
    = Some (Inr (sortFrames (map (frame_of (micro_of (hd cs))) cs), pt))"
proof -
  let ?body = "concat (map (record_of bo) cs)"
  note g = global_header_of [OF assms(2), of bo cs]
  obtain c cs' where cs: "cs = c # cs'" using assms(3) by (cases cs) auto
  have m: "0 \<le> micro_of c" by (simp add: micro_of_def)
  have "take_capture ([], -1, \<lambda>_. 0) c = ([frame_of (micro_of c) c], micro_of c, (\<lambda>_. 0)(cp_pt c := 1))"
    by (simp add: take_capture_def frame_of_def micro_of_def Let_def)
  with foldl_take_capture [OF m, of "[frame_of (micro_of c) c]" "(\<lambda>_. 0)(cp_pt c := 1)" cs']
  obtain n where "foldl take_capture ([], -1, \<lambda>_. 0) cs = (map (frame_of (micro_of c)) cs, micro_of c, n)"
    by (auto simp: cs)
  with pcap_loop_of [OF assms(4), of cs bo "([], -1, \<lambda>_. 0)"]
  have "pcap_loop bo ?body ([], -1, \<lambda>_. 0) = Some (map (frame_of (micro_of c)) cs, micro_of c, n)" by simp
  then show ?thesis using assms(1) g cs by (simp add: LoadPCAP_def)
qed

definition sample_capture :: "u32 \<Rightarrow> u16 \<Rightarrow> byte \<Rightarrow> capture" where
  "sample_capture sec port b = \<lparr>cp_sec = sec, cp_usec = 0, cp_macs = replicate 12 0, cp_ips = replicate 8 1,
     cp_src = port, cp_dst = 5060, cp_pt = 8, cp_rtp = replicate 10 0, cp_payload = [b]\<rparr>"

lemma sample_ok: "capture_ok (sample_capture sec port b)"
  by (simp add: capture_ok_def sample_capture_def)

theorem pcap_roundtrip_witness:
  "\<exists>pt. LoadPCAP (\<lambda>_. Some (capture_file BigEndian (replicate 16 0) [sample_capture 5 4000 1, sample_capture 7 9000 2]))
     id (\<lambda>_. []) [] = Some (Inr ([\<lparr>pf_Payload = [1], pf_OffsetMicro = 0, pf_PayloadType = 8\<rparr>,
       \<lparr>pf_Payload = [2], pf_OffsetMicro = 2000000, pf_PayloadType = 8\<rparr>], pt))"
proof -
  let ?cs = "[sample_capture 5 4000 1, sample_capture 7 9000 2]"
  have "\<exists>pt. LoadPCAP (\<lambda>_. Some (capture_file BigEndian (replicate 16 0) ?cs)) id (\<lambda>_. []) []
      = Some (Inr (id (map (frame_of (micro_of (hd ?cs))) ?cs), pt))"
    by (rule pcap_roundtrip) (auto simp: sample_ok)
  then show ?thesis by (simp add: frame_of_def micro_of_def sample_capture_def)
qed

theorem dominant_is_most_common_witness:
  "count_pt 0 [\<lparr>pf_Payload = [1], pf_OffsetMicro = 0, pf_PayloadType = 8\<rparr>] \<le>
     count_pt 8 [\<lparr>pf_Payload = [1], pf_OffsetMicro = 0, pf_PayloadType = 8\<rparr>]"
proof -
  let ?order = "\<lambda>c. if c = (\<lambda>_. 0)(8 := 1) then [8]
      else filter (\<lambda>q. c q > 0) (map word_of_nat [0..<256]) :: byte list"
  let ?files = "\<lambda>_. Some (capture_file BigEndian (replicate 16 0) [sample_capture 5 4000 1])"
  have "capture_ok c" if "c \<in> set [sample_capture 5 4000 1]" for c using that by (simp add: sample_ok)
  from pcap_loop_of [OF this, of "[sample_capture 5 4000 1]" BigEndian "([], -1, \<lambda>_. 0)"]
  have l: "pcap_loop BigEndian (concat (map (record_of BigEndian) [sample_capture 5 4000 1])) ([], -1, \<lambda>_. 0)
      = Some ([\<lparr>pf_Payload = [1], pf_OffsetMicro = 0, pf_PayloadType = 8\<rparr>], 5000000, (\<lambda>_. 0)(8 := 1))"
    by (simp add: take_capture_def sample_capture_def Let_def)
  have s: "set (?order c) = {q. c q > 0}" for c :: "byte \<Rightarrow> nat"
  proof -
    have "q \<in> word_of_nat ` {0..<256}" for q :: byte
      using unsigned_less [of q, where ?'a = nat] by (intro image_eqI [of _ _ "unat q"]) simp_all
    then show ?thesis by auto
  qed
  have d: "dominant (?order ((\<lambda>_. 0)(8 := 1))) ((\<lambda>_. 0)(8 := 1)) = 8" by (simp add: dominant_def)
  have "LoadPCAP ?files id ?order []
      = Some (Inr ([\<lparr>pf_Payload = [1], pf_OffsetMicro = 0, pf_PayloadType = 8\<rparr>], 8))"
    using global_header_of [of "replicate 16 0" BigEndian "[sample_capture 5 4000 1]"] l d
    by (simp add: LoadPCAP_def)
  from dominant_is_most_common [OF this _ s] show ?thesis by simp
qed

end
