(* ===== verification/Sdp.thy ===== *)
theory Sdp
  imports Go_Strings
begin

text \<open>
  Session descriptions for plain RTP (\<open>sip/sdp.go\<close>): the offer that every call sends and the
  parser of the answer. The theory shows that the parser reads back address, port and codec of
  every offer the code builds (two instances of the program understand each other), and that the
  direction and the session version do not disturb it.
\<close>

section \<open>Building\<close>

definition DirSendRecv :: string where "DirSendRecv = ''sendrecv''"
definition DirSendOnly :: string where "DirSendOnly = ''sendonly''"
definition DirRecvOnly :: string where "DirRecvOnly = ''recvonly''"
definition DirInactive :: string where "DirInactive = ''inactive''"

text \<open>Codec name and clock rate of the offer.\<close>

definition offer_codec :: "byte \<Rightarrow> string \<times> nat" where
  "offer_codec payloadType =
     (if payloadType = 8 then (''PCMA'', 8000)
      else if payloadType = 9 then (''G722'', 8000)
      else if payloadType = 18 then (''G729'', 8000)
      else if payloadType = 111 then (''opus'', 48000)
      else (''PCMU'', 8000))"

definition offer_rtpmap :: "byte \<Rightarrow> string" where
  "offer_rtpmap payloadType =
     (let (codecName, clockRate) = offer_codec payloadType;
          rtpmap = show_nat (unat payloadType) @ '' '' @ codecName @ ''/'' @ show_nat clockRate
      in if payloadType = 111 then rtpmap @ ''/2'' else rtpmap)"

definition sdp_lines :: "string \<Rightarrow> int \<Rightarrow> byte \<Rightarrow> string \<Rightarrow> u64 \<Rightarrow> string list" where
  "sdp_lines localIP rtpPort payloadType direction sessVer =
     [''v=0'',
      ''o=k6load 0 '' @ show_nat (unat sessVer) @ '' IN IP4 '' @ localIP,
      ''s=xk6-sip-media load test'',
      ''c=IN IP4 '' @ localIP,
      ''t=0 0'',
      ''m=audio '' @ show_int rtpPort @ '' RTP/AVP '' @ show_nat (unat payloadType),
      ''a=rtpmap:'' @ offer_rtpmap payloadType,
      ''a=ptime:20'',
      ''a='' @ direction]"

definition buildSDP :: "string \<Rightarrow> int \<Rightarrow> byte \<Rightarrow> string \<Rightarrow> u64 \<Rightarrow> string" where
  "buildSDP localIP rtpPort payloadType direction sessVer =
     concat (map (\<lambda>l. l @ crlf) (sdp_lines localIP rtpPort payloadType direction sessVer))"

definition BuildSDP :: "string \<Rightarrow> int \<Rightarrow> byte \<Rightarrow> string" where
  "BuildSDP localIP rtpPort payloadType = buildSDP localIP rtpPort payloadType DirSendRecv 0"

definition BuildSDPWithDirection :: "string \<Rightarrow> int \<Rightarrow> byte \<Rightarrow> string \<Rightarrow> string" where
  "BuildSDPWithDirection localIP rtpPort payloadType direction = buildSDP localIP rtpPort payloadType direction 0"

section \<open>Parsing\<close>

record sdp_info =
  connectionIP :: string
  sdp_port :: int
  ptMap :: "byte \<Rightarrow> string option"

definition sdp_c :: "string \<Rightarrow> sdp_info \<Rightarrow> sdp_info" where
  "sdp_c line i =
     (if HasPrefix line ''c=IN IP4 '' then
        (let parts = Fields line in if length parts \<ge> 3 then i\<lparr>connectionIP := parts ! 2\<rparr> else i)
      else i)"

definition sdp_m :: "string \<Rightarrow> sdp_info \<Rightarrow> sdp_info" where
  "sdp_m line i =
     (if HasPrefix line ''m=audio '' then
        (let parts = Fields line in
         if length parts \<ge> 2 then (case Atoi (parts ! 1) of Some p \<Rightarrow> i\<lparr>sdp_port := p\<rparr> | None \<Rightarrow> i) else i)
      else i)"

definition sdp_rtpmap :: "string \<Rightarrow> sdp_info \<Rightarrow> sdp_info" where
  "sdp_rtpmap line i =
     (if HasPrefix line ''a=rtpmap:'' then
        (let parts = SplitN2 (drop 9 line) (CHR '' '') in
         if length parts = 2 then
           (case Atoi (parts ! 0) of
              Some pt \<Rightarrow>
                let codecParts = SplitN2 (parts ! 1) (CHR ''/'')
                in i\<lparr>ptMap := (ptMap i)(of_int pt \<mapsto> ToUpper (codecParts ! 0))\<rparr>
            | None \<Rightarrow> i)
         else i)
      else i)"

definition sdp_line :: "string \<Rightarrow> sdp_info \<Rightarrow> sdp_info" where
  "sdp_line raw i = (let line = TrimSpace raw in sdp_rtpmap line (sdp_m line (sdp_c line i)))"

definition pt_default :: "byte \<Rightarrow> string \<Rightarrow> sdp_info \<Rightarrow> sdp_info" where
  "pt_default pt name i = (case ptMap i pt of None \<Rightarrow> i\<lparr>ptMap := (ptMap i)(pt \<mapsto> name)\<rparr> | Some _ \<Rightarrow> i)"

definition ParseSDP :: "string \<Rightarrow> sdp_info" where
  "ParseSDP body =
     (let lines = Split (normalise_crlf body) (CHR 0x0A);
          i = fold sdp_line lines \<lparr>connectionIP = [], sdp_port = 0, ptMap = \<lambda>_. None\<rparr>
      in pt_default 8 ''PCMA'' (pt_default 0 ''PCMU'' i))"

section \<open>Reading the lines of an offer\<close>

definition direction_ok :: "string \<Rightarrow> bool" where
  "direction_ok d \<longleftrightarrow> d \<in> {DirSendRecv, DirSendOnly, DirRecvOnly, DirInactive}"

lemma show_int_nat: "0 \<le> p \<Longrightarrow> show_int p = show_nat (nat p)"
  by (simp add: show_int_def)

lemma word_ok_ends: "word_ok w \<Longrightarrow> \<not> is_space (List.last w) \<and> w \<noteq> []"
  by (auto simp: word_ok_def list_all_iff)

lemma word_line_ok: "word_ok w \<Longrightarrow> line_ok w"
  by (auto simp: word_ok_def line_ok_def list_all_iff is_space_def)

lemma trim_prefixed: "\<not> is_space (hd p) \<Longrightarrow> p \<noteq> [] \<Longrightarrow> word_ok w \<Longrightarrow> TrimSpace (p @ w) = p @ w"
  using word_ok_ends [of w] by (intro TrimSpace_id) simp_all

lemma line_c: "word_ok ip \<Longrightarrow> sdp_line (''c=IN IP4 '' @ ip) i = i\<lparr>connectionIP := ip\<rparr>"
proof -
  assume ip: "word_ok ip"
  have t: "TrimSpace (''c=IN IP4 '' @ ip) = ''c=IN IP4 '' @ ip"
    using ip by (intro trim_prefixed) (simp_all add: is_space_def)
  have "word_ok ''c=IN''" "word_ok ''IP4''" by code_simp+
  from Fields_cons [OF this(1), of "''IP4 '' @ ip"] Fields_cons [OF this(2), of ip] Fields_word [OF ip]
  have "Fields (''c=IN IP4 '' @ ip) = [''c=IN'', ''IP4'', ip]" by simp
  with t show ?thesis by (simp add: sdp_line_def sdp_c_def sdp_m_def sdp_rtpmap_def HasPrefix_def)
qed

lemma line_m:
  assumes "0 \<le> port" "port < 2 ^ 63"
  shows "sdp_line (''m=audio '' @ show_int port @ '' '' @ proto @ '' '' @ show_nat n) i = i\<lparr>sdp_port := port\<rparr>"
proof -
  let ?l = "''m=audio '' @ show_nat (nat port) @ '' '' @ proto @ '' '' @ show_nat n"
  have w: "word_ok (show_nat n)" "word_ok (show_nat (nat port))" by (rule word_ok_show_nat)+
  have t: "TrimSpace ?l = ?l"
    using trim_prefixed [of "''m=audio '' @ show_nat (nat port) @ '' '' @ proto @ '' ''" "show_nat n"] w
    by (simp add: is_space_def)
  have "word_ok ''m=audio''" by code_simp
  from Fields_cons [OF this, of "show_nat (nat port) @ '' '' @ proto @ '' '' @ show_nat n"]
    Fields_cons [OF w(2), of "proto @ '' '' @ show_nat n"]
  have f: "Fields ?l = ''m=audio'' # show_nat (nat port) # Fields (proto @ '' '' @ show_nat n)" by simp
  have "nat port < 2 ^ 63" using assms by (simp add: nat_less_iff)
  then have "Atoi (show_nat (nat port)) = Some port" using Atoi_show_nat [of "nat port"] assms(1) by simp
  with t f assms(1) show ?thesis
    by (simp add: sdp_line_def sdp_c_def sdp_m_def sdp_rtpmap_def HasPrefix_def show_int_nat)
qed

lemma line_rtpmap:
  assumes "word_ok rate" "CHR ''/'' \<notin> set name" "n < 2 ^ 63"
  shows "sdp_line (''a=rtpmap:'' @ show_nat n @ '' '' @ name @ ''/'' @ rate) i
    = i\<lparr>ptMap := (ptMap i)(of_nat n \<mapsto> ToUpper name)\<rparr>"
proof -
  let ?l = "''a=rtpmap:'' @ show_nat n @ '' '' @ name @ ''/'' @ rate"
  have t: "TrimSpace ?l = ?l"
    using trim_prefixed [of "''a=rtpmap:'' @ show_nat n @ '' '' @ name @ ''/''" rate] assms(1)
    by (simp add: is_space_def)
  have "SplitN2 (drop 9 ?l) (CHR '' '') = [show_nat n, name @ ''/'' @ rate]"
    using SplitN2_cut [OF show_nat_chars(1), of n "name @ ''/'' @ rate"] by simp
  moreover have "SplitN2 (name @ ''/'' @ rate) (CHR ''/'') = [name, rate]"
    using SplitN2_cut [OF assms(2), of rate] by simp
  ultimately show ?thesis
    using t Atoi_show_nat [OF assms(3)]
    by (simp add: sdp_line_def sdp_c_def sdp_m_def sdp_rtpmap_def HasPrefix_def)
qed

text \<open>A line that starts with none of the three prefixes changes nothing.\<close>

lemma line_other:
  assumes "\<not> is_space (hd l)" "\<not> is_space (List.last l)"
    "\<not> HasPrefix l ''c=IN IP4 ''" "\<not> HasPrefix l ''m=audio ''" "\<not> HasPrefix l ''a=rtpmap:''"
  shows "sdp_line l i = i"
  using assms by (simp add: sdp_line_def TrimSpace_id sdp_c_def sdp_m_def sdp_rtpmap_def)

lemma line_empty: "sdp_line [] i = i"
  by (simp add: sdp_line_def TrimSpace_def sdp_c_def sdp_m_def sdp_rtpmap_def HasPrefix_def)

lemma offer_lines_ok:
  assumes "word_ok ip" "0 \<le> port" "direction_ok d" "l \<in> set (sdp_lines ip port pt d ver)"
  shows "line_ok l"
proof -
  have n: "line_ok (show_nat k)" for k using word_line_ok [OF word_ok_show_nat] .
  have ip: "line_ok ip" using assms(1) by (rule word_line_ok)
  have m: "line_ok (offer_rtpmap pt)"
    using n by (auto simp: offer_rtpmap_def offer_codec_def line_ok_def split: if_splits)
  have d: "line_ok d"
    using assms(3) by (auto simp: direction_ok_def DirSendRecv_def DirSendOnly_def DirRecvOnly_def DirInactive_def line_ok_def)
  show ?thesis
    using assms(2,4) n ip m d by (auto simp: sdp_lines_def show_int_nat line_ok_def)
qed

lemma offer_rtpmap_line:
  "sdp_line (''a=rtpmap:'' @ offer_rtpmap pt) i = i\<lparr>ptMap := (ptMap i)(pt \<mapsto> ToUpper (fst (offer_codec pt)))\<rparr>"
proof -
  obtain name rate where c: "offer_codec pt = (name, rate)" by (cases "offer_codec pt")
  let ?rate = "show_nat rate @ (if pt = 111 then ''/2'' else [])"
  have "word_ok ?rate" using word_ok_show_nat [of rate] by (auto simp: word_ok_def is_space_def)
  moreover have "CHR ''/'' \<notin> set name" using c by (auto simp: offer_codec_def split: if_splits)
  moreover have "unat pt < 2 ^ 63" using unsigned_less [of pt, where ?'a = nat] by simp
  ultimately have "sdp_line (''a=rtpmap:'' @ show_nat (unat pt) @ '' '' @ name @ ''/'' @ ?rate) i
      = i\<lparr>ptMap := (ptMap i)(of_nat (unat pt) \<mapsto> ToUpper name)\<rparr>"
    by (rule line_rtpmap)
  moreover have "offer_rtpmap pt = show_nat (unat pt) @ '' '' @ name @ ''/'' @ ?rate"
    by (simp add: offer_rtpmap_def c)
  ultimately show ?thesis by (simp add: c)
qed

lemma session_line: "word_ok ip \<Longrightarrow> sdp_line (''o=k6load 0 '' @ show_nat n @ '' IN IP4 '' @ ip) i = i"
  using word_ok_ends [of ip] by (intro line_other) (simp_all add: is_space_def HasPrefix_def)

lemma direction_line: "direction_ok d \<Longrightarrow> sdp_line (''a='' @ d) i = i"
  by (intro line_other)
    (auto simp: direction_ok_def DirSendRecv_def DirSendOnly_def DirRecvOnly_def DirInactive_def is_space_def HasPrefix_def)

lemma fixed_lines:
  "sdp_line ''v=0'' i = i" "sdp_line ''s=xk6-sip-media load test'' i = i" "sdp_line ''t=0 0'' i = i"
  "sdp_line ''a=ptime:20'' i = i"
  by (intro line_other; simp add: is_space_def HasPrefix_def)+

lemma sdp_roundtrip_map:
  assumes "word_ok ip" "0 \<le> port" "port < 2 ^ 63" "direction_ok d"
  shows "ParseSDP (buildSDP ip port pt d ver) = \<lparr>connectionIP = ip, sdp_port = port,
    ptMap = [0 \<mapsto> ''PCMU'', 8 \<mapsto> ''PCMA'', pt \<mapsto> ToUpper (fst (offer_codec pt))]\<rparr>"
proof -
  have lines: "Split (normalise_crlf (buildSDP ip port pt d ver)) (CHR 0x0A) = sdp_lines ip port pt d ver @ [[]]"
    unfolding buildSDP_def using offer_lines_ok [OF assms(1,2,4)] by (rule lines_of_text)
  have "fold sdp_line (sdp_lines ip port pt d ver @ [[]]) \<lparr>connectionIP = [], sdp_port = 0, ptMap = \<lambda>_. None\<rparr>
      = \<lparr>connectionIP = ip, sdp_port = port, ptMap = [pt \<mapsto> ToUpper (fst (offer_codec pt))]\<rparr>"
    using line_m [OF assms(2,3), of "''RTP/AVP''" "unat pt"]
    by (simp add: sdp_lines_def fixed_lines session_line [OF assms(1), simplified] line_c [OF assms(1), simplified]
        offer_rtpmap_line [simplified] direction_line [OF assms(4), simplified] line_empty)
  moreover have "ToUpper (fst (offer_codec 0)) = ''PCMU''" "ToUpper (fst (offer_codec 8)) = ''PCMA''" by code_simp+
  ultimately show ?thesis
    using lines by (auto simp: ParseSDP_def pt_default_def fun_eq_iff)
qed

text \<open>C13: The parser reads back every offer that the code builds: the address, the port and the codec of the
  payload type in upper case, with the static types PCMU and PCMA added; neither direction nor
  session version matters. Every port that fits an \<open>int\<close> is read back, not only 16 bits.\<close>
theorem sdp_roundtrip:
  assumes "word_ok ip" "0 \<le> port" "port < 2 ^ 63" "direction_ok d"
  shows "ParseSDP (buildSDP ip port pt d ver) = \<lparr>connectionIP = ip, sdp_port = port,
    ptMap = [0 \<mapsto> ''PCMU'', 8 \<mapsto> ''PCMA'', pt \<mapsto> ToUpper (fst (offer_codec pt))]\<rparr>"
  using assms by (rule sdp_roundtrip_map)

theorem sdp_roundtrip_witness:
  "connectionIP (ParseSDP (BuildSDP ''10.0.0.7'' 20000 111)) = ''10.0.0.7''
    \<and> ptMap (ParseSDP (BuildSDP ''10.0.0.7'' 20000 111)) 111 = Some ''OPUS''"
proof -
  have "word_ok ''10.0.0.7''" "ToUpper (fst (offer_codec 111)) = ''OPUS''" by code_simp+
  moreover have "direction_ok DirSendRecv" by (simp add: direction_ok_def)
  ultimately show ?thesis
    using sdp_roundtrip [of "''10.0.0.7''" 20000 DirSendRecv 111 0] by (simp add: BuildSDP_def)
qed

end
