(* ===== verification/Sdp_Srtp.thy ===== *)
theory Sdp_Srtp
  imports Sdp Srtp
begin

text \<open>
  Session descriptions for encrypted media (\<open>sip/sdp_srtp.go\<close>): the offer with a fresh master key
  and the parsers of the other side. The 30 random bytes are an argument. The theory shows that the
  offer contains exactly the key the caller encrypts with, but that the parser of this program does
  not find it there, because it asks for one field more than the attribute has. It also shows that
  the two kinds of offer are told apart, and what the offer says for the codecs its name table does
  not know.
\<close>

definition SRTPProfileAES128HMAC80 :: string where
  "SRTPProfileAES128HMAC80 = ''AES_CM_128_HMAC_SHA1_80''"

definition payloadTypeName :: "byte \<Rightarrow> string" where
  "payloadTypeName pt =
     (if pt = 0 then ''PCMU'' else if pt = 8 then ''PCMA'' else if pt = 9 then ''G722''
      else ''unknown'' @ show_nat (unat pt))"

definition payloadTypeClockRate :: "byte \<Rightarrow> nat" where
  "payloadTypeClockRate pt = (if pt = 9 then 8000 else 8000)"

definition srtp_inline :: "bytes \<Rightarrow> string" where
  "srtp_inline keyBytes = ''inline:'' @ b64_encode keyBytes"

definition srtp_sdp_lines :: "bytes \<Rightarrow> string \<Rightarrow> int \<Rightarrow> byte \<Rightarrow> string \<Rightarrow> string list" where
  "srtp_sdp_lines keyBytes localIP rtpPort payloadType direction =
     [''v=0'',
      ''o=k6load 0 0 IN IP4 '' @ localIP,
      ''s=xk6-sip-media load test'',
      ''c=IN IP4 '' @ localIP,
      ''t=0 0'',
      ''m=audio '' @ show_int rtpPort @ '' RTP/SAVP '' @ show_nat (unat payloadType),
      ''a=crypto:1 '' @ SRTPProfileAES128HMAC80 @ '' '' @ srtp_inline keyBytes,
      ''a=rtpmap:'' @ show_nat (unat payloadType) @ '' '' @ payloadTypeName payloadType @ ''/''
        @ show_nat (payloadTypeClockRate payloadType),
      ''a=ptime:20'',
      ''a='' @ direction]"

text \<open>\<open>None\<close> for the random bytes is a failure of the generator.\<close>

definition BuildSDPWithSRTP :: "bytes option \<Rightarrow> string \<Rightarrow> int \<Rightarrow> byte \<Rightarrow> string \<Rightarrow> (string \<times> srtp_config) option" where
  "BuildSDPWithSRTP random localIP rtpPort payloadType direction = (case random of
       None \<Rightarrow> None
     | Some keyBytes \<Rightarrow>
         Some (concat (map (\<lambda>l. l @ crlf) (srtp_sdp_lines keyBytes localIP rtpPort payloadType direction)),
           \<lparr>MasterKey = take 16 keyBytes, MasterSalt = drop 16 keyBytes, Profile = SRTPProfileAES128HMAC80\<rparr>))"

section \<open>Parsing\<close>

text \<open>The loops return at the first line that matches.\<close>

definition crypto_of :: "string \<Rightarrow> string option" where
  "crypto_of raw =
     (let line = TrimSpace raw in
      if \<not> HasPrefix line ''a=crypto:'' then None
      else
        let parts = Fields line in
        if length parts < 4 then None
        else if HasPrefix (parts ! 3) ''inline:'' then Some (parts ! 3) else None)"

definition profile_of :: "string \<Rightarrow> string option" where
  "profile_of raw =
     (let line = TrimSpace raw in
      if \<not> HasPrefix line ''a=crypto:'' then None
      else let parts = Fields line in if length parts \<ge> 3 then Some (parts ! 2) else None)"

definition media_port_of :: "string \<Rightarrow> int option" where
  "media_port_of raw =
     (let line = TrimSpace raw in
      if HasPrefix line ''m=audio '' \<or> HasPrefix line ''m='' then
        (let parts = Fields line in if length parts \<ge> 2 then Atoi (parts ! 1) else None)
      else None)"

fun first_of :: "(string \<Rightarrow> 'a option) \<Rightarrow> string list \<Rightarrow> 'a option" where
  "first_of f [] = None"
| "first_of f (l # ls) = (case f l of Some x \<Rightarrow> Some x | None \<Rightarrow> first_of f ls)"

definition body_lines :: "string \<Rightarrow> string list" where
  "body_lines body = Split (normalise_crlf body) (CHR 0x0A)"

definition ParseSDPCrypto :: "string \<Rightarrow> string" where
  "ParseSDPCrypto body = (case first_of crypto_of (body_lines body) of Some k \<Rightarrow> k | None \<Rightarrow> [])"

definition ParseSDPSRTPProfile :: "string \<Rightarrow> string" where
  "ParseSDPSRTPProfile body = (case first_of profile_of (body_lines body) of Some k \<Rightarrow> k | None \<Rightarrow> [])"

definition ParseSDPMediaPort :: "string \<Rightarrow> int" where
  "ParseSDPMediaPort body = (case first_of media_port_of (body_lines body) of Some p \<Rightarrow> p | None \<Rightarrow> 0)"

definition IsSRTPOffer :: "string \<Rightarrow> bool" where
  "IsSRTPOffer body = Contains body ''RTP/SAVP''"

section \<open>Reading an encrypted offer\<close>

lemma word_ok_inline: "word_ok (srtp_inline k)"
  using b64_encode_chars [of _ k] by (auto simp: srtp_inline_def word_ok_def list_all_iff is_space_def)

lemma word_ok_profile: "word_ok SRTPProfileAES128HMAC80"
  unfolding SRTPProfileAES128HMAC80_def by code_simp

lemma srtp_lines_ok:
  assumes "word_ok ip" "0 \<le> port" "direction_ok d" "l \<in> set (srtp_sdp_lines k ip port pt d)"
  shows "line_ok l"
proof -
  have n: "line_ok (show_nat k)" for k using word_line_ok [OF word_ok_show_nat] .
  have w: "line_ok ip" "line_ok (srtp_inline k)" "line_ok SRTPProfileAES128HMAC80"
    using assms(1) word_ok_inline word_ok_profile by (auto intro: word_line_ok)
  have m: "line_ok (payloadTypeName pt)"
    using n by (auto simp: payloadTypeName_def line_ok_def)
  have d: "line_ok d"
    using assms(3) by (auto simp: direction_ok_def DirSendRecv_def DirSendOnly_def DirRecvOnly_def DirInactive_def line_ok_def)
  show ?thesis
    using assms(2,4) n w m d by (auto simp: srtp_sdp_lines_def show_int_nat line_ok_def)
qed

lemma body_lines_srtp:
  assumes "word_ok ip" "0 \<le> port" "direction_ok d" "BuildSDPWithSRTP (Some k) ip port pt d = Some (sdp, cfg)"
  shows "body_lines sdp = srtp_sdp_lines k ip port pt d @ [[]]"
proof -
  have "sdp = concat (map (\<lambda>l. l @ crlf) (srtp_sdp_lines k ip port pt d))"
    using assms(4) by (simp add: BuildSDPWithSRTP_def)
  then show ?thesis unfolding body_lines_def
    using lines_of_text [OF srtp_lines_ok [OF assms(1-3)]] by simp
qed

text \<open>The attribute has three fields: its tag, the suite and the key.\<close>

lemma crypto_line:
  "crypto_of (''a=crypto:1 '' @ SRTPProfileAES128HMAC80 @ '' '' @ srtp_inline k) = None"
  "profile_of (''a=crypto:1 '' @ SRTPProfileAES128HMAC80 @ '' '' @ srtp_inline k) = Some (srtp_inline k)"
  "sdp_line (''a=crypto:1 '' @ SRTPProfileAES128HMAC80 @ '' '' @ srtp_inline k) i = i"
proof -
  let ?l = "''a=crypto:1 '' @ SRTPProfileAES128HMAC80 @ '' '' @ srtp_inline k"
  have t: "TrimSpace ?l = ?l"
    using trim_prefixed [of "''a=crypto:1 '' @ SRTPProfileAES128HMAC80 @ '' ''" "srtp_inline k"] word_ok_inline
    by (simp add: is_space_def)
  have "word_ok ''a=crypto:1''" by code_simp
  from Fields_cons [OF this, of "SRTPProfileAES128HMAC80 @ '' '' @ srtp_inline k"]
    Fields_cons [OF word_ok_profile, of "srtp_inline k"] Fields_word [OF word_ok_inline, of k]
  have f: "Fields ?l = [''a=crypto:1'', SRTPProfileAES128HMAC80, srtp_inline k]" by simp
  show "crypto_of ?l = None" "profile_of ?l = Some (srtp_inline k)"
    using t f by (simp_all add: crypto_of_def profile_of_def HasPrefix_def)
  show "sdp_line ?l i = i"
    using t by (simp add: sdp_line_def sdp_c_def sdp_m_def sdp_rtpmap_def HasPrefix_def)
qed

lemma no_crypto_line:
  assumes "\<not> HasPrefix l ''a=crypto:''" "\<not> is_space (hd l)" "\<not> is_space (List.last l)"
  shows "crypto_of l = None" "profile_of l = None"
  using assms by (simp_all add: crypto_of_def profile_of_def TrimSpace_id)

definition no_key :: "string \<Rightarrow> bool" where
  "no_key l \<longleftrightarrow> crypto_of l = None \<and> profile_of l = None"

lemma no_key_lines:
  assumes "word_ok ip" "0 \<le> port" "direction_ok d"
  shows "list_all no_key (take 6 (srtp_sdp_lines k ip port pt d))" "list_all no_key (drop 7 (srtp_sdp_lines k ip port pt d))"
    "no_key []"
proof -
  note w = word_ok_ends [OF assms(1)] word_ok_ends [OF word_ok_show_nat]
  have k: "no_key l" if "\<not> HasPrefix l ''a=crypto:''" "\<not> is_space (hd l)" "\<not> is_space (List.last l)" for l
    using no_crypto_line [OF that] by (simp add: no_key_def)
  have "no_key ''v=0''" "no_key (''o=k6load 0 0 IN IP4 '' @ ip)" "no_key ''s=xk6-sip-media load test''"
    "no_key (''c=IN IP4 '' @ ip)" "no_key ''t=0 0''"
    "no_key (''m=audio '' @ show_nat (nat port) @ '' RTP/SAVP '' @ show_nat (unat pt))"
    by (rule k; use w in \<open>simp add: HasPrefix_def is_space_def\<close>)+
  then show "list_all no_key (take 6 (srtp_sdp_lines k ip port pt d))"
    using assms(2) by (simp add: srtp_sdp_lines_def show_int_nat)
  have "no_key (''a=rtpmap:'' @ show_nat (unat pt) @ '' '' @ payloadTypeName pt @ ''/'' @ show_nat (payloadTypeClockRate pt))"
    "no_key ''a=ptime:20''" "no_key (''a='' @ DirSendRecv)" "no_key (''a='' @ DirSendOnly)" "no_key (''a='' @ DirRecvOnly)"
    "no_key (''a='' @ DirInactive)"
    by (rule k; use w in \<open>simp add: HasPrefix_def is_space_def DirSendRecv_def DirSendOnly_def DirRecvOnly_def DirInactive_def\<close>)+
  then show "list_all no_key (drop 7 (srtp_sdp_lines k ip port pt d))"
    using assms(3) by (auto simp: srtp_sdp_lines_def direction_ok_def)
  show "no_key []" by (simp add: no_key_def crypto_of_def profile_of_def TrimSpace_def HasPrefix_def)
qed

lemma first_of_skip: "list_all (\<lambda>l. f l = None) xs \<Longrightarrow> first_of f (xs @ ys) = first_of f ys"
  by (induction xs) simp_all

lemma srtp_lines_split:
  "srtp_sdp_lines k ip port pt d = take 6 (srtp_sdp_lines k ip port pt d)
    @ (''a=crypto:1 '' @ SRTPProfileAES128HMAC80 @ '' '' @ srtp_inline k) # drop 7 (srtp_sdp_lines k ip port pt d)"
  by (simp add: srtp_sdp_lines_def)

text \<open>The key that an offer carries is well-formed.\<close>

lemma ParseSRTPConfig_inline:
  assumes "length k = 30"
  shows "ParseSRTPConfig (srtp_inline k) = Inr \<lparr>MasterKey = take 16 k, MasterSalt = drop 16 k, Profile = SRTPProfileAES128HMAC80\<rparr>"
proof -
  have "takeWhile (\<lambda>c. c \<noteq> CHR ''|'') (b64_encode k) = b64_encode k"
    using b64_encode_chars by (simp add: takeWhile_eq_all_conv)
  then have "b64_DecodeString (takeWhile (\<lambda>c. c \<noteq> CHR ''|'') (b64_encode k)) = Some k"
    by (simp only: b64_roundtrip)
  then show ?thesis
    using assms by (simp add: ParseSRTPConfig_def srtp_inline_def SRTPProfileAES128HMAC80_def)
qed

text \<open>C21: The key that the offer carries is well-formed, and the key parser reads it back exactly; but the
  parser of the answer never finds it: it wants four fields in a crypto attribute that has three.
  The profile parser returns the key in place of the suite.\<close>
theorem srtp_key_is_lost:
  assumes "word_ok ip" "0 \<le> port" "direction_ok d" "length k = 30"
    "BuildSDPWithSRTP (Some k) ip port pt d = Some (sdp, cfg)"
  shows "ParseSRTPConfig (srtp_inline k) = Inr cfg \<and> ParseSDPCrypto sdp = []
    \<and> ParseSDPSRTPProfile sdp = srtp_inline k"
proof (intro conjI)
  let ?c = "''a=crypto:1 '' @ SRTPProfileAES128HMAC80 @ '' '' @ srtp_inline k"
  have cfg: "cfg = \<lparr>MasterKey = take 16 k, MasterSalt = drop 16 k, Profile = SRTPProfileAES128HMAC80\<rparr>"
    using assms(5) by (simp add: BuildSDPWithSRTP_def)
  show "ParseSRTPConfig (srtp_inline k) = Inr cfg"
    unfolding cfg by (rule ParseSRTPConfig_inline [OF assms(4)])
  note b = body_lines_srtp [OF assms(1-3,5)]
  let ?before = "take 6 (srtp_sdp_lines k ip port pt d)" and ?after = "drop 7 (srtp_sdp_lines k ip port pt d)"
  note n = no_key_lines(1,2) [OF assms(1-3), of k pt] no_key_lines(3) [OF assms(1-3)]
  have l: "body_lines sdp = ?before @ ?c # ?after @ [[]]"
    unfolding b by (subst srtp_lines_split) (simp only: append.assoc append.simps)
  have c: "list_all (\<lambda>l. crypto_of l = None) ?before" "list_all (\<lambda>l. profile_of l = None) ?before"
    "list_all (\<lambda>l. crypto_of l = None) ?after" "crypto_of [] = None"
    using n by (simp_all add: list_all_iff no_key_def)
  show "ParseSDPCrypto sdp = []"
    unfolding ParseSDPCrypto_def l first_of_skip [OF c(1)] first_of.simps crypto_line(1) option.case first_of_skip [OF c(3)] c(4)
    by (rule refl)
  show "ParseSDPSRTPProfile sdp = srtp_inline k"
    unfolding ParseSDPSRTPProfile_def l first_of_skip [OF c(2)] first_of.simps crypto_line(2) option.case by (rule refl)
qed

definition sample_key :: bytes where
  "sample_key = replicate 30 7"

theorem srtp_key_is_lost_witness:
  "\<exists>sdp cfg. BuildSDPWithSRTP (Some sample_key) ''10.0.0.7'' 20000 0 DirSendRecv = Some (sdp, cfg)
    \<and> ParseSRTPConfig (srtp_inline sample_key) = Inr cfg \<and> ParseSDPCrypto sdp = []"
proof -
  obtain sdp cfg where s: "BuildSDPWithSRTP (Some sample_key) ''10.0.0.7'' 20000 0 DirSendRecv = Some (sdp, cfg)"
    by (simp add: BuildSDPWithSRTP_def)
  have "word_ok ''10.0.0.7''" by code_simp
  moreover have "direction_ok DirSendRecv" by (simp add: direction_ok_def)
  moreover have "length sample_key = 30" by (simp add: sample_key_def)
  ultimately have "ParseSRTPConfig (srtp_inline sample_key) = Inr cfg" "ParseSDPCrypto sdp = []"
    using srtp_key_is_lost [OF _ _ _ _ s] by simp_all
  with s show ?thesis by blast
qed

section \<open>Media description of an encrypted offer\<close>

lemma contains_append: "Contains (xs @ p @ ys) p"
  by (induction xs) (cases p; cases ys; simp add: HasPrefix_def)+


lemma srtp_rtpmap_line:
  "sdp_line (''a=rtpmap:'' @ show_nat (unat pt) @ '' '' @ payloadTypeName pt @ ''/'' @ show_nat (payloadTypeClockRate pt)) i
    = i\<lparr>ptMap := (ptMap i)(pt \<mapsto> ToUpper (payloadTypeName pt))\<rparr>"
proof -
  have "CHR ''/'' \<notin> set (payloadTypeName pt)" using show_nat_chars by (simp add: payloadTypeName_def)
  moreover have "unat pt < 2 ^ 63" using unsigned_less [of pt, where ?'a = nat] by simp
  ultimately show ?thesis
    using line_rtpmap [OF word_ok_show_nat, of "payloadTypeName pt" "unat pt" "payloadTypeClockRate pt" i] by simp
qed

text \<open>An encrypted offer names the codec wrongly: it agrees with the plain offer for the same payload
  type (as its parser reads both) only for PCMU, PCMA and G722. For Opus and G729 the peer reads an
  unknown codec; address and port are read back.\<close>
theorem srtp_offer_codec_names:
  assumes "word_ok ip" "0 \<le> port" "port < 2 ^ 63" "direction_ok d"
    "BuildSDPWithSRTP (Some k) ip port pt d = Some (sdp, cfg)"
  shows "connectionIP (ParseSDP sdp) = ip \<and> sdp_port (ParseSDP sdp) = port \<and> IsSRTPOffer sdp
    \<and> (ptMap (ParseSDP sdp) pt = ptMap (ParseSDP (buildSDP ip port pt d 0)) pt \<longleftrightarrow> pt \<in> {0, 8, 9})"
proof (intro conjI)
  note b = body_lines_srtp [OF assms(1,2,4,5)]
  have o: "''o=k6load 0 0 IN IP4 '' @ ip = ''o=k6load 0 '' @ show_nat 0 @ '' IN IP4 '' @ ip"
    by (subst show_nat.simps) (simp, code_simp)
  have "fold sdp_line (srtp_sdp_lines k ip port pt d @ [[]]) \<lparr>connectionIP = [], sdp_port = 0, ptMap = \<lambda>_. None\<rparr>
      = \<lparr>connectionIP = ip, sdp_port = port, ptMap = [pt \<mapsto> ToUpper (payloadTypeName pt)]\<rparr>"
    using line_m [OF assms(2,3), of "''RTP/SAVP''" "unat pt"] session_line [OF assms(1), of 0, folded o]
    by (simp add: srtp_sdp_lines_def fixed_lines line_c [OF assms(1), simplified] crypto_line(3) [simplified]
        srtp_rtpmap_line [simplified] direction_line [OF assms(4), simplified] line_empty)
  then have p: "connectionIP (ParseSDP sdp) = ip \<and> sdp_port (ParseSDP sdp) = port
      \<and> ptMap (ParseSDP sdp) pt = Some (ToUpper (payloadTypeName pt))"
    using b by (simp add: ParseSDP_def body_lines_def pt_default_def split: option.splits)
  then show "connectionIP (ParseSDP sdp) = ip" "sdp_port (ParseSDP sdp) = port" by blast+
  have "sdp = concat (map (\<lambda>l. l @ crlf) (take 5 (srtp_sdp_lines k ip port pt d))) @ ''m=audio '' @ show_int port @ '' ''
      @ ''RTP/SAVP'' @ '' '' @ show_nat (unat pt) @ crlf
      @ concat (map (\<lambda>l. l @ crlf) (drop 6 (srtp_sdp_lines k ip port pt d)))"
    using assms(5) by (simp add: BuildSDPWithSRTP_def srtp_sdp_lines_def)
  then show "IsSRTPOffer sdp" unfolding IsSRTPOffer_def by (metis contains_append append.assoc)
  have plain: "ptMap (ParseSDP (buildSDP ip port pt d 0)) pt = Some (ToUpper (fst (offer_codec pt)))"
    using sdp_roundtrip_map [OF assms(1-4)] by simp
  have names: "ToUpper ''PCMU'' = ''PCMU''" "ToUpper ''PCMA'' = ''PCMA''" "ToUpper ''G722'' = ''G722''"
    "ToUpper ''G729'' = ''G729''" "ToUpper ''opus'' = ''OPUS''" "ToUpper (''unknown'' @ s) = ''UNKNOWN'' @ ToUpper s" for s
    by (code_simp | simp add: ToUpper_def, code_simp)+
  have "ToUpper (payloadTypeName pt) = ToUpper (fst (offer_codec pt)) \<longleftrightarrow> pt \<in> {0, 8, 9}"
    using names by (auto simp: payloadTypeName_def offer_codec_def)
  with p plain show "ptMap (ParseSDP sdp) pt = ptMap (ParseSDP (buildSDP ip port pt d 0)) pt \<longleftrightarrow> pt \<in> {0, 8, 9}"
    by simp
qed

theorem srtp_offer_codec_names_witness:
  "\<exists>sdp cfg. BuildSDPWithSRTP (Some sample_key) ''10.0.0.7'' 20000 111 DirSendRecv = Some (sdp, cfg)
    \<and> sdp_port (ParseSDP sdp) = 20000
    \<and> ptMap (ParseSDP sdp) 111 \<noteq> ptMap (ParseSDP (buildSDP ''10.0.0.7'' 20000 111 DirSendRecv 0)) 111"
proof -
  obtain sdp cfg where s: "BuildSDPWithSRTP (Some sample_key) ''10.0.0.7'' 20000 111 DirSendRecv = Some (sdp, cfg)"
    by (simp add: BuildSDPWithSRTP_def)
  have "word_ok ''10.0.0.7''" by code_simp
  moreover have "direction_ok DirSendRecv" by (simp add: direction_ok_def)
  ultimately have "sdp_port (ParseSDP sdp) = 20000"
    "ptMap (ParseSDP sdp) 111 = ptMap (ParseSDP (buildSDP ''10.0.0.7'' 20000 111 DirSendRecv 0)) 111 \<longleftrightarrow> (111 :: byte) \<in> {0, 8, 9}"
    using srtp_offer_codec_names [OF _ _ _ _ s] by simp_all
  with s show ?thesis by auto
qed

end
