(* ===== verification/Csv_Pool.thy ===== *)
theory Csv_Pool
  imports Go_Strings "HOL-Library.Multiset" "HOL-Library.Signed_Division"
begin

text \<open>
  The credential pool (\<open>k6ext/csv_pool.go\<close>): loading of a SIPp-compatible CSV file and the three ways
  to pick a row. The content of the file, the mode that the script forces and the random numbers are
  arguments. The theory shows what a file loads as, which line is taken for the header, and that
  both rotating picks hand out every row equally often.
\<close>

section \<open>Loading\<close>

type_synonym csv_row = "string \<Rightarrow> string option"

record pool =
  pool_rows :: "csv_row list"
  pool_mode :: string
  pool_counter :: int

datatype csv_error = CannotOpen | CannotRead | FileEmpty | NoDataRows | HeadersOnly

text \<open>\<open>bufio.Scanner\<close> with a buffer of 1 MiB: lines without their line end, or an error on a longer line.\<close>

definition strip_cr :: "string \<Rightarrow> string" where
  "strip_cr l = (if l \<noteq> [] \<and> List.last l = CHR 0x0D then butlast l else l)"

definition scan :: "string \<Rightarrow> string list option" where
  "scan text = (let ls = Split text (CHR 0x0A) in
     if \<exists>l \<in> set ls. length l \<ge> 1048576 then None else Some (map strip_cr ls))"

definition csv_lines :: "string list \<Rightarrow> string list" where
  "csv_lines ls = filter (\<lambda>l. l \<noteq> [] \<and> \<not> HasPrefix l ''#'') (map TrimSpace ls)"

definition detectSeparator :: "string \<Rightarrow> char" where
  "detectSeparator line = (if Count line (CHR '';'') > Count line (CHR '','') then CHR '';'' else CHR '','')"

definition splitRow :: "string \<Rightarrow> char \<Rightarrow> string list" where
  "splitRow line sep = map TrimSpace (Split line sep)"

definition ident_char :: "char \<Rightarrow> bool" where
  "ident_char c = (let n = of_char c :: nat in
     (97 \<le> n \<and> n \<le> 122) \<or> (65 \<le> n \<and> n \<le> 90) \<or> (48 \<le> n \<and> n \<le> 57) \<or> c = CHR ''_'')"

definition is_header :: "string list \<Rightarrow> bool" where
  "is_header headers = list_all (list_all ident_char) headers"

fun fill_row :: "nat \<Rightarrow> string list \<Rightarrow> string list \<Rightarrow> csv_row \<Rightarrow> csv_row" where
  "fill_row i [] vals row = row"
| "fill_row i (h # hs) vals row = fill_row (i + 1) hs vals (row(h \<mapsto> (if i < length vals then vals ! i else [])))"

text \<open>The forced mode of \<open>opts\<close> (a string, if there is one) and then the mode line of the file.\<close>

definition forced_mode :: "string option \<Rightarrow> string" where
  "forced_mode opts = (case opts of
       Some v \<Rightarrow> if ToLower v = ''random'' then ''random'' else ''sequential''
     | None \<Rightarrow> ''sequential'')"

definition mode_line :: "string list \<Rightarrow> string option \<Rightarrow> nat \<times> string" where
  "mode_line lines opts =
     (let first = ToUpper (hd lines) in
      if first = ''SEQUENTIAL'' \<or> first = ''RANDOM''
      then (1, if opts = None then ToLower first else forced_mode opts)
      else (0, forced_mode opts))"

definition csv_headers :: "string list \<Rightarrow> string list" where
  "csv_headers flds = (if is_header flds then flds
     else map (\<lambda>i. ''field'' @ show_nat i) [0..<length flds])"

definition loadCSVFile :: "(string \<Rightarrow> string option) \<Rightarrow> string \<Rightarrow> string option \<Rightarrow> csv_error + pool" where
  "loadCSVFile files path opts = (case files path of
       None \<Rightarrow> Inl CannotOpen
     | Some text \<Rightarrow> (case scan text of
         None \<Rightarrow> Inl CannotRead
       | Some ls \<Rightarrow>
           let lines = csv_lines ls in
           if lines = [] then Inl FileEmpty
           else
             let (idx, md) = mode_line lines opts in
             if idx \<ge> length lines then Inl NoDataRows
             else
               let sep = detectSeparator (lines ! idx);
                   flds = splitRow (lines ! idx) sep;
                   dataStart = (if is_header flds then idx + 1 else idx)
               in if dataStart \<ge> length lines then Inl HeadersOnly
                  else Inr \<lparr>pool_rows = map (\<lambda>l. fill_row 0 (csv_headers flds) (splitRow l sep) Map.empty)
                              (drop dataStart lines),
                            pool_mode = md, pool_counter = 0\<rparr>))"

section \<open>Picking\<close>

text \<open>\<open>drawn\<close> is the number that \<open>rng.Intn\<close> returned. The result is nothing for an empty pool.\<close>

definition pick_index :: "pool \<Rightarrow> int \<Rightarrow> nat \<Rightarrow> int" where
  "pick_index p vuID drawn =
     (if pool_mode p = ''random'' then int drawn
      else let idx = i64 (vuID - 1) smod int (length (pool_rows p)) in if idx < 0 then 0 else idx)"

definition Pick :: "pool \<Rightarrow> int \<Rightarrow> nat \<Rightarrow> csv_row option" where
  "Pick p vuID drawn = (if pool_rows p = [] then None else Some (pool_rows p ! nat (pick_index p vuID drawn)))"

text \<open>The outer \<open>None\<close> is the panic on a negative index, once the counter has wrapped.\<close>

definition PickRoundRobin :: "pool \<Rightarrow> (csv_row option \<times> pool) option" where
  "PickRoundRobin p =
     (if pool_rows p = [] then Some (None, p)
      else
        let p' = p\<lparr>pool_counter := i64 (pool_counter p + 1)\<rparr>;
            n = i64 (pool_counter p' - 1);
            idx = n smod int (length (pool_rows p))
        in if idx < 0 then None else Some (Some (pool_rows p ! nat idx), p'))"

definition PickRandom :: "pool \<Rightarrow> nat \<Rightarrow> csv_row option" where
  "PickRandom p drawn = (if pool_rows p = [] then None else Some (pool_rows p ! drawn))"

definition pool_len :: "pool \<Rightarrow> nat" where
  "pool_len p = length (pool_rows p)"

fun pick_many :: "nat \<Rightarrow> pool \<Rightarrow> csv_row option list option" where
  "pick_many 0 p = Some []"
| "pick_many (Suc n) p = Option.bind (PickRoundRobin p) (\<lambda>(r, p'). map_option ((#) r) (pick_many n p'))"

section \<open>Fair rotation\<close>

lemma rotation: "xs \<noteq> [] \<Longrightarrow> map (\<lambda>i. xs ! (i mod length xs)) [0..<k * length xs] = concat (replicate k xs)"
proof (induction k)
  case (Suc k)
  have "map (\<lambda>i. xs ! (i mod length xs)) [k * length xs..<k * length xs + length xs]
      = map (\<lambda>i. xs ! ((k * length xs + i) mod length xs)) [0..<length xs]"
    by (rule nth_equalityI) simp_all
  also have "\<dots> = xs" by (rule nth_equalityI) simp_all
  finally have "map (\<lambda>i. xs ! (i mod length xs)) [k * length xs..<k * length xs + length xs] = xs" .
  moreover have "[0..<Suc k * length xs] = [0..<k * length xs] @ [k * length xs..<k * length xs + length xs]"
    using upt_add_eq_append [of 0 "k * length xs" "length xs"] by (simp only: mult_Suc add.commute le0)
  moreover have "concat (replicate (Suc k) xs) = concat (replicate k xs) @ xs"
  proof -
    have "replicate (Suc k) xs = replicate k xs @ [xs]" by (simp only: replicate_Suc replicate_append_same)
    then show ?thesis by (simp only: concat_append concat.simps append_Nil2)
  qed
  ultimately show ?case using Suc by (simp only: map_append simp_thms)
qed simp

lemma smod_nat: "0 \<le> a \<Longrightarrow> 0 < n \<Longrightarrow> a smod int n = int (nat a mod n)"
  by (simp add: signed_modulo_int_def sgn_if zmod_int)

text \<open>Sequential picking never indexes out of range, whatever the id of the virtual user (also zero or
  negative), and the users 1 to k times n get the n rows in order, k times over.\<close>
theorem sequential_picks_fair:
  assumes "pool_rows p \<noteq> []" "pool_mode p \<noteq> ''random''" "k * length (pool_rows p) < 2 ^ 62"
  shows "(\<forall>vu d. nat (pick_index p vu d) < length (pool_rows p)) \<and>
    map (\<lambda>i. Pick p (int i + 1) 0) [0..<k * length (pool_rows p)] = map Some (concat (replicate k (pool_rows p)))"
proof
  let ?n = "length (pool_rows p)"
  have n: "0 < ?n" using assms(1) by simp
  show "\<forall>vu d. nat (pick_index p vu d) < ?n"
  proof (intro allI)
    fix vu d
    let ?a = "i64 (vu - 1)"
    have "?a smod int ?n < int ?n"
      using n by (auto simp: signed_modulo_int_def sgn_if intro: le_less_trans [of _ 0])
    then have "0 \<le> ?a smod int ?n \<Longrightarrow> nat (?a smod int ?n) < ?n" by (simp only: nat_less_iff)
    then show "nat (pick_index p vu d) < ?n" using assms(2) n by (simp add: pick_index_def Let_def)
  qed
  have "Pick p (int i + 1) 0 = Some (pool_rows p ! (i mod ?n))" if "i < k * ?n" for i
  proof -
    have "int i < 2 ^ 62" using that assms(3) by (simp only: of_nat_less_numeral_power_cancel_iff)
    then have "i64 (int i) = int i" by (intro i64_id) simp_all
    then show ?thesis using assms(1,2) n by (simp add: Pick_def pick_index_def smod_nat)
  qed
  then have "map (\<lambda>i. Pick p (int i + 1) 0) [0..<k * ?n] = map (\<lambda>i. Some (pool_rows p ! (i mod ?n))) [0..<k * ?n]"
    by (intro map_cong) simp_all
  also have "\<dots> = map Some (map (\<lambda>i. pool_rows p ! (i mod ?n)) [0..<k * ?n])" by simp
  finally show "map (\<lambda>i. Pick p (int i + 1) 0) [0..<k * ?n] = map Some (concat (replicate k (pool_rows p)))"
    by (simp only: rotation [OF assms(1)])
qed

definition two_rows :: "string \<Rightarrow> pool" where
  "two_rows m = \<lparr>pool_rows = [[''u'' \<mapsto> ''a''], [''u'' \<mapsto> ''b'']], pool_mode = m, pool_counter = 0\<rparr>"

theorem sequential_picks_fair_witness:
  "map (\<lambda>i. Pick (two_rows ''sequential'') (int i + 1) 0) [0..<4]
    = [Some [''u'' \<mapsto> ''a''], Some [''u'' \<mapsto> ''b''], Some [''u'' \<mapsto> ''a''], Some [''u'' \<mapsto> ''b'']]"
proof -
  have l: "length (pool_rows (two_rows ''sequential'')) = 2" by (simp add: two_rows_def)
  have "map (\<lambda>i. Pick (two_rows ''sequential'') (int i + 1) 0) [0..<2 * 2]
      = map Some (concat (replicate 2 (pool_rows (two_rows ''sequential''))))"
    unfolding l [symmetric] by (rule conjunct2 [OF sequential_picks_fair]) (simp_all add: two_rows_def)
  moreover have "(2 :: nat) * 2 = 4" by simp
  moreover have "map Some (concat (replicate 2 (pool_rows (two_rows ''sequential''))))
      = [Some [''u'' \<mapsto> ''a''], Some [''u'' \<mapsto> ''b''], Some [''u'' \<mapsto> ''a''], Some [''u'' \<mapsto> ''b'']]"
    by (simp add: two_rows_def numeral_2_eq_2)
  ultimately show ?thesis by (simp only:)
qed

text \<open>A pick of the shared counter below its wrap.\<close>

lemma round_robin_step:
  assumes "pool_rows p \<noteq> []" "0 \<le> pool_counter p" "pool_counter p < 2 ^ 62"
  shows "PickRoundRobin p = Some (Some (pool_rows p ! (nat (pool_counter p) mod length (pool_rows p))),
    p\<lparr>pool_counter := pool_counter p + 1\<rparr>)"
  using assms by (simp add: PickRoundRobin_def Let_def i64_id smod_nat)

lemma pick_many_from:
  assumes "pool_rows p \<noteq> []" "pool_counter p = int c" "c + m < 2 ^ 62"
  shows "pick_many m p = Some (map (\<lambda>i. Some (pool_rows p ! (i mod length (pool_rows p)))) [c..<c + m])"
  using assms
proof (induction m arbitrary: c p)
  case (Suc m)
  have "c < 2 ^ 62" using Suc.prems(3) by simp
  then have "int c < 2 ^ 62" by (simp only: of_nat_less_numeral_power_cancel_iff)
  then have s: "PickRoundRobin p = Some (Some (pool_rows p ! (c mod length (pool_rows p))), p\<lparr>pool_counter := int (c + 1)\<rparr>)"
    using round_robin_step [of p] Suc.prems by (simp add: add.commute)
  have "pick_many m (p\<lparr>pool_counter := int (c + 1)\<rparr>)
      = Some (map (\<lambda>i. Some (pool_rows p ! (i mod length (pool_rows p)))) [c + 1..<c + 1 + m])"
    using Suc.IH [of "p\<lparr>pool_counter := int (c + 1)\<rparr>" "c + 1"] Suc.prems by simp
  moreover have "[c..<c + Suc m] = c # [c + 1..<c + 1 + m]" by (simp add: upt_conv_Cons del: upt_Suc)
  ultimately show ?case by (simp add: s del: upt_Suc)
qed simp

text \<open>The shared counter hands out the rows in order, over and over, without panic: in k times n calls on
  a fresh pool every row is used exactly k times, in whatever order the users call.\<close>
theorem round_robin_fair:
  assumes "pool_rows p \<noteq> []" "pool_counter p = 0" "k * length (pool_rows p) < 2 ^ 62"
  shows "pick_many (k * length (pool_rows p)) p = Some (map Some (concat (replicate k (pool_rows p))))"
proof -
  have "pick_many (k * length (pool_rows p)) p
      = Some (map (\<lambda>i. Some (pool_rows p ! (i mod length (pool_rows p)))) [0..<k * length (pool_rows p)])"
    using pick_many_from [OF assms(1), of 0 "k * length (pool_rows p)"] assms(2,3) by simp
  also have "\<dots> = Some (map Some (map (\<lambda>i. pool_rows p ! (i mod length (pool_rows p))) [0..<k * length (pool_rows p)]))"
    by simp
  finally show ?thesis by (simp only: rotation [OF assms(1)])
qed

theorem round_robin_fair_witness:
  "pick_many 2 (two_rows ''random'') = Some [Some [''u'' \<mapsto> ''a''], Some [''u'' \<mapsto> ''b'']]"
proof -
  have "pick_many (1 * length (pool_rows (two_rows ''random''))) (two_rows ''random'')
      = Some (map Some (concat (replicate 1 (pool_rows (two_rows ''random'')))))"
    by (rule round_robin_fair) (simp_all add: two_rows_def)
  moreover have "1 * length (pool_rows (two_rows ''random'')) = 2" by (simp add: two_rows_def)
  moreover have "map Some (concat (replicate 1 (pool_rows (two_rows ''random''))))
      = [Some [''u'' \<mapsto> ''a''], Some [''u'' \<mapsto> ''b'']]" by (simp add: two_rows_def)
  ultimately show ?thesis by (simp only:)
qed

section \<open>What a file loads as\<close>

fun join :: "char \<Rightarrow> string list \<Rightarrow> string" where
  "join sep [] = []"
| "join sep [f] = f"
| "join sep (f # g # fs) = f @ sep # join sep (g # fs)"

text \<open>A value without white space, separators and comment sign; a row of at least two such values, the first
  of which is not empty.\<close>

definition field_ok :: "string \<Rightarrow> bool" where
  "field_ok f \<longleftrightarrow> list_all (\<lambda>c. \<not> is_space c \<and> c \<noteq> CHR '','' \<and> c \<noteq> CHR '';'' \<and> c \<noteq> CHR ''#'') f \<and> length f \<le> 1000"

definition row_ok :: "string list \<Rightarrow> bool" where
  "row_ok fs \<longleftrightarrow> 2 \<le> length fs \<and> list_all field_ok fs \<and> hd fs \<noteq> [] \<and> length fs \<le> 1000"

definition csv_file :: "string list list \<Rightarrow> string" where
  "csv_file rows = concat (map (\<lambda>fs. join (CHR '','') fs @ [CHR 0x0A]) rows)"

lemma TrimSpace_no_space: "list_all (\<lambda>c. \<not> is_space c) s \<Longrightarrow> TrimSpace s = s"
proof -
  assume s: "list_all (\<lambda>c. \<not> is_space c) s"
  have "dropWhile is_space t = t" if "list_all (\<lambda>c. \<not> is_space c) t" for t using that by (cases t) simp_all
  with s show ?thesis by (simp add: TrimSpace_def list_all_rev)
qed

lemma join_chars: "c \<in> set (join sep fs) \<Longrightarrow> c = sep \<or> (\<exists>f \<in> set fs. c \<in> set f)"
  by (induction sep fs rule: join.induct) auto

lemma join_length: "(\<And>f. f \<in> set fs \<Longrightarrow> length f \<le> 1000) \<Longrightarrow> length (join sep fs) \<le> 1001 * length fs"
proof (induction sep fs rule: join.induct)
  case (3 sep f g fs)
  have "length (join sep (g # fs)) \<le> 1001 * length (g # fs)" "length f \<le> 1000" using 3 by auto
  then show ?case by simp
qed auto

lemma Split_join: "fs \<noteq> [] \<Longrightarrow> (\<And>f. f \<in> set fs \<Longrightarrow> sep \<notin> set f) \<Longrightarrow> Split (join sep fs) sep = fs"
  by (induction sep fs rule: join.induct) (simp_all add: Split_end Split_cons)

lemma row_line:
  assumes "row_ok fs"
  shows "TrimSpace (join (CHR '','') fs) = join (CHR '','') fs" "splitRow (join (CHR '','') fs) (CHR '','') = fs"
    "detectSeparator (join (CHR '','') fs) = CHR '',''" "CHR '','' \<in> set (join (CHR '','') fs)"
    "CHR 0x0A \<notin> set (join (CHR '','') fs)" "strip_cr (join (CHR '','') fs) = join (CHR '','') fs"
    "length (join (CHR '','') fs) < 1048576" "\<not> HasPrefix (join (CHR '','') fs) ''#''"
proof -
  let ?l = "join (CHR '','') fs"
  have f: "\<not> is_space c \<and> c \<noteq> CHR '','' \<and> c \<noteq> CHR '';'' \<and> c \<noteq> CHR ''#''" if "c \<in> set f" "f \<in> set fs" for c f
    using assms that by (auto simp: row_ok_def field_ok_def list_all_iff)
  have l: "\<not> is_space c \<and> c \<noteq> CHR '';'' \<and> c \<noteq> CHR ''#''" if "c \<in> set ?l" for c
    using join_chars [OF that] f by (auto simp: is_space_def)
  then show "TrimSpace ?l = ?l" by (intro TrimSpace_no_space) (simp add: list_all_iff)
  have ne: "fs \<noteq> []" using assms by (auto simp: row_ok_def)
  have "Split ?l (CHR '','') = fs" using f ne by (intro Split_join) auto
  moreover have "map TrimSpace fs = fs"
    using f by (intro map_idI TrimSpace_no_space) (simp add: list_all_iff)
  ultimately show "splitRow ?l (CHR '','') = fs" by (simp add: splitRow_def)
  have "Count ?l (CHR '';'') = 0" using l by (auto simp: Count_def filter_empty_conv)
  then show "detectSeparator ?l = CHR '',''" by (simp add: detectSeparator_def)
  obtain a b gs where "fs = a # b # gs" using assms by (cases fs; cases "tl fs") (auto simp: row_ok_def)
  then show "CHR '','' \<in> set ?l" by simp
  show "CHR 0x0A \<notin> set ?l" using l [of "CHR 0x0A"] by (auto simp: is_space_def)
  have "?l \<noteq> [] \<Longrightarrow> List.last ?l \<noteq> CHR 0x0D" using l [OF last_in_set] by (auto simp: is_space_def)
  then show "strip_cr ?l = ?l" unfolding strip_cr_def by (metis (full_types))
  have "length ?l \<le> 1001 * length fs"
    using assms by (intro join_length) (auto simp: row_ok_def field_ok_def list_all_iff)
  then show "length ?l < 1048576" using assms by (simp add: row_ok_def)
  show "\<not> HasPrefix ?l ''#''" using l by (cases ?l) (auto simp: HasPrefix_def)
qed

lemma csv_file_lines:
  assumes "\<And>fs. fs \<in> set rows \<Longrightarrow> row_ok fs"
  shows "scan (csv_file rows) = Some (map (join (CHR '','')) rows @ [[]])"
    "csv_lines (map (join (CHR '','')) rows @ [[]]) = map (join (CHR '','')) rows"
proof -
  have "Split (csv_file rows) (CHR 0x0A) = map (join (CHR '','')) rows @ [[]]"
  proof -
    have "csv_file rows = concat (map (\<lambda>l. l @ [CHR 0x0A]) (map (join (CHR '','')) rows))"
      by (simp add: csv_file_def comp_def)
    then show ?thesis using row_line(5) [OF assms] by (simp only:) (rule Split_lines, auto)
  qed
  moreover have "\<not> (\<exists>l \<in> set (map (join (CHR '','')) rows @ [[]]). length l \<ge> 1048576)"
    using row_line(7) [OF assms] by (auto simp: not_le)
  moreover have "map strip_cr (map (join (CHR '','')) rows @ [[]]) = map (join (CHR '','')) rows @ [[]]"
    using row_line(6) [OF assms] by (simp add: strip_cr_def [of "[]"])
  ultimately show "scan (csv_file rows) = Some (map (join (CHR '','')) rows @ [[]])" by (simp only: scan_def Let_def if_False)
  have "join (CHR '','') fs \<noteq> []" if "fs \<in> set rows" for fs using row_line(4) [OF assms [OF that]] by force
  then show "csv_lines (map (join (CHR '','')) rows @ [[]]) = map (join (CHR '','')) rows"
    using row_line(1,8) [OF assms] by (auto simp: csv_lines_def comp_def TrimSpace_def filter_id_conv cong: map_cong)
qed

lemma upcase_comma: "CHR '','' \<in> set s \<Longrightarrow> CHR '','' \<in> set (ToUpper s)"
proof -
  assume "CHR '','' \<in> set s"
  moreover have "upcase (CHR '','') = CHR '',''" by code_simp
  ultimately show ?thesis by (force simp: ToUpper_def)
qed

text \<open>A comma-separated file whose first line consists of letters, digits and underscores only loads with
  that line as the header: every later line becomes a row that maps the header's names to its
  values, in order, a missing value to the empty string. So a file of numeric rows without a header
  loses its first row, whose numbers become the names of the fields.\<close>
theorem csv_first_line_is_header:
  assumes "files path = Some (csv_file (h # rows))" "rows \<noteq> []" "\<And>fs. fs \<in> set (h # rows) \<Longrightarrow> row_ok fs" "is_header h"
  shows "loadCSVFile files path opts = Inr \<lparr>pool_rows = map (\<lambda>vals. fill_row 0 h vals Map.empty) rows,
    pool_mode = forced_mode opts, pool_counter = 0\<rparr>"
proof -
  let ?lines = "map (join (CHR '','')) (h # rows)"
  note l = csv_file_lines [of "h # rows", OF assms(3)]
  note r = row_line [OF assms(3)]
  have h: "h \<in> set (h # rows)" by simp
  have "CHR '','' \<in> set (ToUpper (hd ?lines))" using upcase_comma [OF r(4) [OF h]] by simp
  then have "ToUpper (hd ?lines) \<noteq> ''SEQUENTIAL''" "ToUpper (hd ?lines) \<noteq> ''RANDOM''" by auto
  then have "mode_line ?lines opts = (0, forced_mode opts)" by (simp only: mode_line_def Let_def if_False simp_thms)
  moreover have "detectSeparator (?lines ! 0) = CHR '',''" "splitRow (?lines ! 0) (CHR '','') = h"
    using r(2,3) [OF h] by simp_all
  moreover have "map (\<lambda>l. fill_row 0 h (splitRow l (CHR '','')) Map.empty) (drop 1 ?lines)
      = map (\<lambda>vals. fill_row 0 h vals Map.empty) rows"
    using r(2) by (simp add: comp_def cong: map_cong)
  moreover have "\<not> length ?lines \<le> 1" "?lines \<noteq> []" using assms(2) by (cases rows; simp)+
  ultimately show ?thesis
    using assms(1,4) l by (simp add: loadCSVFile_def csv_headers_def Let_def comp_def)
qed

theorem csv_first_line_is_header_witness:
  "loadCSVFile (\<lambda>_. Some (csv_file [[''1001'', ''17''], [''1002'', ''18'']])) [] None
    = Inr \<lparr>pool_rows = [[''1001'' \<mapsto> ''1002'', ''17'' \<mapsto> ''18'']], pool_mode = ''sequential'', pool_counter = 0\<rparr>"
proof -
  have "row_ok [''1001'', ''17'']" "row_ok [''1002'', ''18'']" "is_header [''1001'', ''17'']" by code_simp+
  then have "loadCSVFile (\<lambda>_. Some (csv_file [[''1001'', ''17''], [''1002'', ''18'']])) [] None
    = Inr \<lparr>pool_rows = map (\<lambda>vals. fill_row 0 [''1001'', ''17''] vals Map.empty) [[''1002'', ''18'']],
        pool_mode = forced_mode None, pool_counter = 0\<rparr>"
    by (intro csv_first_line_is_header) auto
  then show ?thesis by (simp add: forced_mode_def)
qed

end
