(* ===== verification/Sip_Msg.thy ===== *)
theory Sip_Msg
  imports Go_Strings
begin

text \<open>
  The messages of sipgo as far as the code builds and reads them. sipgo itself (transactions,
  dialogs, parsing and printing of messages) is not under \<open>src/\<close>: what it answers is an argument
  of the operations, what it completes in a request is part of that answer.
\<close>

datatype sip_method = INVITE | ACK | BYE | REFER | INFO | REGISTER | OPTIONS

record uri =
  Scheme :: string
  User :: string
  Host :: string
  Port :: int
  UriParams :: "(string \<times> string) list"

text \<open>From, To and Contact headers: an address, a display name and the \<open>tag\<close> parameter.\<close>

record name_addr =
  Address :: uri
  DisplayName :: string
  tag :: "string option"

record cseq_header =
  SeqNo :: nat
  MethodName :: sip_method

record request =
  Method :: sip_method
  Recipient :: uri
  SipVersion :: string
  req_Routes :: "string list"
  req_From :: "name_addr option"
  req_To :: "name_addr option"
  req_CallID :: "string option"
  req_CSeq :: "cseq_header option"
  req_Contact :: "name_addr option"
  req_Headers :: "(string \<times> string) list"
  req_Body :: string

record response =
  StatusCode :: int
  resp_From :: "name_addr option"
  resp_To :: "name_addr option"
  resp_Contact :: "name_addr option"
  resp_Headers :: "(string \<times> string) list"
  resp_Body :: string

text \<open>\<open>sipmsg.NewRequest\<close>: no headers yet.\<close>

definition NewRequest :: "sip_method \<Rightarrow> uri \<Rightarrow> request" where
  "NewRequest m target = \<lparr>Method = m, Recipient = target, SipVersion = ''SIP/2.0'', req_Routes = [],
     req_From = None, req_To = None, req_CallID = None, req_CSeq = None, req_Contact = None,
     req_Headers = [], req_Body = []\<rparr>"

definition SetBody :: "string \<Rightarrow> request \<Rightarrow> request" where
  "SetBody b r = r\<lparr>req_Body := b\<rparr>"

definition AppendHeader :: "string \<Rightarrow> string \<Rightarrow> request \<Rightarrow> request" where
  "AppendHeader name val r = r\<lparr>req_Headers := req_Headers r @ [(name, val)]\<rparr>"

text \<open>\<open>GetHeader\<close>: the first header of a name, which is compared without case.\<close>

fun header_value :: "string \<Rightarrow> (string \<times> string) list \<Rightarrow> string option" where
  "header_value name [] = None"
| "header_value name ((n, v) # hs) = (if ToLower n = ToLower name then Some v else header_value name hs)"

lemma request_fields [simp]:
  "Method (NewRequest m u) = m" "Recipient (NewRequest m u) = u" "req_Body (SetBody b r) = b"
  "Method (SetBody b r) = Method r" "Recipient (SetBody b r) = Recipient r"
  "Method (AppendHeader n v r) = Method r" "Recipient (AppendHeader n v r) = Recipient r"
  "req_Body (AppendHeader n v r) = req_Body r" "req_Headers (SetBody b r) = req_Headers r"
  "req_Headers (AppendHeader n v r) = req_Headers r @ [(n, v)]" "req_Headers (NewRequest m u) = []"
  by (simp_all add: NewRequest_def SetBody_def AppendHeader_def)

text \<open>
  A dialog as the code reads it: the INVITE, completed by sipgo, and the response to it. Both are
  pointers.
\<close>

record dialog =
  InviteRequest :: "request option"
  InviteResponse :: "response option"

text \<open>
  The answer to a request sent with \<open>dialog.Do\<close>: an error, or the request as sipgo completed it
  (From, To, Call-ID and CSeq of the dialog) with the final response.
\<close>

type_synonym do_answer = "(request \<times> response) option"

end
