(* ===== verification/Call.thy ===== *)
theory Call
  imports Sip_Msg Sdp Sdp_Srtp Codec Dtmf Mos Audio Recorder Rtcp
begin

text \<open>
  A call in progress (\<open>sip/handle.go\<close>, \<open>sip/hold.go\<close>, \<open>sip/transfer.go\<close>, \<open>sip/info.go\<close>, \<open>sip/vars.go\<close>):
  the state of \<open>CallHandle\<close> and its operations, each as the code runs it, with what the dialog
  answers as an argument. An operation returns nothing where Go panics; otherwise its error and
  the new state. \<open>c_wire\<close> records what was handed to sipgo. The threads of a call are in the theory
  Call_Threads.
\<close>

section \<open>State\<close>

record call_result =
  res_PacketsSent :: int
  res_PacketsReceived :: int
  res_PacketsLost :: int
  res_Jitter :: float64
  res_PacketLossPct :: float64
  res_MOS :: float64
  res_PESQScore :: float64
  res_IVRValid :: bool
  res_SilenceRatio :: float64
  res_RTTMs :: float64
  res_RTCPFractionLost :: byte
  res_RTCPCumulativeLost :: u32
  res_TransferOK :: bool
  res_RecvErrors :: int
  res_RecorderDrops :: int
  res_BytesSent :: int
  res_BytesReceived :: int

definition call_result0 :: call_result where
  "call_result0 = \<lparr>res_PacketsSent = 0, res_PacketsReceived = 0, res_PacketsLost = 0, res_Jitter = 0,
     res_PacketLossPct = 0, res_MOS = 0, res_PESQScore = 0, res_IVRValid = False, res_SilenceRatio = 0, res_RTTMs = 0,
     res_RTCPFractionLost = 0, res_RTCPCumulativeLost = 0, res_TransferOK = False, res_RecvErrors = 0,
     res_RecorderDrops = 0, res_BytesSent = 0, res_BytesReceived = 0\<rparr>"

datatype sip_event = Sent request | SentBye

record call =
  c_localIP :: string
  c_rtpPort :: int
  c_cod :: codec
  c_IVRExpect :: "string list"
  c_dialog :: "dialog option"
  c_sess :: rtp_session
  c_sendStats :: send_stats
  c_recvStats :: rtp_stats
  c_rtcp :: "rtcp_stats option"
  c_recorder :: "recorder option"
  c_dtmfColl :: "dtmf_collector option"
  c_srtpSender :: "srtp_session option"
  c_srtpReceiver :: "srtp_session option"
  c_stop :: bool
  c_done :: bool
  c_active :: bool
  c_onHold :: bool
  c_result :: call_result
  c_sdpVer :: u64
  c_wire :: "sip_event list"

datatype call_error =
    NotActive | ConsultantNotActive | DialogNotEstablished | TagsMissing
  | ReinviteFailed | ReinviteRejected int | AckFailed
  | ReferFailed | ReferRejected int
  | InfoFailed | InfoRejected int

definition IsActive :: "call \<Rightarrow> bool" where
  "IsActive h = c_active h"

definition OnHold :: "call \<Rightarrow> bool" where
  "OnHold h = c_onHold h"

section \<open>The dialog\<close>

text \<open>\<open>remoteContact\<close> dereferences the dialog and, without a Contact in the response, the INVITE.\<close>

definition remoteContact :: "call \<Rightarrow> uri option" where
  "remoteContact h = (case c_dialog h of
       None \<Rightarrow> None
     | Some d \<Rightarrow> (case InviteResponse d of
         Some resp \<Rightarrow> (case resp_Contact resp of
             Some c \<Rightarrow> Some (Address c)
           | None \<Rightarrow> map_option Recipient (InviteRequest d))
       | None \<Rightarrow> map_option Recipient (InviteRequest d)))"

definition tag_of :: "name_addr option \<Rightarrow> string" where
  "tag_of h = (case h of Some a \<Rightarrow> (case tag a of Some t \<Rightarrow> t | None \<Rightarrow> []) | None \<Rightarrow> [])"

text \<open>A request without Call-ID makes \<open>CallID().Value()\<close> panic; sipgo always sets one.\<close>

definition dialogID :: "call \<Rightarrow> (call_error + string \<times> string \<times> string) option" where
  "dialogID h = Option.bind (c_dialog h) (\<lambda>d. case (InviteRequest d, InviteResponse d) of
       (Some req, Some resp) \<Rightarrow>
         map_option (\<lambda>callID. let toTag = tag_of (resp_To resp); fromTag = tag_of (req_From req)
            in if toTag = [] \<or> fromTag = [] then Inl TagsMissing else Inr (callID, toTag, fromTag))
           (req_CallID req)
     | _ \<Rightarrow> Some (Inl DialogNotEstablished))"

section \<open>Re-INVITE: hold and unhold\<close>

definition buildReINVITEAck :: "request \<Rightarrow> response \<Rightarrow> request" where
  "buildReINVITEAck reinvite resp =
     (let recipient = (case resp_Contact resp of Some c \<Rightarrow> Address c | None \<Rightarrow> Recipient reinvite);
          ack = (NewRequest ACK recipient)\<lparr>SipVersion := SipVersion reinvite, req_Routes := req_Routes reinvite\<rparr>;
          ack = ack\<lparr>req_From := req_From reinvite, req_To := resp_To resp, req_CallID := req_CallID reinvite\<rparr>;
          ack = ack\<lparr>req_CSeq := map_option (\<lambda>c. c\<lparr>MethodName := ACK\<rparr>) (req_CSeq reinvite)\<rparr>
      in AppendHeader ''Max-Forwards'' ''70'' ack)"

definition reinvite_of :: "call \<Rightarrow> string \<Rightarrow> uri \<Rightarrow> request" where
  "reinvite_of h direction target =
     AppendHeader ''Content-Type'' ''application/sdp''
       (SetBody (buildSDP (c_localIP h) (c_rtpPort h) (codec_PayloadType (c_cod h)) direction (c_sdpVer h))
         (NewRequest INVITE target))"

definition send :: "request \<Rightarrow> call \<Rightarrow> call" where
  "send r h = h\<lparr>c_wire := c_wire h @ [Sent r]\<rparr>"

definition sendReINVITE :: "string \<Rightarrow> do_answer \<Rightarrow> bool \<Rightarrow> call \<Rightarrow> (call_error option \<times> call) option" where
  "sendReINVITE direction answer ack_ok h =
     (let h = h\<lparr>c_sdpVer := c_sdpVer h + 1\<rparr> in
      map_option (\<lambda>target.
        let h = send (reinvite_of h direction target) h in
        case answer of
          None \<Rightarrow> (Some ReinviteFailed, h)
        | Some (reinvite, resp) \<Rightarrow>
            if StatusCode resp \<noteq> 200 then (Some (ReinviteRejected (StatusCode resp)), h)
            else (if ack_ok then None else Some AckFailed, send (buildReINVITEAck reinvite resp) h))
        (remoteContact h))"

definition Hold :: "do_answer \<Rightarrow> bool \<Rightarrow> call \<Rightarrow> (call_error option \<times> call) option" where
  "Hold answer ack_ok h =
     (if \<not> c_active h then Some (Some NotActive, h)
      else if c_onHold h then Some (None, h)
      else map_option (\<lambda>(err, h'). case err of
             Some e \<Rightarrow> (Some e, h')
           | None \<Rightarrow> (None, h'\<lparr>c_onHold := True\<rparr>)) (sendReINVITE DirInactive answer ack_ok h))"

definition Unhold :: "do_answer \<Rightarrow> bool \<Rightarrow> call \<Rightarrow> (call_error option \<times> call) option" where
  "Unhold answer ack_ok h =
     (if \<not> c_active h then Some (Some NotActive, h)
      else if \<not> c_onHold h then Some (None, h)
      else map_option (\<lambda>(err, h'). case err of
             Some e \<Rightarrow> (Some e, h')
           | None \<Rightarrow> (None, h'\<lparr>c_onHold := False\<rparr>)) (sendReINVITE DirSendRecv answer ack_ok h))"

section \<open>Transfer\<close>

definition sendREFER :: "string \<Rightarrow> string \<Rightarrow> do_answer \<Rightarrow> call \<Rightarrow> (call_error option \<times> call) option" where
  "sendREFER referTo referredBy answer h =
     map_option (\<lambda>target.
       let refer = AppendHeader ''Refer-Sub'' ''false'' (AppendHeader ''Referred-By'' referredBy
             (AppendHeader ''Refer-To'' referTo (NewRequest REFER target)));
           h = send refer h
       in case answer of
            None \<Rightarrow> (Some ReferFailed, h)
          | Some (_, resp) \<Rightarrow>
              (if StatusCode resp \<noteq> 202 \<and> StatusCode resp \<noteq> 200 then Some (ReferRejected (StatusCode resp)) else None, h))
       (remoteContact h)"

definition mark_transfer :: "call_error option \<times> call \<Rightarrow> call_error option \<times> call" where
  "mark_transfer r = (case r of
       (None, h) \<Rightarrow> (None, h\<lparr>c_result := (c_result h)\<lparr>res_TransferOK := True\<rparr>\<rparr>)
     | (Some e, h) \<Rightarrow> (Some e, h))"

definition referred_by :: "call \<Rightarrow> string" where
  "referred_by h = ''<sip:k6load@'' @ c_localIP h @ ''>''"

definition BlindTransfer :: "string \<Rightarrow> do_answer \<Rightarrow> call \<Rightarrow> (call_error option \<times> call) option" where
  "BlindTransfer targetURI answer h =
     (if \<not> c_active h then Some (Some NotActive, h)
      else map_option mark_transfer (sendREFER (''<'' @ targetURI @ ''>'') (referred_by h) answer h))"

text \<open>\<open>url.QueryEscape\<close> of Go's standard library, on bytes.\<close>

definition hex_char :: "nat \<Rightarrow> char" where
  "hex_char n = (if n < 10 then char_of (n + 48) else char_of (n + 55))"

definition unreserved :: "char \<Rightarrow> bool" where
  "unreserved c = (let n = of_char c :: nat in
     (97 \<le> n \<and> n \<le> 122) \<or> (65 \<le> n \<and> n \<le> 90) \<or> (48 \<le> n \<and> n \<le> 57) \<or> c \<in> {CHR ''-'', CHR ''_'', CHR ''.'', CHR ''~''})"

definition escape_char :: "char \<Rightarrow> string" where
  "escape_char c =
     (if unreserved c then [c]
      else if c = CHR '' '' then ''+''
      else [CHR ''%'', hex_char (of_char c div 16), hex_char (of_char c mod 16)])"

definition QueryEscape :: "string \<Rightarrow> string" where
  "QueryEscape s = concat (map escape_char s)"

definition consultant_uri :: "uri \<Rightarrow> string" where
  "consultant_uri u = ''sip:'' @ User u @ ''@'' @ Host u @ (if Port u > 0 then '':'' @ show_int (Port u) else [])"

definition replaces_of :: "string \<times> string \<times> string \<Rightarrow> string" where
  "replaces_of ids = (case ids of (callID, toTag, fromTag) \<Rightarrow>
     callID @ '';to-tag='' @ toTag @ '';from-tag='' @ fromTag)"

definition refer_to :: "uri \<Rightarrow> string \<times> string \<times> string \<Rightarrow> string" where
  "refer_to u ids = ''<'' @ consultant_uri u @ ''?Replaces='' @ QueryEscape (replaces_of ids) @ ''>''"

text \<open>
  The hangup of the consultant's call a second later is a call of \<open>Hangup\<close> of its own; the
  third component of the result says whether it was started.
\<close>

definition AttendedTransfer :: "do_answer \<Rightarrow> call \<Rightarrow> call \<Rightarrow> ((call_error option \<times> call) \<times> bool) option" where
  "AttendedTransfer answer consultant h =
     (if \<not> c_active h then Some ((Some NotActive, h), False)
      else if \<not> c_active consultant then Some ((Some ConsultantNotActive, h), False)
      else Option.bind (dialogID consultant) (\<lambda>ids. case ids of
        Inl e \<Rightarrow> Some ((Some e, h), False)
      | Inr ids \<Rightarrow>
          Option.bind (remoteContact consultant) (\<lambda>contact.
            map_option (\<lambda>r. (mark_transfer r, fst r = None))
              (sendREFER (refer_to contact ids) (referred_by h) answer h))))"

section \<open>INFO and DTMF\<close>

definition SendInfo :: "string \<Rightarrow> string \<Rightarrow> do_answer \<Rightarrow> call \<Rightarrow> (call_error option \<times> call) option" where
  "SendInfo body contentType answer h =
     (if \<not> c_active h then Some (Some NotActive, h)
      else map_option (\<lambda>target.
        let info = AppendHeader ''Content-Type'' contentType (SetBody body (NewRequest INFO target));
            h = send info h
        in case answer of
             None \<Rightarrow> (Some InfoFailed, h)
           | Some (_, resp) \<Rightarrow> (if StatusCode resp \<noteq> 200 then Some (InfoRejected (StatusCode resp)) else None, h))
        (remoteContact h))"

definition dtmf_relay :: "string \<Rightarrow> int \<Rightarrow> string" where
  "dtmf_relay digit durationMs =
     (let durationMs = (if durationMs \<le> 0 then 160 else durationMs)
      in ''Signal='' @ digit @ crlf @ ''Duration='' @ show_int durationMs @ crlf)"

definition SendDTMFInfo :: "string \<Rightarrow> int \<Rightarrow> do_answer \<Rightarrow> call \<Rightarrow> (call_error option \<times> call) option" where
  "SendDTMFInfo digit durationMs answer h = SendInfo (dtmf_relay digit durationMs) ''application/dtmf-relay'' answer h"

text \<open>RFC 2833 digits over the RTP session of the call: the datagrams sent, and the new state.\<close>

definition call_SendDTMF :: "(rtp_packet \<Rightarrow> bytes option) \<Rightarrow> string \<Rightarrow> call \<Rightarrow> bytes list \<times> call" where
  "call_SendDTMF marshal digit h =
     (if \<not> c_active h then ([], h)
      else let (out, s) = SendDTMF marshal digit (c_sess h) in (out, h\<lparr>c_sess := s\<rparr>))"

section \<open>End of a call\<close>

text \<open>Up to the point where \<open>Hangup\<close> waits for \<open>done\<close>. The outcome of the BYE is ignored.\<close>

definition Hangup :: "call \<Rightarrow> call" where
  "Hangup h =
     (if \<not> c_active h then h
      else h\<lparr>c_active := False, c_stop := True, c_wire := c_wire h @ [SentBye]\<rparr>)"

text \<open>The BYE handler that \<open>client.go\<close> registers answers 200 and leaves the call alone.\<close>

definition remote_bye :: "call \<Rightarrow> int \<times> call" where
  "remote_bye h = (200, h)"

definition final_result :: "call \<Rightarrow> call_result" where
  "final_result h =
     (let snap = Snapshot (c_recvStats h);
          mos = CalculateMOS (snap_PacketLossPct snap) (snap_Jitter snap)
      in \<lparr>res_PacketsSent = PacketsSent (c_sendStats h), res_PacketsReceived = snap_PacketsReceived snap,
          res_PacketsLost = snap_PacketsLost snap, res_Jitter = snap_Jitter snap,
          res_PacketLossPct = snap_PacketLossPct snap, res_MOS = mos, res_PESQScore = 0,
          res_IVRValid = (case c_dtmfColl h of Some c \<Rightarrow> MatchesExpected (c_IVRExpect h) c | None \<Rightarrow> False),
          res_SilenceRatio = (case c_recorder h of Some r \<Rightarrow> SilenceRatioBytes (rec_buf r) | None \<Rightarrow> 0),
          res_RTTMs = (case c_rtcp h of Some r \<Rightarrow> RTTMs r | None \<Rightarrow> 0),
          res_RTCPFractionLost = (case c_rtcp h of Some r \<Rightarrow> FractionLost r | None \<Rightarrow> 0),
          res_RTCPCumulativeLost = (case c_rtcp h of Some r \<Rightarrow> CumulativeLost r | None \<Rightarrow> 0),
          res_TransferOK = False,
          res_RecvErrors = snap_RecvErrors snap,
          res_RecorderDrops = (case c_recorder h of Some r \<Rightarrow> DroppedFrames r | None \<Rightarrow> 0),
          res_BytesSent = BytesSent (c_sendStats h), res_BytesReceived = snap_BytesReceived snap\<rparr>)"

text \<open>
  \<open>startFinalize\<close> after its wait; it runs once. Closing the recorder panics if it is closed
  already. The composite literal leaves \<open>TransferOK\<close> and \<open>PESQScore\<close> at their zero values.
\<close>

definition finalize :: "call \<Rightarrow> call option" where
  "finalize h = (case c_recorder h of
       None \<Rightarrow> Some (h\<lparr>c_result := final_result h, c_done := True\<rparr>)
     | Some r \<Rightarrow> map_option (\<lambda>r'. h\<lparr>c_recorder := Some r', c_result := final_result h, c_done := True\<rparr>) (rec_Close r))"

section \<open>Accessors\<close>

definition ResponseHeader :: "string \<Rightarrow> call \<Rightarrow> string" where
  "ResponseHeader name h = (case Option.bind (c_dialog h) InviteResponse of
       None \<Rightarrow> [] | Some resp \<Rightarrow> (case header_value name (resp_Headers resp) of Some v \<Rightarrow> v | None \<Rightarrow> []))"

definition CallID :: "call \<Rightarrow> string" where
  "CallID h = (case Option.bind (c_dialog h) InviteRequest of
       None \<Rightarrow> [] | Some req \<Rightarrow> (case req_CallID req of Some v \<Rightarrow> v | None \<Rightarrow> []))"

definition FromTag :: "call \<Rightarrow> string" where
  "FromTag h = (case Option.bind (c_dialog h) InviteRequest of None \<Rightarrow> [] | Some req \<Rightarrow> tag_of (req_From req))"

definition ToTag :: "call \<Rightarrow> string" where
  "ToTag h = (case Option.bind (c_dialog h) InviteResponse of None \<Rightarrow> [] | Some resp \<Rightarrow> tag_of (resp_To resp))"

definition ResponseBody :: "call \<Rightarrow> string" where
  "ResponseBody h = (case Option.bind (c_dialog h) InviteResponse of None \<Rightarrow> [] | Some resp \<Rightarrow> resp_Body resp)"

definition RequestHeader :: "string \<Rightarrow> call \<Rightarrow> string" where
  "RequestHeader name h = (case Option.bind (c_dialog h) InviteRequest of
       None \<Rightarrow> [] | Some req \<Rightarrow> (case header_value name (req_Headers req) of Some v \<Rightarrow> v | None \<Rightarrow> []))"

text \<open>The URI is printed by sipgo; without a dialog the code panics.\<close>

definition RemoteContactURI :: "(uri \<Rightarrow> string) \<Rightarrow> call \<Rightarrow> string option" where
  "RemoteContactURI uri_String h = map_option uri_String (remoteContact h)"

end
