(* ===== verification/Hold.thy ===== *)
theory Hold
  imports Call
begin

text \<open>
  Scripts of operations on a call, and what they do to the signalling: no operation panics, the
  re-INVITEs of \<open>Hold\<close> and \<open>Unhold\<close> (\<open>sip/hold.go\<close>) carry increasing session versions, the hold flag
  agrees with the last offer the peer accepted, each accepted re-INVITE is acknowledged in its own
  transaction, and none of them offers SRTP.
\<close>

section \<open>Scripts of operations\<close>

text \<open>What a script does with a call, one operation after the other, each with the answers it gets.\<close>

datatype call_op =
    OpHold do_answer bool
  | OpUnhold do_answer bool
  | OpBlind string do_answer
  | OpAttended call do_answer
  | OpInfo string string do_answer
  | OpDTMFInfo string int do_answer
  | OpDTMF string
  | OpHangup
  | OpRemoteBye

definition call_step :: "(rtp_packet \<Rightarrow> bytes option) \<Rightarrow> call_op \<Rightarrow> call \<Rightarrow> call option" where
  "call_step marshal op h = (case op of
       OpHold a k \<Rightarrow> map_option snd (Hold a k h)
     | OpUnhold a k \<Rightarrow> map_option snd (Unhold a k h)
     | OpBlind target a \<Rightarrow> map_option snd (BlindTransfer target a h)
     | OpAttended c a \<Rightarrow> map_option (snd \<circ> fst) (AttendedTransfer a c h)
     | OpInfo b ct a \<Rightarrow> map_option snd (SendInfo b ct a h)
     | OpDTMFInfo d ms a \<Rightarrow> map_option snd (SendDTMFInfo d ms a h)
     | OpDTMF d \<Rightarrow> Some (snd (call_SendDTMF marshal d h))
     | OpHangup \<Rightarrow> Some (Hangup h)
     | OpRemoteBye \<Rightarrow> Some (snd (remote_bye h)))"

fun run_call :: "(rtp_packet \<Rightarrow> bytes option) \<Rightarrow> call_op list \<Rightarrow> call \<Rightarrow> call option" where
  "run_call marshal [] h = Some h"
| "run_call marshal (op # ops) h = Option.bind (call_step marshal op h) (run_call marshal ops)"

text \<open>
  A call that \<open>Dial\<close> returned as active has a dialog with its INVITE and its response, and the
  INVITE carries a Call-ID.
\<close>

definition established :: "call \<Rightarrow> bool" where
  "established h \<longleftrightarrow> (\<exists>d req resp. c_dialog h = Some d \<and> InviteRequest d = Some req \<and> InviteResponse d = Some resp
     \<and> req_CallID req \<noteq> None)"

lemma established_contact: "established h \<Longrightarrow> \<exists>u. remoteContact h = Some u"
  by (auto simp: established_def remoteContact_def split: option.split)

lemma established_dialogID: "established h \<Longrightarrow> \<exists>r. dialogID h = Some r"
  by (auto simp: established_def dialogID_def)

text \<open>What no operation touches.\<close>

definition same_call :: "call \<Rightarrow> call \<Rightarrow> bool" where
  "same_call h h' \<longleftrightarrow> c_dialog h' = c_dialog h \<and> c_localIP h' = c_localIP h \<and> c_rtpPort h' = c_rtpPort h
     \<and> c_cod h' = c_cod h \<and> c_srtpSender h' = c_srtpSender h \<and> c_done h' = c_done h"

lemma same_call_established: "same_call h h' \<Longrightarrow> established h' = established h"
  by (simp add: same_call_def established_def)

definition op_ok :: "call_op \<Rightarrow> bool" where
  "op_ok op = (case op of OpAttended c a \<Rightarrow> established c | _ \<Rightarrow> True)"

lemma send_simps [simp]:
  "c_dialog (send r h) = c_dialog h" "c_wire (send r h) = c_wire h @ [Sent r]" "c_active (send r h) = c_active h"
  "c_onHold (send r h) = c_onHold h" "c_sdpVer (send r h) = c_sdpVer h" "c_localIP (send r h) = c_localIP h"
  "c_rtpPort (send r h) = c_rtpPort h" "c_cod (send r h) = c_cod h" "c_srtpSender (send r h) = c_srtpSender h"
  "c_done (send r h) = c_done h" "c_result (send r h) = c_result h" "c_stop (send r h) = c_stop h"
  by (simp_all add: send_def)

lemma remoteContact_ver [simp]: "remoteContact (h\<lparr>c_sdpVer := v\<rparr>) = remoteContact h"
  by (simp add: remoteContact_def)

lemmas call_ops = Hold_def Unhold_def BlindTransfer_def AttendedTransfer_def SendInfo_def SendDTMFInfo_def
  call_SendDTMF_def Hangup_def remote_bye_def sendReINVITE_def sendREFER_def mark_transfer_def

lemma call_step_total:
  assumes "established h" "op_ok op"
  shows "call_step marshal op h \<noteq> None"
proof -
  obtain u where u: "remoteContact h = Some u" using established_contact [OF assms(1)] by blast
  show ?thesis
  proof (cases op)
    case (OpAttended c a)
    with assms(2) have "established c" by (simp add: op_ok_def)
    from established_contact [OF this] established_dialogID [OF this] obtain u' r where
      "remoteContact c = Some u'" "dialogID c = Some r" by blast
    with u OpAttended show ?thesis
      by (auto simp: call_step_def AttendedTransfer_def sendREFER_def split: sum.split)
  qed (simp_all add: call_step_def call_ops u Let_def split: prod.split)
qed

text \<open>What the operations other than hold and unhold do to a call, as far as re-INVITEs are concerned.\<close>

definition quiet :: "call \<Rightarrow> call \<Rightarrow> bool" where
  "quiet h h' \<longleftrightarrow> same_call h h' \<and> c_sdpVer h' = c_sdpVer h \<and> c_onHold h' = c_onHold h
     \<and> (\<exists>es. c_wire h' = c_wire h @ es \<and> (\<forall>r. Sent r \<in> set es \<longrightarrow> Method r \<in> {REFER, INFO}))"

lemma quiet_refl: "quiet h h"
  by (simp add: quiet_def same_call_def)

lemma quiet_send: "Method r \<in> {REFER, INFO} \<Longrightarrow> quiet h (send r h)"
  by (simp add: quiet_def same_call_def)

lemma quiet_mark: "quiet h h' \<Longrightarrow> quiet h (snd (mark_transfer (e, h')))"
  by (cases e) (simp_all add: mark_transfer_def quiet_def same_call_def)

lemma quiet_refer: "sendREFER rt rb a h = Some (e, h') \<Longrightarrow> quiet h h'"
  by (cases a) (auto simp: sendREFER_def Let_def intro!: quiet_send)

lemma quiet_blind: "BlindTransfer t a h = Some r \<Longrightarrow> quiet h (snd r)"
  by (auto simp: BlindTransfer_def quiet_refl split: if_splits intro: quiet_mark dest: quiet_refer)

lemma quiet_attended: "AttendedTransfer a c h = Some r \<Longrightarrow> quiet h (snd (fst r))"
  by (cases "dialogID c"; cases "the (dialogID c)")
    (auto simp: AttendedTransfer_def quiet_refl bind_eq_Some_conv split: if_splits
      intro: quiet_mark dest!: quiet_refer)

lemma quiet_info: "SendInfo b ct a h = Some (e, h') \<Longrightarrow> quiet h h'"
  by (cases a) (auto simp: SendInfo_def Let_def quiet_refl split: if_splits intro!: quiet_send)

lemma quiet_hangup: "quiet h (Hangup h)"
  by (simp add: Hangup_def quiet_def same_call_def)

lemma quiet_dtmf: "quiet h (snd (call_SendDTMF marshal d h))"
  by (simp add: call_SendDTMF_def quiet_def same_call_def split: prod.split)

definition holding :: "call_op \<Rightarrow> bool" where
  "holding op = (case op of OpHold _ _ \<Rightarrow> True | OpUnhold _ _ \<Rightarrow> True | _ \<Rightarrow> False)"

lemma quiet_step: "call_step marshal op h = Some h' \<Longrightarrow> \<not> holding op \<Longrightarrow> quiet h h'"
  by (cases op) (auto simp: call_step_def holding_def remote_bye_def SendDTMFInfo_def quiet_refl
      intro: quiet_hangup quiet_dtmf quiet_info dest: quiet_blind quiet_attended)

section \<open>The series of re-INVITEs\<close>

text \<open>One re-INVITE: the version goes up by one, the offer carries it, and at most an ACK follows.\<close>

lemma reinvite_effect:
  assumes "sendReINVITE dir a k h = Some (e, h')"
  shows "\<exists>r es. Method r = INVITE
    \<and> req_Body r = buildSDP (c_localIP h) (c_rtpPort h) (codec_PayloadType (c_cod h)) dir (c_sdpVer h + 1)
    \<and> h' = h\<lparr>c_sdpVer := c_sdpVer h + 1, c_wire := c_wire h @ Sent r # es\<rparr>
    \<and> (es = [] \<and> e \<noteq> None \<or> (\<exists>ack. es = [Sent ack] \<and> Method ack = ACK \<and> (e = None \<longleftrightarrow> k)))"
proof -
  have ack: "Method (buildReINVITEAck q resp) = ACK" for q resp
    by (simp add: buildReINVITEAck_def Let_def NewRequest_def)
  from assms obtain u where u: "remoteContact h = Some u" by (auto simp: sendReINVITE_def Let_def)
  let ?r = "reinvite_of (h\<lparr>c_sdpVer := c_sdpVer h + 1\<rparr>) dir u"
  have "Method ?r = INVITE"
    "req_Body ?r = buildSDP (c_localIP h) (c_rtpPort h) (codec_PayloadType (c_cod h)) dir (c_sdpVer h + 1)"
    by (simp_all add: reinvite_of_def)
  then show ?thesis
    using assms u ack
    by (intro exI [of _ ?r] exI [of _ "case a of None \<Rightarrow> []
        | Some (q, resp) \<Rightarrow> if StatusCode resp \<noteq> 200 then [] else [Sent (buildReINVITEAck q resp)]"])
      (auto simp: sendReINVITE_def Let_def send_def split: option.splits if_splits)
qed

lemma hold_effect:
  assumes "Hold a k h = Some (e, h')"
  shows "e = Some NotActive \<and> \<not> c_active h \<and> h' = h \<or> e = None \<and> c_onHold h \<and> c_active h \<and> h' = h
    \<or> (\<exists>h1. sendReINVITE DirInactive a k h = Some (e, h1) \<and> c_active h \<and> \<not> c_onHold h
        \<and> h' = (if e = None then h1\<lparr>c_onHold := True\<rparr> else h1))"
  using assms unfolding Hold_def by (auto split: if_splits option.splits)

lemma unhold_effect:
  assumes "Unhold a k h = Some (e, h')"
  shows "e = Some NotActive \<and> \<not> c_active h \<and> h' = h \<or> e = None \<and> \<not> c_onHold h \<and> c_active h \<and> h' = h
    \<or> (\<exists>h1. sendReINVITE DirSendRecv a k h = Some (e, h1) \<and> c_active h \<and> c_onHold h
        \<and> h' = (if e = None then h1\<lparr>c_onHold := False\<rparr> else h1))"
  using assms unfolding Unhold_def by (auto split: if_splits option.splits)

lemma same_reinvite: "sendReINVITE dir a k h = Some (e, h') \<Longrightarrow> same_call h h'"
  by (drule reinvite_effect) (auto simp: same_call_def)

lemma same_flag: "same_call h h' \<Longrightarrow> same_call h (h'\<lparr>c_onHold := b\<rparr>)"
  by (simp add: same_call_def)

lemma same_hold: "Hold a k h = Some (e, h') \<Longrightarrow> same_call h h'" "Unhold a k h = Some (e, h') \<Longrightarrow> same_call h h'"
  using quiet_refl [of h]
  by (auto simp: quiet_def split: if_splits dest!: hold_effect unhold_effect same_reinvite intro: same_flag)

lemma call_step_same: "call_step marshal op h = Some h' \<Longrightarrow> same_call h h'"
proof (cases "holding op")
  case True
  assume "call_step marshal op h = Some h'"
  with True show ?thesis by (cases op) (auto simp: call_step_def holding_def dest: same_hold)
qed (auto dest: quiet_step simp: quiet_def)

lemma run_call_total:
  "established h \<Longrightarrow> list_all op_ok ops \<Longrightarrow> \<exists>h'. run_call marshal ops h = Some h' \<and> same_call h h'"
proof (induction ops arbitrary: h)
  case Nil
  then show ?case by (simp add: same_call_def)
next
  case (Cons op ops)
  then obtain h1 where 1: "call_step marshal op h = Some h1" using call_step_total [of h op] by auto
  then have s: "same_call h h1" by (rule call_step_same)
  with Cons obtain h' where "run_call marshal ops h1 = Some h'" "same_call h1 h'"
    using same_call_established by fastforce
  with 1 s show ?case by (auto simp: same_call_def)
qed

definition invite_bodies :: "sip_event list \<Rightarrow> string list" where
  "invite_bodies es = concat (map (\<lambda>e. case e of Sent r \<Rightarrow> if Method r = INVITE then [req_Body r] else [] | SentBye \<Rightarrow> []) es)"

lemma invite_bodies_append [simp]: "invite_bodies (xs @ ys) = invite_bodies xs @ invite_bodies ys"
  by (simp add: invite_bodies_def)

lemma invite_bodies_none: "(\<forall>r. Sent r \<in> set es \<longrightarrow> Method r = REFER \<or> Method r = INFO) \<Longrightarrow> invite_bodies es = []"
  by (induction es) (auto simp: invite_bodies_def split: sip_event.split)

text \<open>What the peer has been offered and what is agreed, after the ACK, by the messages so far.\<close>

definition peer_sdp :: "sip_event \<Rightarrow> string option \<times> string option \<Rightarrow> string option \<times> string option" where
  "peer_sdp e p = (case e of
       Sent r \<Rightarrow> if Method r = INVITE then (Some (req_Body r), snd p) else if Method r = ACK then (fst p, fst p) else p
     | SentBye \<Rightarrow> p)"

definition agreed :: "sip_event list \<Rightarrow> string option" where
  "agreed es = snd (fold peer_sdp es (None, None))"


text \<open>The version and the directions of the offers so far.\<close>

definition offer_of :: "call \<Rightarrow> string \<Rightarrow> nat \<Rightarrow> string" where
  "offer_of h d k = buildSDP (c_localIP h) (c_rtpPort h) (codec_PayloadType (c_cod h)) d (of_nat k)"

definition offers :: "call \<Rightarrow> string list \<Rightarrow> string list" where
  "offers h ds = map (\<lambda>k. offer_of h (ds ! k) (k + 1)) [0..<length ds]"

definition numbered :: "call \<Rightarrow> bool" where
  "numbered h \<longleftrightarrow> (\<exists>ds. set ds \<subseteq> {DirInactive, DirSendRecv} \<and> c_sdpVer h = of_nat (length ds)
     \<and> invite_bodies (c_wire h) = offers h ds)"

lemma offers_snoc: "offers h (ds @ [d]) = offers h ds @ [offer_of h d (length ds + 1)]"
  by (simp add: offers_def nth_append)

lemma same_call_offers: "same_call h h' \<Longrightarrow> offers h' = offers h" "same_call h h' \<Longrightarrow> offer_of h' = offer_of h"
  by (simp_all add: same_call_def offers_def offer_of_def fun_eq_iff)

definition agrees :: "(string \<Rightarrow> nat \<Rightarrow> string) \<Rightarrow> bool \<Rightarrow> string option \<Rightarrow> bool" where
  "agrees offer held body = (case body of
       None \<Rightarrow> \<not> held
     | Some sdp \<Rightarrow> \<exists>v. sdp = offer (if held then DirInactive else DirSendRecv) v)"

definition in_step :: "call \<Rightarrow> bool" where
  "in_step h \<longleftrightarrow> agrees (offer_of h) (c_onHold h) (agreed (c_wire h))"

lemma quiet_numbered: "quiet h h' \<Longrightarrow> numbered h \<Longrightarrow> numbered h'"
  using same_call_offers(1) [of h h'] unfolding quiet_def numbered_def
  by (auto simp: invite_bodies_none)


text \<open>The four fields that a re-INVITE with its flag determines.\<close>

lemma reinvite_numbered:
  assumes "numbered h" "sendReINVITE dir a k h = Some (e, h1)" "dir \<in> {DirInactive, DirSendRecv}"
  shows "numbered h1 \<and> numbered (h1\<lparr>c_onHold := b\<rparr>)"
proof -
  from assms(1) obtain ds where ds: "set ds \<subseteq> {DirInactive, DirSendRecv}" "c_sdpVer h = of_nat (length ds)"
    "invite_bodies (c_wire h) = offers h ds" by (auto simp: numbered_def)
  from reinvite_effect [OF assms(2)] obtain r es where r: "Method r = INVITE"
    "req_Body r = buildSDP (c_localIP h) (c_rtpPort h) (codec_PayloadType (c_cod h)) dir (c_sdpVer h + 1)"
    "h1 = h\<lparr>c_sdpVer := c_sdpVer h + 1, c_wire := c_wire h @ Sent r # es\<rparr>"
    "es = [] \<or> (\<exists>ack. es = [Sent ack] \<and> Method ack = ACK)" by blast
  have body: "req_Body r = offer_of h dir (length ds + 1)" using r(2) ds(2) by (simp add: offer_of_def add.commute)
  have es: "invite_bodies (Sent r # es) = [req_Body r]" using r(1,4) by (auto simp: invite_bodies_def)
  have "set (ds @ [dir]) \<subseteq> {DirInactive, DirSendRecv}" "c_sdpVer h1 = of_nat (length (ds @ [dir]))"
    "invite_bodies (c_wire h1) = offers h (ds @ [dir])"
    using ds assms(3) r(3) es body by (simp_all add: offers_snoc)
  moreover have "offers h1 = offers h" by (simp add: r(3) offers_def offer_of_def fun_eq_iff)
  moreover have "offers (h1\<lparr>c_onHold := b\<rparr>) = offers h" by (simp add: r(3) offers_def offer_of_def fun_eq_iff)
  ultimately show ?thesis unfolding numbered_def
    by (intro conjI exI [of _ "ds @ [dir]"]; simp)
qed


lemma call_step_numbered: "call_step marshal op h = Some h' \<Longrightarrow> numbered h \<Longrightarrow> numbered h'"
proof (cases "holding op")
  case True
  assume s: "call_step marshal op h = Some h'" and n: "numbered h"
  have "numbered h2" if "Hold a k h = Some (e, h2)" for a k e h2
    using hold_effect [OF that] n reinvite_numbered [OF n] by auto
  moreover have "numbered h2" if "Unhold a k h = Some (e, h2)" for a k e h2
    using unhold_effect [OF that] n reinvite_numbered [OF n] by auto
  ultimately show ?thesis using True s by (cases op) (auto simp: call_step_def holding_def)
qed (auto dest: quiet_step quiet_numbered)







lemma run_call_invariant:
  assumes "\<And>op h h'. call_step marshal op h = Some h' \<Longrightarrow> P h \<Longrightarrow> ok op \<Longrightarrow> P h'"
  shows "run_call marshal ops h = Some h' \<Longrightarrow> P h \<Longrightarrow> list_all ok ops \<Longrightarrow> P h'"
  by (induction ops arbitrary: h) (auto simp: bind_eq_Some_conv intro: assms)

text \<open>A fresh call: established, nothing sent in the dialog, not on hold.\<close>

definition fresh_call :: "call \<Rightarrow> bool" where
  "fresh_call h \<longleftrightarrow> established h \<and> c_wire h = [] \<and> \<not> c_onHold h \<and> c_sdpVer h = 0"

lemma fresh_numbered: "fresh_call h \<Longrightarrow> numbered h \<and> in_step h"
  by (auto simp: fresh_call_def numbered_def in_step_def agrees_def agreed_def invite_bodies_def offers_def)

text \<open>A concrete call, for evaluations.\<close>

definition sample_uri :: uri where
  "sample_uri = \<lparr>Scheme = ''sip'', User = ''bob'', Host = ''10.0.0.9'', Port = 5070, UriParams = []\<rparr>"

definition sample_addr :: "string \<Rightarrow> name_addr" where
  "sample_addr t = \<lparr>Address = sample_uri, DisplayName = [], tag = Some t\<rparr>"

definition sample_answer :: "int \<Rightarrow> response" where
  "sample_answer code = \<lparr>StatusCode = code, resp_From = Some (sample_addr ''f1''), resp_To = Some (sample_addr ''t1''),
     resp_Contact = Some (sample_addr []), resp_Headers = [], resp_Body = []\<rparr>"

definition sample_call :: call where
  "sample_call = \<lparr>c_localIP = ''10.0.0.7'', c_rtpPort = 20000, c_cod = PCMU, c_IVRExpect = [''1''],
     c_dialog = Some \<lparr>InviteRequest = Some ((NewRequest INVITE sample_uri)\<lparr>req_From := Some (sample_addr ''f1''), req_CallID := Some ''id@h''\<rparr>),
       InviteResponse = Some (sample_answer 200)\<rparr>,
     c_sess = NewSession 7, c_sendStats = send_stats0, c_recvStats = rtp_stats0, c_rtcp = None, c_recorder = None,
     c_dtmfColl = None, c_srtpSender = None, c_srtpReceiver = None, c_stop = False, c_done = False, c_active = True,
     c_onHold = False, c_result = call_result0, c_sdpVer = 0, c_wire = []\<rparr>"

definition sample_ok :: "int \<Rightarrow> do_answer" where
  "sample_ok code = Some (NewRequest INVITE sample_uri, sample_answer code)"

lemma sample_fresh: "fresh_call sample_call"
  by (simp add: fresh_call_def established_def sample_call_def)

section \<open>Properties of hold and unhold\<close>

text \<open>C17: No script of operations on an established call panics. The k-th re-INVITE it sends, answered or
  not, is the offer with session version k and direction inactive or sendrecv: versions strictly
  increase by one, and a peer that runs the parser of this program reads the call's own address
  and port out of each of them.\<close>
theorem reinvites_numbered:
  assumes "fresh_call h" "list_all op_ok ops"
    "word_ok (c_localIP h)" "0 \<le> c_rtpPort h" "c_rtpPort h < 2 ^ 63"
  shows "\<exists>h' ds. run_call marshal ops h = Some h' \<and> set ds \<subseteq> {DirInactive, DirSendRecv}
    \<and> invite_bodies (c_wire h') = map (\<lambda>k. offer_of h (ds ! k) (k + 1)) [0..<length ds]
    \<and> (\<forall>body \<in> set (invite_bodies (c_wire h')). connectionIP (ParseSDP body) = c_localIP h \<and> sdp_port (ParseSDP body) = c_rtpPort h)"
proof -
  from assms(1,2) run_call_total [of h ops marshal] obtain h' where h': "run_call marshal ops h = Some h'" "same_call h h'"
    by (auto simp: fresh_call_def)
  have "numbered h'"
    using run_call_invariant [where P = numbered and ok = "\<lambda>_. True", OF call_step_numbered h'(1)] fresh_numbered [OF assms(1)]
    by (simp add: list_all_iff)
  then obtain ds where ds: "set ds \<subseteq> {DirInactive, DirSendRecv}" "invite_bodies (c_wire h') = offers h ds"
    using same_call_offers(1) [OF h'(2)] by (auto simp: numbered_def)
  have "connectionIP (ParseSDP (offer_of h d k)) = c_localIP h \<and> sdp_port (ParseSDP (offer_of h d k)) = c_rtpPort h"
    if "d \<in> set ds" for d k
  proof -
    have "direction_ok d" using ds(1) that by (auto simp: direction_ok_def)
    with sdp_roundtrip_map [OF assms(3-5)] show ?thesis by (simp add: offer_of_def)
  qed
  then have "\<forall>body \<in> set (offers h ds). connectionIP (ParseSDP body) = c_localIP h \<and> sdp_port (ParseSDP body) = c_rtpPort h"
    by (auto simp: offers_def)
  with ds h'(1) show ?thesis by (auto simp: offers_def)
qed

theorem reinvites_numbered_witness:
  "\<exists>h' ds. run_call rfc3550_marshal [OpHold None True, OpHold (sample_ok 200) True, OpHangup] sample_call = Some h'
     \<and> invite_bodies (c_wire h') = map (\<lambda>k. offer_of sample_call (ds ! k) (k + 1)) [0..<length ds]"
proof -
  have "word_ok (c_localIP sample_call)" "0 \<le> c_rtpPort sample_call" "c_rtpPort sample_call < 2 ^ 63" by code_simp+
  moreover have "list_all op_ok [OpHold None True, OpHold (sample_ok 200) True, OpHangup]" by (simp add: op_ok_def)
  ultimately show ?thesis using reinvites_numbered [OF sample_fresh, of _ rfc3550_marshal] by blast
qed


section \<open>Hold in a call with SRTP\<close>

lemma prefix_set: "HasPrefix s p \<Longrightarrow> set p \<subseteq> set s"
  unfolding HasPrefix_def by (metis set_take_subset)

lemma contains_set: "Contains s p \<Longrightarrow> set p \<subseteq> set s"
  by (induction s) (auto dest!: prefix_set)

lemma contains_mid: "Contains (xs @ p @ ys) p"
proof (induction xs)
  case Nil
  have "take (length p) (p @ ys) = p" by simp
  then show ?case by (cases "p @ ys") (auto simp: HasPrefix_def simp del: take_append append_eq_Cons_conv)
qed simp

lemma show_nat_no_S: "CHR ''S'' \<notin> set (show_nat n)"
proof (induction n rule: show_nat.induct)
  case (1 n)
  have d: "digit_char k \<noteq> CHR ''S''" if "k < 10" for k
  proof
    assume e: "digit_char k = CHR ''S''"
    then have "(of_char (digit_char k) :: nat) = of_char (CHR ''S'')" by simp
    with that show False by (simp add: digit_char_def)
  qed
  show ?case
    by (subst show_nat.simps) (use 1 d [of n] d [of "n mod 10"] in auto)
qed

lemma plain_offer_no_S:
  assumes "CHR ''S'' \<notin> set ip" "d \<in> {DirInactive, DirSendRecv}"
  shows "CHR ''S'' \<notin> set (buildSDP ip port pt d ver)"
proof -
  have "CHR ''S'' \<notin> set (show_int port)" using show_nat_no_S by (simp add: show_int_def)
  moreover have "CHR ''S'' \<notin> set (offer_rtpmap pt)"
    using show_nat_no_S by (auto simp: offer_rtpmap_def offer_codec_def)
  ultimately show ?thesis
    using assms show_nat_no_S
    by (auto simp: buildSDP_def sdp_lines_def crlf_def DirInactive_def DirSendRecv_def)
qed

text \<open>Hold and unhold of a call with SRTP media offer plain RTP: the offer that started the call is
  RTP/SAVP, every re-INVITE of every script is RTP/AVP without a key, although the media goes on
  encrypted. (The local address is an IP literal, so it has no letter S.)\<close>
theorem reinvite_drops_srtp:
  assumes "fresh_call h" "BuildSDPWithSRTP (Some key) (c_localIP h) (c_rtpPort h) (codec_PayloadType (c_cod h)) dir = Some (offer, cfg)"
    "CHR ''S'' \<notin> set (c_localIP h)" "run_call marshal ops h = Some h'"
  shows "IsSRTPOffer offer \<and> (\<forall>body \<in> set (invite_bodies (c_wire h')). \<not> IsSRTPOffer body)"
proof -
  have same: "same_call h h'"
    using run_call_invariant [of marshal "same_call h" "\<lambda>_. True" ops h h'] call_step_same assms(4)
    by (auto simp: same_call_def list_all_iff)
  have "numbered h'"
    using run_call_invariant [of marshal numbered "\<lambda>_. True" ops h h'] call_step_numbered fresh_numbered [OF assms(1)] assms(4)
    by (auto simp: list_all_iff)
  then obtain ds where ds: "set ds \<subseteq> {DirInactive, DirSendRecv}" "invite_bodies (c_wire h') = offers h ds"
    using same_call_offers(1) [OF same] by (auto simp: numbered_def)
  have "\<not> IsSRTPOffer (offer_of h d k)" if "d \<in> set ds" for d k
  proof
    assume "IsSRTPOffer (offer_of h d k)"
    from contains_set [OF this [unfolded IsSRTPOffer_def]] have "CHR ''S'' \<in> set (offer_of h d k)" by simp
    with plain_offer_no_S [OF assms(3), of d] ds(1) that show False by (auto simp: offer_of_def)
  qed
  then have "\<forall>body \<in> set (offers h ds). \<not> IsSRTPOffer body" by (auto simp: offers_def)
  moreover have "\<exists>xs ys. offer = xs @ ''RTP/SAVP'' @ ys"
  proof -
    let ?ls = "srtp_sdp_lines key (c_localIP h) (c_rtpPort h) (codec_PayloadType (c_cod h)) dir"
    let ?g = "\<lambda>l. l @ crlf"
    have "concat (map ?g ?ls) = (concat (map ?g (take 5 ?ls)) @ ''m=audio '' @ show_int (c_rtpPort h) @ '' '') @ ''RTP/SAVP''
        @ ('' '' @ show_nat (unat (codec_PayloadType (c_cod h))) @ crlf @ concat (map ?g (drop 6 ?ls)))"
      by (simp add: srtp_sdp_lines_def)
    moreover have "offer = concat (map ?g ?ls)" using assms(2) by (simp add: BuildSDPWithSRTP_def)
    ultimately show ?thesis by (intro exI) (simp only:)
  qed
  ultimately show ?thesis using ds(2) contains_mid [of _ "''RTP/SAVP''"] by (auto simp: IsSRTPOffer_def)
qed

theorem reinvite_drops_srtp_witness:
  "\<exists>h'. run_call rfc3550_marshal [OpHold (sample_ok 200) True] sample_call = Some h'
     \<and> (\<forall>body \<in> set (invite_bodies (c_wire h')). \<not> IsSRTPOffer body)"
proof -
  obtain offer cfg where o:
    "BuildSDPWithSRTP (Some sample_key) (c_localIP sample_call) (c_rtpPort sample_call)
       (codec_PayloadType (c_cod sample_call)) DirSendRecv = Some (offer, cfg)"
    by (simp add: BuildSDPWithSRTP_def)
  have ip: "CHR ''S'' \<notin> set (c_localIP sample_call)" by (simp add: sample_call_def)
  have "established sample_call" using sample_fresh by (simp add: fresh_call_def)
  then have "\<exists>h'. run_call rfc3550_marshal [OpHold (sample_ok 200) True] sample_call = Some h'"
    using established_contact [of "sample_call\<lparr>c_sdpVer := c_sdpVer sample_call + 1\<rparr>"]
    by (auto simp: call_step_def Hold_def sendReINVITE_def Let_def established_def sample_call_def)
  then obtain h' where r: "run_call rfc3550_marshal [OpHold (sample_ok 200) True] sample_call = Some h'" by blast
  with reinvite_drops_srtp [OF sample_fresh o ip r] show ?thesis by blast
qed

section \<open>The ACK of a re-INVITE\<close>

text \<open>When a re-INVITE is answered with 200, exactly one more request goes out, the ACK: it repeats the
  Call-ID, the From header and the CSeq number of the re-INVITE with method ACK, takes the To
  header with the peer's tag from the response, goes to the Contact of the response or else to
  where the re-INVITE went, and has no body. Any other answer gets no ACK.\<close>
theorem reinvite_ack:
  assumes "sendReINVITE dir (Some (reinvite, resp)) k h = Some (e, h')"
  shows "\<exists>r. Method r = INVITE \<and> (if StatusCode resp = 200
     then \<exists>ack. c_wire h' = c_wire h @ [Sent r, Sent ack] \<and> Method ack = ACK
       \<and> req_CallID ack = req_CallID reinvite \<and> req_From ack = req_From reinvite \<and> req_To ack = resp_To resp
       \<and> map_option SeqNo (req_CSeq ack) = map_option SeqNo (req_CSeq reinvite)
       \<and> (\<forall>c. req_CSeq ack = Some c \<longrightarrow> MethodName c = ACK)
       \<and> Recipient ack = (case resp_Contact resp of Some c \<Rightarrow> Address c | None \<Rightarrow> Recipient reinvite)
       \<and> req_Body ack = [] \<and> (e = None \<longleftrightarrow> k)
     else c_wire h' = c_wire h @ [Sent r] \<and> e = Some (ReinviteRejected (StatusCode resp)))"
proof -
  from assms obtain u where u: "remoteContact h = Some u" by (auto simp: sendReINVITE_def Let_def)
  let ?r = "reinvite_of (h\<lparr>c_sdpVer := c_sdpVer h + 1\<rparr>) dir u"
  have m: "Method ?r = INVITE" by (simp add: reinvite_of_def)
  show ?thesis
  proof (cases "StatusCode resp = 200")
    case False
    then show ?thesis using assms u m by (intro exI [of _ ?r]) (auto simp: sendReINVITE_def Let_def)
  next
    case True
    have "c_wire h' = c_wire h @ [Sent ?r, Sent (buildReINVITEAck reinvite resp)]" "e = None \<longleftrightarrow> k"
      using assms u True by (auto simp: sendReINVITE_def Let_def split: if_splits)
    then show ?thesis
      using True m by (intro exI [of _ ?r]) (auto simp: buildReINVITEAck_def Let_def NewRequest_def AppendHeader_def
          option.map_comp o_def intro!: exI [of _ "buildReINVITEAck reinvite resp"])
  qed
qed

theorem reinvite_ack_witness:
  "\<exists>e h' r ack. sendReINVITE DirInactive (sample_ok 200) False sample_call = Some (e, h')
     \<and> c_wire h' = [Sent r, Sent ack] \<and> req_Body ack = [] \<and> e \<noteq> None"
proof -
  have "established sample_call" using sample_fresh by (simp add: fresh_call_def)
  from established_contact [OF this] have "sendReINVITE DirInactive (sample_ok 200) False sample_call \<noteq> None"
    by (auto simp: sendReINVITE_def Let_def)
  then obtain e h' where s: "sendReINVITE DirInactive (sample_ok 200) False sample_call = Some (e, h')"
    by (cases "the (sendReINVITE DirInactive (sample_ok 200) False sample_call)") auto
  moreover have "c_wire sample_call = []" "StatusCode (sample_answer 200) = 200"
    by (simp_all add: sample_call_def sample_answer_def)
  ultimately show ?thesis
    using reinvite_ack [OF s [unfolded sample_ok_def]] by (auto simp: sample_ok_def)
qed

end
