(* ===== verification/Call_Transfer.thy ===== *)
theory Call_Transfer
  imports Hold
begin

text \<open>
  Transfers (\<open>sip/transfer.go\<close>) and the end of a call (\<open>handle.go\<close>): the REFER of an attended transfer
  carries the identity of the consultant's dialog through the escaping of the URI, the figures of
  the final result, and the fate of the transfer flag.
\<close>

section \<open>Transfers\<close>

text \<open>The reference: undoing the escapes of a query component, as the receiver of a Refer-To does.\<close>

definition hex_value :: "char \<Rightarrow> nat" where
  "hex_value c = (let n = of_char c in if n < 58 then n - 48 else n - 55)"

fun QueryUnescape :: "string \<Rightarrow> string" where
  "QueryUnescape [] = []"
| "QueryUnescape (c # s) =
     (if c = CHR ''%'' then
        (case s of a # b # r \<Rightarrow> char_of (16 * hex_value a + hex_value b) # QueryUnescape r | _ \<Rightarrow> [])
      else (if c = CHR ''+'' then CHR '' '' else c) # QueryUnescape s)"

lemma hex_value_char: "n < 16 \<Longrightarrow> hex_value (hex_char n) = n"
  by (auto simp: hex_value_def hex_char_def Let_def)

lemma unreserved_plain: "unreserved c \<Longrightarrow> c \<notin> {CHR ''%'', CHR ''+'', CHR ''<'', CHR ''>'', CHR ''?'', CHR '';'', CHR ''='', CHR ''&'', CHR ''@''}"
  by (auto simp: unreserved_def)

lemma char_halves: "(of_char c :: nat) div 16 < 16" "(of_char c :: nat) mod 16 < 16"
proof -
  have "(of_char c :: nat) < 16 * 16" by simp
  then show "(of_char c :: nat) div 16 < 16" by (rule less_mult_imp_div_less)
qed simp

lemma unescape_char: "QueryUnescape (escape_char c @ s) = c # QueryUnescape s"
proof (cases "unreserved c")
  case True
  from unreserved_plain [OF this] True show ?thesis by (auto simp: escape_char_def)
next
  case False
  from char_halves [of c] have "char_of (16 * hex_value (hex_char (of_char c div 16)) + hex_value (hex_char (of_char c mod 16))) = c"
    by (simp add: hex_value_char)
  with False show ?thesis by (simp add: escape_char_def)
qed

lemma unescape_escape: "QueryUnescape (QueryEscape s) = s"
  by (induction s) (simp_all add: QueryEscape_def unescape_char)

lemma hex_char_plain: "n < 16 \<Longrightarrow> unreserved (hex_char n)"
  by (auto simp: unreserved_def hex_char_def Let_def)

lemma escape_chars: "c \<in> set (QueryEscape s) \<Longrightarrow> unreserved c \<or> c = CHR ''%'' \<or> c = CHR ''+''"
proof -
  have "unreserved d \<or> d = CHR ''%'' \<or> d = CHR ''+''" if "d \<in> set (escape_char x)" for d x
  proof -
    from char_halves [of x, THEN hex_char_plain] that show ?thesis by (auto simp: escape_char_def split: if_splits)
  qed
  then show "c \<in> set (QueryEscape s) \<Longrightarrow> ?thesis" by (auto simp: QueryEscape_def)
qed

lemma attended_refer:
  assumes "c_active h" "c_active c" "dialogID c = Some (Inr ids)" "remoteContact c = Some u" "remoteContact h = Some target"
  shows "\<exists>r h1. Method r = REFER \<and> Recipient r = target \<and> req_Headers r = [(''Refer-To'', refer_to u ids),
      (''Referred-By'', referred_by h), (''Refer-Sub'', ''false'')] \<and> c_wire h1 = c_wire h @ [Sent r]
    \<and> (let e = (case answer of None \<Rightarrow> Some ReferFailed
          | Some (_, resp) \<Rightarrow> if StatusCode resp \<noteq> 202 \<and> StatusCode resp \<noteq> 200 then Some (ReferRejected (StatusCode resp)) else None)
       in AttendedTransfer answer c h = Some ((e, h1), e = None) \<and> (res_TransferOK (c_result h1) \<longleftrightarrow> e = None \<or> res_TransferOK (c_result h)))"
proof -
  let ?r = "AppendHeader ''Refer-Sub'' ''false'' (AppendHeader ''Referred-By'' (referred_by h)
      (AppendHeader ''Refer-To'' (refer_to u ids) (NewRequest REFER target)))"
  let ?e = "case answer of None \<Rightarrow> Some ReferFailed
      | Some (_, resp) \<Rightarrow> if StatusCode resp \<noteq> 202 \<and> StatusCode resp \<noteq> 200 then Some (ReferRejected (StatusCode resp)) else None"
  let ?h = "snd (mark_transfer (?e, send ?r h))"
  have s: "sendREFER (refer_to u ids) (referred_by h) answer h = Some (?e, send ?r h)"
    using assms(5) by (simp add: sendREFER_def Let_def split: option.splits prod.splits)
  have m: "mark_transfer (?e, send ?r h) = (?e, ?h)"
    by (cases ?e) (simp_all add: mark_transfer_def)
  have "AttendedTransfer answer c h = Some ((?e, ?h), ?e = None)"
    using assms(1-4) s m by (simp add: AttendedTransfer_def)
  moreover have "c_wire ?h = c_wire h @ [Sent ?r]" "res_TransferOK (c_result ?h) \<longleftrightarrow> ?e = None \<or> res_TransferOK (c_result h)"
    by (cases ?e; simp add: mark_transfer_def)+
  ultimately show ?thesis by (intro exI [of _ ?r] exI [of _ ?h]) (simp add: Let_def)
qed

text \<open>C31: An attended transfer between two established calls sends one REFER to the remote contact of the
  first call. Its Refer-To is the URI of the consultant's peer with one Replaces parameter, whose
  value contains no character with a meaning in a URI or a header and unescapes to the Call-ID and
  the from-tag of the consultant's INVITE and the to-tag of its answer. The operation succeeds and the consultant's leg
  is hung up exactly when the answer is 200 or 202.\<close>
theorem attended_transfer_names_dialog:
  assumes "c_active h" "c_active c"
    and "c_dialog c = Some \<lparr>InviteRequest = Some req, InviteResponse = Some resp\<rparr>" "req_CallID req = Some callID"
    and "req_From req = Some from" "tag from = Some fromTag" "resp_To resp = Some to" "tag to = Some toTag"
    and "fromTag \<noteq> []" "toTag \<noteq> []" "remoteContact c = Some u" "remoteContact h = Some target"
  shows "\<exists>r h1 e esc. AttendedTransfer answer c h = Some ((e, h1), e = None)
    \<and> c_wire h1 = c_wire h @ [Sent r] \<and> Method r = REFER \<and> Recipient r = target
    \<and> header_value ''Refer-To'' (req_Headers r) = Some (''<'' @ consultant_uri u @ ''?Replaces='' @ esc @ ''>'')
    \<and> QueryUnescape esc = callID @ '';to-tag='' @ toTag @ '';from-tag='' @ fromTag
    \<and> set esc \<inter> {CHR ''<'', CHR ''>'', CHR ''?'', CHR '';'', CHR ''='', CHR ''&'', CHR ''@''} = {}
    \<and> (e = None \<longleftrightarrow> (\<exists>q resp. answer = Some (q, resp) \<and> StatusCode resp \<in> {200, 202}))"
proof -
  let ?esc = "QueryEscape (replaces_of (callID, toTag, fromTag))"
  have "dialogID c = Some (Inr (callID, toTag, fromTag))"
    by (simp add: dialogID_def tag_of_def assms(3-10))
  from attended_refer [OF assms(1,2) this assms(11,12), of answer] obtain r h1 e where r:
    "AttendedTransfer answer c h = Some ((e, h1), e = None)" "c_wire h1 = c_wire h @ [Sent r]" "Method r = REFER"
    "Recipient r = target" "req_Headers r = [(''Refer-To'', refer_to u (callID, toTag, fromTag)),
      (''Referred-By'', referred_by h), (''Refer-Sub'', ''false'')]"
    "e = (case answer of None \<Rightarrow> Some ReferFailed
      | Some (_, resp) \<Rightarrow> if StatusCode resp \<noteq> 202 \<and> StatusCode resp \<noteq> 200 then Some (ReferRejected (StatusCode resp)) else None)"
    unfolding Let_def by blast
  have "set ?esc \<inter> {CHR ''<'', CHR ''>'', CHR ''?'', CHR '';'', CHR ''='', CHR ''&'', CHR ''@''} = {}"
    using escape_chars [of _ "replaces_of (callID, toTag, fromTag)"] unreserved_plain by fastforce
  moreover have "header_value ''Refer-To'' (req_Headers r) = Some (''<'' @ consultant_uri u @ ''?Replaces='' @ ?esc @ ''>'')"
    by (simp add: r(5) refer_to_def)
  moreover have "QueryUnescape ?esc = callID @ '';to-tag='' @ toTag @ '';from-tag='' @ fromTag"
    by (simp add: unescape_escape replaces_of_def)
  moreover have "e = None \<longleftrightarrow> (\<exists>q resp. answer = Some (q, resp) \<and> StatusCode resp \<in> {200, 202})"
    by (auto simp: r(6) split: option.splits)
  ultimately show ?thesis using r(1-4)
    by (intro exI [of _ r] exI [of _ h1] exI [of _ e] exI [of _ ?esc] conjI)
qed

theorem attended_transfer_names_dialog_witness:
  "\<exists>h1 r esc. AttendedTransfer (sample_ok 202) sample_call sample_call = Some ((None, h1), True)
     \<and> c_wire h1 = c_wire sample_call @ [Sent r]
     \<and> header_value ''Refer-To'' (req_Headers r) = Some (''<'' @ consultant_uri sample_uri @ ''?Replaces='' @ esc @ ''>'')
     \<and> QueryUnescape esc = ''id@h;to-tag=t1;from-tag=f1''"
proof -
  let ?req = "(NewRequest INVITE sample_uri)\<lparr>req_From := Some (sample_addr ''f1''), req_CallID := Some ''id@h''\<rparr>"
  have d: "c_dialog sample_call = Some \<lparr>InviteRequest = Some ?req, InviteResponse = Some (sample_answer 200)\<rparr>"
    "c_active sample_call" "remoteContact sample_call = Some sample_uri"
    by (simp_all add: remoteContact_def sample_call_def sample_answer_def sample_addr_def)
  have tags: "req_CallID ?req = Some ''id@h''" "req_From ?req = Some (sample_addr ''f1'')" "tag (sample_addr ''f1'') = Some ''f1''"
    "resp_To (sample_answer 200) = Some (sample_addr ''t1'')" "tag (sample_addr ''t1'') = Some ''t1''" "''f1'' \<noteq> []" "''t1'' \<noteq> []"
    by (simp_all add: sample_answer_def sample_addr_def)
  have ok: "\<exists>q resp. sample_ok 202 = Some (q, resp) \<and> StatusCode resp \<in> {200, 202}"
    by (simp add: sample_ok_def sample_answer_def)
  from attended_transfer_names_dialog [OF d(2) d(2) d(1) tags d(3) d(3), of "sample_ok 202"] show ?thesis
  proof (elim exE conjE)
    fix r h1 e esc
    assume a: "AttendedTransfer (sample_ok 202) sample_call sample_call = Some ((e, h1), e = None)"
      and w: "c_wire h1 = c_wire sample_call @ [Sent r]"
      and b: "header_value ''Refer-To'' (req_Headers r) = Some (''<'' @ consultant_uri sample_uri @ ''?Replaces='' @ esc @ ''>'')"
      and c: "QueryUnescape esc = ''id@h'' @ '';to-tag='' @ ''t1'' @ '';from-tag='' @ ''f1''"
      and e: "e = None \<longleftrightarrow> (\<exists>q resp. sample_ok 202 = Some (q, resp) \<and> StatusCode resp \<in> {200, 202})"
    from e ok have "e = None" by (rule iffD2)
    with a w b c show ?thesis by (intro exI [of _ h1] exI [of _ r] exI [of _ esc]) simp
  qed
qed

section \<open>The final result\<close>

lemma finalize_result: "finalize h = Some h' \<Longrightarrow> c_result h' = final_result h \<and> c_done h'"
  by (cases "c_recorder h") (auto simp: finalize_def)

lemma final_result_no_transfer: "\<not> res_TransferOK (final_result h)"
  by (simp add: final_result_def Let_def)

text \<open>A transfer that the peer accepted is recorded in the result while the call lives, and is gone from
  the result that the caller reads: the finalization builds a new result without the flag.\<close>
theorem transfer_flag_lost:
  assumes "c_active h" "BlindTransfer target answer h = Some (None, h1)" "finalize (Hangup h1) = Some h2"
  shows "res_TransferOK (c_result h1) \<and> \<not> res_TransferOK (c_result h2) \<and> c_done h2"
proof -
  from assms(1,2) obtain r where "mark_transfer r = (None, h1)" by (auto simp: BlindTransfer_def)
  then have "res_TransferOK (c_result h1)" by (cases r; cases "fst r") (auto simp: mark_transfer_def)
  with finalize_result [OF assms(3)] final_result_no_transfer show ?thesis by simp
qed

theorem transfer_flag_lost_witness:
  "\<exists>h1 h2. BlindTransfer ''sip:carol@h'' (sample_ok 202) sample_call = Some (None, h1)
     \<and> finalize (Hangup h1) = Some h2 \<and> res_TransferOK (c_result h1) \<and> \<not> res_TransferOK (c_result h2)"
proof -
  have r: "remoteContact sample_call = Some sample_uri" "c_active sample_call" by code_simp+
  obtain h1 where h1: "BlindTransfer ''sip:carol@h'' (sample_ok 202) sample_call = Some (None, h1)" "c_recorder h1 = None"
    using r by (simp add: BlindTransfer_def sendREFER_def mark_transfer_def sample_ok_def sample_answer_def send_def)
      (simp add: sample_call_def)
  then have "c_recorder (Hangup h1) = None" by (simp add: Hangup_def)
  then obtain h2 where h2: "finalize (Hangup h1) = Some h2" by (simp add: finalize_def)
  from transfer_flag_lost [OF r(2) h1(1) h2] h1(1) h2 show ?thesis by blast
qed

text \<open>The figures a caller reads after any reception: the rating lies between 1 and 5, the loss between 0
  and 100 percent, jitter is not negative, the packets counted are those of the statistics, and
  the IVR check succeeds exactly when a collector ran and heard the expected digits in order.\<close>
theorem final_result_figures:
  assumes "c_recvStats h = stats_run ps rtp_stats0" "length ps < 2 ^ 30" "finalize h = Some h'"
  shows "1 \<le> res_MOS (c_result h') \<and> res_MOS (c_result h') \<le> 5
    \<and> 0 \<le> res_PacketLossPct (c_result h') \<and> res_PacketLossPct (c_result h') \<le> 100 \<and> 0 \<le> res_Jitter (c_result h')
    \<and> res_PacketsSent (c_result h') = PacketsSent (c_sendStats h)
    \<and> (res_IVRValid (c_result h') \<longleftrightarrow> (\<exists>c. c_dtmfColl h = Some c \<and> subseq (c_IVRExpect h) (digits c)))"
proof -
  let ?s = "stats_run ps rtp_stats0"
  have inv: "stats_inv ?s" by (intro inv_intros)
  have "PacketsReceived ?s + PacketsLost ?s < 2 ^ 46"
    using stats_run_total [of ps rtp_stats0] assms(2) by (simp add: rtp_stats0_def)
  note loss = lossPercent_range [OF inv this]
  have r: "c_result h' = final_result h" using finalize_result [OF assms(3)] by simp
  have "1 \<le> CalculateMOS l j \<and> CalculateMOS l j \<le> 5" for l j
    unfolding CalculateMOS_def by (rule mos_round_range) simp_all
  moreover have "MatchesExpected ds c \<longleftrightarrow> subseq ds (digits c)" for ds c
    using match_loop_subseq [of 0 ds "digits c"] by (auto simp: MatchesExpected_def)
  ultimately show ?thesis
    using loss inv assms(1) by (auto simp: r final_result_def Snapshot_def stats_inv_def split: option.splits)
qed

theorem final_result_figures_witness:
  "\<exists>h'. finalize sample_call = Some h' \<and> 1 \<le> res_MOS (c_result h') \<and> res_MOS (c_result h') \<le> 5"
proof -
  obtain h' where h': "finalize sample_call = Some h'" by (simp add: finalize_def sample_call_def)
  have "c_recvStats sample_call = stats_run [] rtp_stats0" by (simp add: sample_call_def)
  from final_result_figures [OF this _ h'] h' show ?thesis by simp
qed

section \<open>Calls that were cancelled\<close>

text \<open>What \<open>Dial\<close> returns for a call that was cancelled while it rang: a handle without a dialog.\<close>

definition cancelled_call :: "call \<Rightarrow> call" where
  "cancelled_call h = h\<lparr>c_dialog := None, c_active := False, c_onHold := False, c_done := True, c_result := call_result0\<rparr>"

text \<open>On the handle of a cancelled call every operation reports that the call is not active, changes
  nothing and sends nothing, and the readers of headers and tags return empty strings; only
  \<open>RemoteContactURI\<close> dereferences the missing dialog and panics.\<close>
theorem cancelled_call_operations:
  "run_call marshal ops (cancelled_call h) = Some (cancelled_call h)
    \<and> Hold a k (cancelled_call h) = Some (Some NotActive, cancelled_call h)
    \<and> Unhold a k (cancelled_call h) = Some (Some NotActive, cancelled_call h)
    \<and> BlindTransfer target a (cancelled_call h) = Some (Some NotActive, cancelled_call h)
    \<and> AttendedTransfer a c (cancelled_call h) = Some ((Some NotActive, cancelled_call h), False)
    \<and> SendInfo b ct a (cancelled_call h) = Some (Some NotActive, cancelled_call h)
    \<and> CallID (cancelled_call h) = [] \<and> FromTag (cancelled_call h) = [] \<and> ToTag (cancelled_call h) = []
    \<and> ResponseHeader n (cancelled_call h) = [] \<and> RequestHeader n (cancelled_call h) = []
    \<and> ResponseBody (cancelled_call h) = [] \<and> RemoteContactURI uri_String (cancelled_call h) = None"
proof -
  let ?h = "cancelled_call h"
  have a: "\<not> c_active ?h" "c_dialog ?h = None" by (simp_all add: cancelled_call_def)
  have "call_step marshal op ?h = Some ?h" for op
    by (cases op) (simp_all add: a call_step_def call_ops)
  then have "run_call marshal ops ?h = Some ?h" by (induction ops) simp_all
  then show ?thesis
    using a by (simp add: call_ops CallID_def FromTag_def ToTag_def ResponseHeader_def RequestHeader_def
        ResponseBody_def RemoteContactURI_def remoteContact_def)
qed

end
