(* ===== verification/Call_Threads.thy ===== *)
theory Call_Threads
  imports Steps
begin

text \<open>
  The goroutines around one call (\<open>sip/handle.go\<close>, the media goroutines and the auto-hangup of
  \<open>sip/dial.go\<close>, the BYE handler of \<open>sip/client.go\<close>): any number of callers of \<open>Hangup\<close>, the receive,
  echo and RTCP loops that run until \<open>stop\<close> is closed, the stream players that also end by
  themselves, the finalizer, and BYEs of the peer, all interleaved. One step is what a goroutine
  does under the mutex or between two synchronisations. Shown: one BYE and no double close in every
  interleaving, completion of every \<open>Hangup\<close>, and that a BYE of the peer ends nothing.
\<close>

section \<open>States and steps\<close>

text \<open>Where a caller of \<open>Hangup\<close> is: before the check, before the \<open>select\<close>, before \<open>close(stop)\<close>, before
  the BYE, at the wait for \<open>done\<close>, returned.\<close>

datatype hangup_pc = HStart | HSelect | HClose | HBye | HWait | HReturned

record call_threads =
  t_active :: bool
  t_stop :: bool
  t_done :: bool
  t_panic :: bool
  t_byes :: nat
  t_answered :: nat
  t_loops :: nat
  t_players :: nat
  t_callers :: "hangup_pc list"

definition set_pc :: "nat \<Rightarrow> hangup_pc \<Rightarrow> call_threads \<Rightarrow> call_threads" where
  "set_pc i pc s = s\<lparr>t_callers := (t_callers s)[i := pc]\<rparr>"

definition at_pc :: "hangup_pc \<Rightarrow> nat \<Rightarrow> call_threads \<Rightarrow> bool" where
  "at_pc pc i s \<longleftrightarrow> i < length (t_callers s) \<and> t_callers s ! i = pc"

inductive thread_step :: "call_threads \<Rightarrow> call_threads \<Rightarrow> bool" where
  enter_active: "at_pc HStart i s \<Longrightarrow> t_active s \<Longrightarrow> thread_step s (set_pc i HSelect (s\<lparr>t_active := False\<rparr>))"
| enter_inactive: "at_pc HStart i s \<Longrightarrow> \<not> t_active s \<Longrightarrow> thread_step s (set_pc i HWait s)"
| select_closed: "at_pc HSelect i s \<Longrightarrow> t_stop s \<Longrightarrow> thread_step s (set_pc i HBye s)"
| select_open: "at_pc HSelect i s \<Longrightarrow> \<not> t_stop s \<Longrightarrow> thread_step s (set_pc i HClose s)"
| close_stop: "at_pc HClose i s \<Longrightarrow>
    thread_step s (if t_stop s then s\<lparr>t_panic := True\<rparr> else set_pc i HBye (s\<lparr>t_stop := True\<rparr>))"
| send_bye: "at_pc HBye i s \<Longrightarrow> thread_step s (set_pc i HWait (s\<lparr>t_byes := t_byes s + 1\<rparr>))"
| wait_done: "at_pc HWait i s \<Longrightarrow> t_done s \<Longrightarrow> thread_step s (set_pc i HReturned s)"
| loop_exit: "t_stop s \<Longrightarrow> 0 < t_loops s \<Longrightarrow> thread_step s (s\<lparr>t_loops := t_loops s - 1\<rparr>)"
| player_exit: "0 < t_players s \<Longrightarrow> thread_step s (s\<lparr>t_players := t_players s - 1\<rparr>)"
| finalizer: "t_loops s = 0 \<Longrightarrow> t_players s = 0 \<Longrightarrow> \<not> t_done s \<Longrightarrow> thread_step s (s\<lparr>t_done := True\<rparr>)"

text \<open>The peer's BYE: the handler answers 200 and does nothing else.\<close>

inductive bye_step :: "call_threads \<Rightarrow> call_threads \<Rightarrow> bool" where
  peer_bye: "bye_step s (s\<lparr>t_answered := t_answered s + 1\<rparr>)"

inductive_cases thread_stepE: "thread_step s s'"
inductive_cases bye_stepE: "bye_step s s'"

definition call_threads0 :: "nat \<Rightarrow> nat \<Rightarrow> nat \<Rightarrow> call_threads" where
  "call_threads0 callers loops players = \<lparr>t_active = True, t_stop = False, t_done = False, t_panic = False,
     t_byes = 0, t_answered = 0, t_loops = loops, t_players = players, t_callers = replicate callers HStart\<rparr>"

definition reaches :: "call_threads \<Rightarrow> call_threads \<Rightarrow> bool" where
  "reaches = (\<lambda>s s'. thread_step s s' \<or> bye_step s s')\<^sup>*\<^sup>*"

section \<open>The invariant\<close>

definition pcs :: "hangup_pc set \<Rightarrow> call_threads \<Rightarrow> nat" where
  "pcs A s = length (filter (\<lambda>pc. pc \<in> A) (t_callers s))"

lemma pcs_move: "at_pc pc i s \<Longrightarrow> pcs A (set_pc i pc' s) + one (pc \<in> A) = pcs A s + one (pc' \<in> A)"
  using length_filter_update [of i "t_callers s" "\<lambda>x. x \<in> A" pc'] by (simp add: at_pc_def pcs_def set_pc_def)

lemma set_pc_fields [simp]:
  "t_active (set_pc i pc s) = t_active s" "t_stop (set_pc i pc s) = t_stop s" "t_done (set_pc i pc s) = t_done s"
  "t_panic (set_pc i pc s) = t_panic s" "t_byes (set_pc i pc s) = t_byes s" "t_loops (set_pc i pc s) = t_loops s"
  "t_players (set_pc i pc s) = t_players s" "t_answered (set_pc i pc s) = t_answered s"
  "length (t_callers (set_pc i pc s)) = length (t_callers s)"
  by (simp_all add: set_pc_def)

lemma pcs_fields [simp]:
  "pcs A (s\<lparr>t_active := a\<rparr>) = pcs A s" "pcs A (s\<lparr>t_stop := a\<rparr>) = pcs A s" "pcs A (s\<lparr>t_done := a\<rparr>) = pcs A s"
  "pcs A (s\<lparr>t_panic := a\<rparr>) = pcs A s" "pcs A (s\<lparr>t_byes := n\<rparr>) = pcs A s" "pcs A (s\<lparr>t_loops := n\<rparr>) = pcs A s"
  "pcs A (s\<lparr>t_players := n\<rparr>) = pcs A s" "pcs A (s\<lparr>t_answered := n\<rparr>) = pcs A s"
  by (simp_all add: pcs_def)

lemma set_pc_commute [simp]:
  "set_pc i pc (s\<lparr>t_active := a\<rparr>) = (set_pc i pc s)\<lparr>t_active := a\<rparr>"
  "set_pc i pc (s\<lparr>t_stop := a\<rparr>) = (set_pc i pc s)\<lparr>t_stop := a\<rparr>"
  "set_pc i pc (s\<lparr>t_byes := n\<rparr>) = (set_pc i pc s)\<lparr>t_byes := n\<rparr>"
  by (simp_all add: set_pc_def)

lemma at_pc_pcs: "at_pc pc i s \<Longrightarrow> pc \<in> A \<Longrightarrow> 0 < pcs A s"
  by (auto simp: at_pc_def pcs_def length_greater_0_conv filter_empty_conv)

text \<open>
  Exactly one of: the call is active, one caller is on its way to close \<open>stop\<close>, \<open>stop\<close> is closed.
  Exactly one of: active, one caller is on its way to the BYE, the BYE is sent. While \<open>stop\<close> is open
  the loops run, so nothing is finalized; while the call is active nobody is past the check, and
  nobody has returned before the finalization.
\<close>

definition threads_inv :: "call_threads \<Rightarrow> bool" where
  "threads_inv s \<longleftrightarrow> one (t_active s) + pcs {HSelect, HClose} s + one (t_stop s) = 1
     \<and> one (t_active s) + pcs {HSelect, HClose, HBye} s + t_byes s = 1
     \<and> (\<not> t_stop s \<longrightarrow> 0 < t_loops s) \<and> (t_done s \<longrightarrow> t_loops s = 0) \<and> \<not> t_panic s
     \<and> (t_active s \<longrightarrow> pcs {HWait, HReturned} s = 0) \<and> (0 < pcs {HReturned} s \<longrightarrow> t_done s)"

lemma threads_inv_start: "0 < loops \<Longrightarrow> threads_inv (call_threads0 callers loops players)"
  by (simp add: threads_inv_def call_threads0_def pcs_def)

lemma threads_inv_move:
  assumes "at_pc pc i s"
  shows "pcs {HSelect, HClose} (set_pc i pc' s) + one (pc \<in> {HSelect, HClose}) = pcs {HSelect, HClose} s + one (pc' \<in> {HSelect, HClose})
    \<and> pcs {HSelect, HClose, HBye} (set_pc i pc' s) + one (pc \<in> {HSelect, HClose, HBye})
      = pcs {HSelect, HClose, HBye} s + one (pc' \<in> {HSelect, HClose, HBye})
    \<and> pcs {HWait, HReturned} (set_pc i pc' s) + one (pc \<in> {HWait, HReturned}) = pcs {HWait, HReturned} s + one (pc' \<in> {HWait, HReturned})
    \<and> pcs {HReturned} (set_pc i pc' s) + one (pc \<in> {HReturned}) = pcs {HReturned} s + one (pc' \<in> {HReturned})"
  using pcs_move [OF assms] by blast

lemma threads_inv_step: "thread_step s s' \<Longrightarrow> threads_inv s \<Longrightarrow> threads_inv s'"
proof (induction rule: thread_step.induct)
  case (enter_active i s)
  with threads_inv_move [OF enter_active(1), of HSelect] show ?case by (auto simp: threads_inv_def)
next
  case (enter_inactive i s)
  with threads_inv_move [OF enter_inactive(1), of HWait] show ?case by (auto simp: threads_inv_def)
next
  case (select_closed i s)
  with threads_inv_move [OF select_closed(1), of HBye] at_pc_pcs [OF select_closed(1), of "{HSelect, HClose}"]
  show ?case by (auto simp: threads_inv_def)
next
  case (select_open i s)
  with threads_inv_move [OF select_open(1), of HClose] show ?case by (auto simp: threads_inv_def)
next
  case (close_stop i s)
  with threads_inv_move [OF close_stop(1), of HBye] at_pc_pcs [OF close_stop(1), of "{HSelect, HClose}"]
  show ?case by (auto simp: threads_inv_def)
next
  case (send_bye i s)
  with threads_inv_move [OF send_bye(1), of HWait] at_pc_pcs [OF send_bye(1), of "{HSelect, HClose, HBye}"] show ?case by (auto simp: threads_inv_def)
next
  case (wait_done i s)
  with threads_inv_move [OF wait_done(1), of HReturned] at_pc_pcs [OF wait_done(1), of "{HWait, HReturned}"] show ?case by (auto simp: threads_inv_def)
qed (auto simp: threads_inv_def)

lemma threads_inv_bye: "bye_step s s' \<Longrightarrow> threads_inv s \<Longrightarrow> threads_inv s'"
  by (erule bye_stepE) (simp add: threads_inv_def)

interpretation call_life: invariant_steps "\<lambda>s s'. thread_step s s' \<or> bye_step s s'" threads_inv
  by unfold_locales (blast intro: threads_inv_step threads_inv_bye)

lemma threads_inv_reaches: "reaches s s' \<Longrightarrow> threads_inv s \<Longrightarrow> threads_inv s'"
  unfolding reaches_def by (rule call_life.reached)

lemma callers_step: "thread_step s s' \<Longrightarrow> length (t_callers s') = length (t_callers s)"
  by (erule thread_step.cases) auto

lemma callers_steps: "thread_step\<^sup>*\<^sup>* s s' \<Longrightarrow> length (t_callers s') = length (t_callers s)"
  by (induction rule: rtranclp_induct) (auto dest: callers_step)

lemma callers_reaches: "reaches s s' \<Longrightarrow> length (t_callers s') = length (t_callers s)"
  unfolding reaches_def
proof (induction rule: rtranclp_induct)
  case (step s1 s2)
  then show ?case using callers_step [of s1 s2] by (auto elim: bye_stepE)
qed simp

section \<open>Completion\<close>

text \<open>Every step of the program uses up part of this measure.\<close>

fun pc_left :: "hangup_pc \<Rightarrow> nat" where
  "pc_left HStart = 5" | "pc_left HSelect = 4" | "pc_left HClose = 3" | "pc_left HBye = 2"
| "pc_left HWait = 1" | "pc_left HReturned = 0"

definition work :: "call_threads \<Rightarrow> nat" where
  "work s = sum_list (map pc_left (t_callers s)) + t_loops s + t_players s + one (\<not> t_done s)"

lemma work_bound: "work s \<le> 5 * length (t_callers s) + t_loops s + t_players s + 1"
proof -
  have "pc_left pc \<le> 5" for pc by (cases pc) auto
  then have "sum_list (map pc_left (t_callers s)) \<le> sum_list (map (\<lambda>_. 5) (t_callers s))"
    by (intro sum_list_mono) simp
  then show ?thesis by (simp add: work_def sum_list_triv mult.commute one_def)
qed

lemma work_move: "at_pc pc i s \<Longrightarrow> work (set_pc i pc' s) + pc_left pc = work s + pc_left pc'"
  using sum_list_update [of i "t_callers s" pc_left pc'] by (simp add: at_pc_def work_def set_pc_def)

lemma work_fields [simp]: "work (s\<lparr>t_active := a\<rparr>) = work s" "work (s\<lparr>t_stop := a\<rparr>) = work s" "work (s\<lparr>t_byes := n\<rparr>) = work s"
  by (simp_all add: work_def)

lemma work_step:
  assumes "thread_step s s'" "threads_inv s"
  shows "work s' < work s"
  using assms
proof (induction rule: thread_step.induct)
  case (enter_active i s)
  with work_move [OF enter_active(1), of HSelect] show ?case by simp
next
  case (enter_inactive i s)
  with work_move [OF enter_inactive(1), of HWait] show ?case by simp
next
  case (select_closed i s)
  with work_move [OF select_closed(1), of HBye] show ?case by simp
next
  case (select_open i s)
  with work_move [OF select_open(1), of HClose] show ?case by simp
next
  case (close_stop i s)
  with work_move [OF close_stop(1), of HBye] at_pc_pcs [OF close_stop(1), of "{HSelect, HClose}"]
  show ?case by (auto simp: threads_inv_def)
next
  case (send_bye i s)
  with work_move [OF send_bye(1), of HWait] show ?case by simp
next
  case (wait_done i s)
  with work_move [OF wait_done(1), of HReturned] show ?case by simp
qed (simp_all add: work_def)

interpretation call_end: terminating_steps thread_step threads_inv work
  by unfold_locales (auto intro: threads_inv_step work_step)

lemma step_of_caller:
  assumes "at_pc pc i s" "pc \<noteq> HReturned" "pc = HWait \<longrightarrow> t_done s"
  shows "\<exists>s'. thread_step s s'"
proof (cases pc)
  case HClose
  with assms(1) show ?thesis using close_stop by blast
next
  case HStart
  with assms(1) show ?thesis using enter_active [of i s] enter_inactive [of i s] by blast
next
  case HSelect
  with assms(1) show ?thesis using select_closed [of i s] select_open [of i s] by blast
qed (use assms in \<open>auto intro: thread_step.intros\<close>)

text \<open>A state where nothing can move: everybody has returned, or nobody ever called.\<close>

lemma stuck_state:
  assumes "threads_inv s" "\<not> (\<exists>s'. thread_step s s')" "t_callers s \<noteq> [] \<or> \<not> t_active s"
  shows "t_done s \<and> t_stop s \<and> (\<forall>i < length (t_callers s). t_callers s ! i = HReturned)"
proof -
  have waiting: "t_callers s ! i \<in> {HWait, HReturned}" if "i < length (t_callers s)" for i
    using step_of_caller [of "t_callers s ! i" i s] that assms(2) by (auto simp: at_pc_def)
  then have no: "pcs {HSelect, HClose, HBye} s = 0" "pcs {HSelect, HClose} s = 0"
    by (auto simp: pcs_def filter_empty_conv in_set_conv_nth; fastforce)+
  have "\<not> t_active s"
  proof
    assume a: "t_active s"
    with assms(1,3) have "pcs {HWait, HReturned} s = 0" "t_callers s \<noteq> []" by (simp_all add: threads_inv_def)
    with waiting [of 0] show False by (cases "t_callers s") (auto simp: pcs_def)
  qed
  with assms(1) no have stop: "t_stop s" by (cases "t_stop s") (simp_all add: threads_inv_def)
  have "t_loops s = 0" "t_players s = 0" using stop assms(2) loop_exit player_exit by blast+
  then have "t_done s" using assms(2) finalizer by blast
  moreover have "t_callers s ! i = HReturned" if i: "i < length (t_callers s)" for i
    using waiting [OF i] wait_done [of i s] \<open>t_done s\<close> assms(2) i by (auto simp: at_pc_def)
  ultimately show ?thesis using stop by blast
qed

section \<open>Properties\<close>

text \<open>C2: However many goroutines call \<open>Hangup\<close> on a call, from the script, the auto-hangup or a transfer, and
  however their steps interleave with the media loops, the finalizer and BYEs of the peer: at most
  one BYE is sent, \<open>stop\<close> is closed at most once (no panic), the result is finalized only after \<open>stop\<close>
  is closed, and nobody returns from \<open>Hangup\<close> before the result is final.\<close>
theorem hangup_once:
  assumes "reaches (call_threads0 callers loops players) s" "0 < loops"
  shows "t_byes s \<le> 1 \<and> \<not> t_panic s \<and> (t_active s \<longrightarrow> t_byes s = 0) \<and> (t_done s \<longrightarrow> t_stop s \<and> \<not> t_active s)
    \<and> (HReturned \<in> set (t_callers s) \<longrightarrow> t_done s)"
proof -
  have inv: "threads_inv s" using threads_inv_reaches [OF assms(1) threads_inv_start [OF assms(2)]] .
  have "0 < pcs {HReturned} s" if "HReturned \<in> set (t_callers s)"
    using that by (auto simp: pcs_def filter_empty_conv)
  with inv show ?thesis
    by (cases "t_active s"; cases "t_stop s") (auto simp: threads_inv_def)
qed

text \<open>C11: Every \<open>Hangup\<close> completes: from every reachable state the goroutines of the call can take only
  so many more steps, and when they can take none, which a run of them reaches, the stop channel
  is closed, the result is final and every caller has returned.\<close>
theorem hangup_completes:
  assumes "reaches (call_threads0 callers loops players) s" "0 < loops" "0 < callers"
  shows "(\<forall>n s'. (thread_step ^^ n) s s' \<longrightarrow> n \<le> 5 * callers + t_loops s + t_players s + 1)
    \<and> (\<forall>s'. thread_step\<^sup>*\<^sup>* s s' \<longrightarrow> (\<nexists>s''. thread_step s' s'') \<longrightarrow>
         t_done s' \<and> t_stop s' \<and> (\<forall>pc \<in> set (t_callers s'). pc = HReturned))
    \<and> (\<exists>s'. thread_step\<^sup>*\<^sup>* s s' \<and> (\<nexists>s''. thread_step s' s''))"
proof -
  have inv: "threads_inv s" using threads_inv_reaches [OF assms(1) threads_inv_start [OF assms(2)]] .
  have n: "length (t_callers s) = callers" using callers_reaches [OF assms(1)] by (simp add: call_threads0_def)
  have bound: "n \<le> 5 * callers + t_loops s + t_players s + 1" if "(thread_step ^^ n) s s'" for n s'
    using call_end.run_bounded [OF that inv] work_bound [of s] n by simp
  have end_state: "t_done s' \<and> t_stop s' \<and> (\<forall>pc \<in> set (t_callers s'). pc = HReturned)"
    if "thread_step\<^sup>*\<^sup>* s s'" "\<nexists>s''. thread_step s' s''" for s'
  proof -
    have "length (t_callers s') = callers" using callers_steps [OF that(1)] n by simp
    with assms(3) have "t_callers s' \<noteq> []" by auto
    with stuck_state [OF call_end.reached [OF that(1) inv] that(2)] show ?thesis by (auto simp: in_set_conv_nth)
  qed
  have "\<exists>s'. thread_step\<^sup>*\<^sup>* s s' \<and> (\<nexists>s''. thread_step s' s'')"
    using call_end.ends.drains [OF inv] by blast
  with bound end_state show ?thesis by blast
qed

text \<open>C34: A BYE of the peer ends nothing. If nobody calls \<open>Hangup\<close> (the configuration has no duration and the
  script waits), then after any steps and any number of answered BYEs the call is still active,
  its loops run on and its result is never final: \<open>WaitDone\<close> and \<open>Result\<close> block for ever.\<close>
theorem peer_bye_ignored:
  assumes "reaches (call_threads0 0 loops players) s" "0 < loops"
  shows "t_active s \<and> \<not> t_stop s \<and> \<not> t_done s \<and> t_loops s = loops"
proof -
  let ?P = "\<lambda>s. t_active s \<and> \<not> t_stop s \<and> \<not> t_done s \<and> t_loops s = loops \<and> t_callers s = []"
  have t: "thread_step s1 s2 \<Longrightarrow> ?P s1 \<Longrightarrow> ?P s2" for s1 s2
    by (induction rule: thread_step.induct) (use assms(2) in \<open>simp_all add: at_pc_def\<close>)
  have "?P s"
    using assms(1) unfolding reaches_def
  proof (induction rule: rtranclp_induct)
    case base
    show ?case by (simp add: call_threads0_def)
  next
    case (step s1 s2)
    with t [of s1 s2] show ?case by (auto elim: bye_stepE)
  qed
  then show ?thesis by simp
qed

section \<open>Witnesses\<close>

lemma reaches_refl: "reaches s s"
  by (simp add: reaches_def)

lemma reaches_bye: "reaches s (s\<lparr>t_answered := t_answered s + 1\<rparr>)"
  unfolding reaches_def by (rule r_into_rtranclp, rule disjI2, rule peer_bye)

lemma reaches_step: "thread_step s s' \<Longrightarrow> reaches s s'"
  unfolding reaches_def by (rule r_into_rtranclp) simp

theorem hangup_once_witness:
  "\<exists>s. reaches (call_threads0 2 1 1) s \<and> \<not> t_active s \<and> t_byes s \<le> 1 \<and> \<not> t_panic s"
proof -
  let ?s = "set_pc 1 HSelect ((call_threads0 2 1 1)\<lparr>t_active := False\<rparr>)"
  have "at_pc HStart 1 (call_threads0 2 1 1)" by (simp add: at_pc_def call_threads0_def)
  from enter_active [OF this] have r: "reaches (call_threads0 2 1 1) ?s"
    by (intro reaches_step) (simp add: call_threads0_def)
  from hangup_once [OF this] r show ?thesis by (intro exI [of _ ?s]) simp
qed

theorem hangup_completes_witness: "\<exists>s. thread_step\<^sup>*\<^sup>* (call_threads0 2 1 1) s \<and> t_done s \<and> t_stop s
    \<and> (\<forall>pc \<in> set (t_callers s). pc = HReturned)"
  using hangup_completes [OF reaches_refl, of 1 2 1] by auto

theorem peer_bye_ignored_witness:
  "\<exists>s. t_answered s = 1 \<and> reaches (call_threads0 0 1 1) s \<and> t_active s \<and> \<not> t_done s"
  using peer_bye_ignored [OF reaches_bye, of 1 1] reaches_bye [of "call_threads0 0 1 1"]
  by (intro exI [of _ "(call_threads0 0 1 1)\<lparr>t_answered := 1\<rparr>"]) (simp add: call_threads0_def)

end
