(* ===== verification/Hangup_Order.thy ===== *)
theory Hangup_Order
  imports Call_Threads
begin

text \<open>
  The points of a caller of \<open>Hangup\<close> (\<open>sip/handle.go\<close>) in the order in which it passes them, and what follows
  for a call: its goroutines only move forward, so that what one of them has seen (the call
  inactive, \<open>stop\<close> or \<open>done\<close> closed) stays true for it.
\<close>

lemma pc_left_inj: "pc_left a = pc_left b \<longleftrightarrow> a = b"
  by (cases a; cases b) simp_all

instantiation hangup_pc :: linorder
begin

definition less_eq_hangup_pc :: "hangup_pc \<Rightarrow> hangup_pc \<Rightarrow> bool" where
  "a \<le> b \<longleftrightarrow> pc_left b \<le> pc_left a"

definition less_hangup_pc :: "hangup_pc \<Rightarrow> hangup_pc \<Rightarrow> bool" where
  "a < b \<longleftrightarrow> pc_left b < pc_left a"

instance
  by intro_classes (auto simp: less_eq_hangup_pc_def less_hangup_pc_def pc_left_inj [symmetric])

end

text \<open>One call state is not before another.\<close>

definition later :: "call_threads \<Rightarrow> call_threads \<Rightarrow> bool" where
  "later s s' \<longleftrightarrow> list_all2 (\<le>) (t_callers s) (t_callers s') \<and> (\<not> t_active s \<longrightarrow> \<not> t_active s') \<and> (t_stop s \<longrightarrow> t_stop s')
     \<and> (t_done s \<longrightarrow> t_done s') \<and> t_byes s \<le> t_byes s' \<and> t_loops s' \<le> t_loops s \<and> t_players s' \<le> t_players s
     \<and> t_answered s \<le> t_answered s'"

lemma later_refl [intro]: "later s s"
  by (simp add: later_def list_all2_same)

lemma later_trans [trans]: "later s s1 \<Longrightarrow> later s1 s2 \<Longrightarrow> later s s2"
proof -
  assume a: "later s s1" "later s1 s2"
  then have "list_all2 (\<le>) (t_callers s) (t_callers s1)" "list_all2 (\<le>) (t_callers s1) (t_callers s2)"
    unfolding later_def by blast+
  then have "list_all2 (\<le>) (t_callers s) (t_callers s2)" by (rule list_all2_trans [rotated]) (rule order.trans)
  with a show ?thesis by (simp add: later_def)
qed

lemma set_pc_later:
  assumes "at_pc pc i s" "pc \<le> pc'"
  shows "list_all2 (\<le>) (t_callers s) (t_callers (set_pc i pc' s))"
  using assms by (auto simp: at_pc_def set_pc_def list_all2_conv_all_nth nth_list_update)

lemma later_step: "thread_step s s' \<Longrightarrow> later s s'"
  by (erule thread_step.cases)
    (auto simp: later_def list_all2_same less_eq_hangup_pc_def intro!: set_pc_later)

text \<open>
  In every interleaving of callers, media loops, finalizer and BYEs of the peer: no caller goes back, an
  ended call stays ended, closed channels stay closed and the counters only grow. Between two
  states that reach each other nothing has happened.
\<close>
theorem call_moves_forward:
  assumes "reaches s s'"
  shows "later s s' \<and> (reaches s' s \<longrightarrow> t_callers s' = t_callers s \<and> t_active s' = t_active s \<and> t_stop s' = t_stop s
    \<and> t_done s' = t_done s \<and> t_byes s' = t_byes s \<and> t_answered s' = t_answered s)"
proof -
  have later: "later a b" if "reaches a b" for a b
    using that unfolding reaches_def
  proof (induction rule: rtranclp_induct)
    case (step b c)
    moreover have "later b c" using step(2)
      by (auto dest: later_step elim!: bye_stepE simp: later_def list_all2_same)
    ultimately show ?case by (blast intro: later_trans)
  qed blast
  have same: "t_callers s' = t_callers s \<and> t_active s' = t_active s \<and> t_stop s' = t_stop s
    \<and> t_done s' = t_done s \<and> t_byes s' = t_byes s \<and> t_answered s' = t_answered s" if both: "later s s'" "later s' s"
  proof -
    have "list_all2 (\<le>) (t_callers s') (t_callers s)" "list_all2 (\<le>) (t_callers s) (t_callers s')"
      using both by (simp_all add: later_def)
    then have "t_callers s' = t_callers s" by (rule list_all2_antisym [rotated]) (rule order.antisym)
    with both show ?thesis unfolding later_def by linarith
  qed
  from later [OF assms] later [of s' s] same show ?thesis by blast
qed

theorem call_moves_forward_witness:
  "later (call_threads0 1 1 0) ((call_threads0 1 1 0)\<lparr>t_answered := 1\<rparr>)"
proof -
  have "bye_step (call_threads0 1 1 0) ((call_threads0 1 1 0)\<lparr>t_answered := t_answered (call_threads0 1 1 0) + 1\<rparr>)"
    by (rule peer_bye)
  then have "reaches (call_threads0 1 1 0) ((call_threads0 1 1 0)\<lparr>t_answered := 1\<rparr>)"
    unfolding reaches_def by (auto simp: call_threads0_def)
  from call_moves_forward [OF this] show ?thesis by blast
qed

end
