(* ===== verification/Dtmf_Sequence.thy ===== *)
theory Dtmf_Sequence
  imports Dtmf Steps
begin

text \<open>
  The DTMF sequence of a call (step 20 of \<open>Dial\<close>, \<open>sip/dial.go\<close>): a goroutine that waits for an initial
  delay, sends the configured digits with a gap between them and gives up when the call ends. It
  runs beside the audio sender, which draws numbers from the same RTP session, and beside
  \<open>Hangup\<close>, which first clears \<open>active\<close> and then closes \<open>stop\<close>.
\<close>

section \<open>The goroutine\<close>

text \<open>Unset delays are two seconds, in nanoseconds.\<close>

definition dtmf_delay :: "int \<Rightarrow> int" where
  "dtmf_delay d = (if d = 0 then 2000000000 else d)"

text \<open>Waiting in the \<open>select\<close> before digit \<open>i\<close>, in \<open>SendDTMF\<close> of digit \<open>i\<close> before its check, after the
  digit, returned.\<close>

datatype seq_pc = SWait nat | SSend nat | SSent nat | SOver

text \<open>\<open>ds_due\<close> is when the timer of the current \<open>select\<close> fires. \<open>ds_begun\<close> records when each digit that
  passed the check was begun, \<open>ds_packets\<close> what \<open>SendDTMF\<close> put on the wire.\<close>

record dtmf_seq =
  ds_pc :: seq_pc
  ds_now :: int
  ds_due :: int
  ds_active :: bool
  ds_stop :: bool
  ds_sess :: rtp_session
  ds_begun :: "(int \<times> string) list"
  ds_packets :: "rtp_packet list"

definition dtmf_seq_start :: "int \<Rightarrow> int \<Rightarrow> rtp_session \<Rightarrow> dtmf_seq" where
  "dtmf_seq_start initialDelay now sess =
     \<lparr>ds_pc = SWait 0, ds_now = now, ds_due = now + dtmf_delay initialDelay, ds_active = True, ds_stop = False,
      ds_sess = sess, ds_begun = [], ds_packets = []\<rparr>"

text \<open>When timer and stop signal are both ready, \<open>select\<close> takes either. \<open>SendDTMF\<close> is one step; the time it
  takes passes before \<open>seq_next\<close>.\<close>

inductive seq_step :: "string list \<Rightarrow> int \<Rightarrow> dtmf_seq \<Rightarrow> dtmf_seq \<Rightarrow> bool" for sequence interDigitGap where
  seq_timer: "ds_pc s = SWait i \<Longrightarrow> ds_due s \<le> ds_now s \<Longrightarrow> seq_step sequence interDigitGap s (s\<lparr>ds_pc := SSend i\<rparr>)"
| seq_stopped: "ds_pc s = SWait i \<Longrightarrow> ds_stop s \<Longrightarrow> seq_step sequence interDigitGap s (s\<lparr>ds_pc := SOver\<rparr>)"
| seq_skip: "ds_pc s = SSend i \<Longrightarrow> \<not> ds_active s \<Longrightarrow> seq_step sequence interDigitGap s (s\<lparr>ds_pc := SSent i\<rparr>)"
| seq_send: "ds_pc s = SSend i \<Longrightarrow> ds_active s \<Longrightarrow> dtmf_packets (sequence ! i) (ds_sess s) = (pkts, sess) \<Longrightarrow>
    seq_step sequence interDigitGap s (s\<lparr>ds_pc := SSent i, ds_sess := sess,
      ds_begun := ds_begun s @ [(ds_now s, sequence ! i)], ds_packets := ds_packets s @ pkts\<rparr>)"
| seq_next: "ds_pc s = SSent i \<Longrightarrow> Suc i < length sequence \<Longrightarrow>
    seq_step sequence interDigitGap s (s\<lparr>ds_pc := SWait (Suc i), ds_due := ds_now s + dtmf_delay interDigitGap\<rparr>)"
| seq_last: "ds_pc s = SSent i \<Longrightarrow> \<not> Suc i < length sequence \<Longrightarrow> seq_step sequence interDigitGap s (s\<lparr>ds_pc := SOver\<rparr>)"
| seq_time: "0 \<le> d \<Longrightarrow> seq_step sequence interDigitGap s (s\<lparr>ds_now := ds_now s + d\<rparr>)"
| seq_audio: "seq_step sequence interDigitGap s (s\<lparr>ds_sess := snd (NextSeqTS inc (ds_sess s))\<rparr>)"
| seq_inactive: "seq_step sequence interDigitGap s (s\<lparr>ds_active := False\<rparr>)"
| seq_stop: "\<not> ds_active s \<Longrightarrow> seq_step sequence interDigitGap s (s\<lparr>ds_stop := True\<rparr>)"

inductive_cases seq_stepE: "seq_step sequence interDigitGap s s'"

section \<open>What a receiver reads in the packets\<close>

fun end_events :: "rtp_packet list \<Rightarrow> string list" where
  "end_events [] = []"
| "end_events (p # ps) = (case decodeDTMFEvent (Payload p) of
     Some (d, True) \<Rightarrow> d # end_events ps | _ \<Rightarrow> end_events ps)"

lemma end_events_append: "end_events (ps @ qs) = end_events ps @ end_events qs"
  by (induction ps) (auto split: option.split bool.split)

lemma end_events_series:
  "map (decodeDTMFEvent \<circ> Payload) ps = replicate n (Some (d, False)) @ [Some (d, True)] \<Longrightarrow> end_events ps = [d]"
proof (induction n arbitrary: ps)
  case 0
  then show ?case by (auto simp: map_eq_Cons_conv)
next
  case (Suc n)
  then show ?case by (auto simp: map_eq_Cons_conv)
qed

lemma end_events_digit: "end_events (fst (dtmf_packets d s)) = filter (\<lambda>d. digitCode d \<noteq> None) [d]"
proof (cases "digitCode d")
  case None
  then show ?thesis by (simp add: dtmf_packets_unknown)
next
  case (Some c)
  have "map (decodeDTMFEvent \<circ> Payload) (fst (dtmf_packets d s)) = replicate 5 (Some (d, False)) @ [Some (d, True)]"
    using dtmf_packet_series [OF Some, of s] by blast
  from end_events_series [OF this] Some show ?thesis by simp
qed

section \<open>The invariant\<close>

text \<open>How many digits have been dealt with, and whether the one in turn has.\<close>

fun seq_count :: "nat \<Rightarrow> seq_pc \<Rightarrow> nat" where
  "seq_count n (SWait i) = i" | "seq_count n (SSend i) = i" | "seq_count n (SSent i) = Suc i" | "seq_count n SOver = n"

definition seq_inv :: "string list \<Rightarrow> int \<Rightarrow> int \<Rightarrow> dtmf_seq \<Rightarrow> bool" where
  "seq_inv sequence first gap s \<longleftrightarrow>
     (\<exists>k \<le> length sequence. map snd (ds_begun s) = take k sequence
        \<and> (ds_active s \<longrightarrow> k = seq_count (length sequence) (ds_pc s)) \<and> k \<le> seq_count (length sequence) (ds_pc s))
     \<and> (\<forall>i. ds_pc s = SWait i \<or> ds_pc s = SSend i \<or> ds_pc s = SSent i \<longrightarrow> i < length sequence)
     \<and> (ds_stop s \<longrightarrow> \<not> ds_active s)
     \<and> end_events (ds_packets s) = filter (\<lambda>d. digitCode d \<noteq> None) (map snd (ds_begun s))
     \<and> (\<forall>j < length (ds_begun s). first + int j * gap \<le> fst (ds_begun s ! j))
     \<and> (\<forall>i. ds_pc s = SWait i \<longrightarrow> first + int i * gap \<le> ds_due s)
     \<and> (\<forall>i. ds_pc s = SSend i \<or> ds_pc s = SSent i \<longrightarrow> first + int i * gap \<le> ds_now s)"

lemma seq_inv_start:
  "sequence \<noteq> [] \<Longrightarrow> seq_inv sequence (now + dtmf_delay initialDelay) gap (dtmf_seq_start initialDelay now sess)"
  by (auto simp: seq_inv_def dtmf_seq_start_def)

lemma seq_inv_step:
  assumes "seq_step sequence interDigitGap s s'" "seq_inv sequence first (dtmf_delay interDigitGap) s"
  shows "seq_inv sequence first (dtmf_delay interDigitGap) s'"
  using assms
proof (cases rule: seq_step.cases)
  case (seq_send i pkts sess)
  let ?n = "length sequence"
  from assms(2) seq_send(2,3) obtain k where
    k: "map snd (ds_begun s) = take k sequence" "k = i" and i: "i < ?n" by (auto simp: seq_inv_def)
  then have len: "length (ds_begun s) = i" by (metis length_map length_take min.absorb2 less_imp_le)
  have snoc: "take (Suc (length (ds_begun s))) sequence = take (length (ds_begun s)) sequence @ [sequence ! length (ds_begun s)]"
    using i len by (simp add: take_Suc_conv_app_nth)
  have "end_events pkts = filter (\<lambda>d. digitCode d \<noteq> None) [sequence ! i]"
    using end_events_digit [of "sequence ! i" "ds_sess s"] seq_send(4) by simp
  then show ?thesis
    using assms(2) seq_send i len unfolding seq_inv_def
    by (auto simp: end_events_append nth_append less_Suc_eq snoc)
qed (use assms(2) in \<open>auto simp: seq_inv_def algebra_simps\<close>)

interpretation dtmf_goroutine: invariant_steps "seq_step sequence interDigitGap" "seq_inv sequence first (dtmf_delay interDigitGap)"
  for sequence interDigitGap first
  by unfold_locales (rule seq_inv_step)

section \<open>The schedule\<close>

text \<open>Once the call is inactive no digit is begun.\<close>

lemma no_digit_after_hangup:
  "(seq_step sequence interDigitGap)\<^sup>*\<^sup>* s s' \<Longrightarrow> \<not> ds_active s \<Longrightarrow> ds_begun s' = ds_begun s \<and> \<not> ds_active s'"
proof (induction rule: rtranclp_induct)
  case (step s1 s2)
  then show ?case by (auto elim: seq_stepE)
qed simp

text \<open>How many steps are left to the goroutine itself.\<close>

fun seq_left :: "nat \<Rightarrow> seq_pc \<Rightarrow> nat" where
  "seq_left n (SWait i) = 3 * (n - i)" | "seq_left n (SSend i) = 3 * (n - i) - 1" | "seq_left n (SSent i) = 3 * (n - i) - 2"
| "seq_left n SOver = 0"

interpretation dtmf_end: draining_steps "seq_step sequence interDigitGap" "\<lambda>s. seq_inv sequence first (dtmf_delay interDigitGap) s \<and> ds_stop s"
    "\<lambda>s. seq_left (length sequence) (ds_pc s)" "\<lambda>s. ds_pc s = SOver" for sequence interDigitGap first
proof unfold_locales
  fix s s'
  assume "seq_step sequence interDigitGap s s'" "seq_inv sequence first (dtmf_delay interDigitGap) s \<and> ds_stop s"
  then show "seq_inv sequence first (dtmf_delay interDigitGap) s' \<and> ds_stop s'"
    using seq_inv_step by (auto elim: seq_stepE)
next
  fix s
  assume a: "seq_inv sequence first (dtmf_delay interDigitGap) s \<and> ds_stop s" "ds_pc s \<noteq> SOver"
  then have len: "ds_pc s = SWait i \<or> ds_pc s = SSend i \<or> ds_pc s = SSent i \<Longrightarrow> i < length sequence" for i
    unfolding seq_inv_def by blast
  show "\<exists>s'. seq_step sequence interDigitGap s s' \<and> seq_left (length sequence) (ds_pc s') < seq_left (length sequence) (ds_pc s)"
  proof (cases "ds_pc s")
    case (SWait i)
    with seq_stopped [OF this, of sequence interDigitGap] a len [of i] show ?thesis
      by (intro exI [of _ "s\<lparr>ds_pc := SOver\<rparr>"]) simp
  next
    case (SSend i)
    have "\<not> ds_active s" using a by (simp add: seq_inv_def)
    with seq_skip [OF SSend this, of sequence interDigitGap] SSend len [of i] show ?thesis
      by (intro exI [of _ "s\<lparr>ds_pc := SSent i\<rparr>"]) simp
  next
    case (SSent i)
    show ?thesis
    proof (cases "Suc i < length sequence")
      case True
      with seq_next [OF SSent this, of interDigitGap] SSent show ?thesis
        by (intro exI [of _ "s\<lparr>ds_pc := SWait (Suc i), ds_due := ds_now s + dtmf_delay interDigitGap\<rparr>"]) simp
    next
      case False
      with seq_last [OF SSent this, of interDigitGap] SSent len [of i] show ?thesis
        by (intro exI [of _ "s\<lparr>ds_pc := SOver\<rparr>"]) simp
    qed
  qed (use a in simp)
qed

text \<open>C19: The DTMF sequence of a call, whatever the audio sender and \<open>Hangup\<close> do beside it: the digits begun
  are a prefix of the configured ones, in order, and all of them when the goroutine ends on a call
  that is still active; digit \<open>j\<close> is begun no earlier than the initial delay and \<open>j\<close> gaps after the
  start; what went out decodes to exactly the known digits among them, each once; no digit is begun
  after \<open>Hangup\<close> has marked the call as ended, and once it has closed \<open>stop\<close> the goroutine can end
  without waiting for a timer.\<close>
theorem dtmf_schedule:
  assumes "(seq_step sequence interDigitGap)\<^sup>*\<^sup>* (dtmf_seq_start initialDelay now sess) s" "sequence \<noteq> []"
  shows "(\<exists>k \<le> length sequence. map snd (ds_begun s) = take k sequence
        \<and> (ds_pc s = SOver \<and> ds_active s \<longrightarrow> k = length sequence))
    \<and> (\<forall>j < length (ds_begun s).
        now + dtmf_delay initialDelay + int j * dtmf_delay interDigitGap \<le> fst (ds_begun s ! j))
    \<and> end_events (ds_packets s) = filter (\<lambda>d. digitCode d \<noteq> None) (map snd (ds_begun s))
    \<and> (\<forall>s'. (seq_step sequence interDigitGap)\<^sup>*\<^sup>* s s' \<and> \<not> ds_active s \<longrightarrow> ds_begun s' = ds_begun s)
    \<and> (ds_stop s \<longrightarrow> (\<exists>s'. (seq_step sequence interDigitGap)\<^sup>*\<^sup>* s s' \<and> ds_pc s' = SOver))"
proof -
  from dtmf_goroutine.reached [OF assms(1) seq_inv_start [OF assms(2)]]
  have i: "seq_inv sequence (now + dtmf_delay initialDelay) (dtmf_delay interDigitGap) s" .
  have "\<exists>k \<le> length sequence. map snd (ds_begun s) = take k sequence
        \<and> (ds_pc s = SOver \<and> ds_active s \<longrightarrow> k = length sequence)"
    using i by (auto simp: seq_inv_def)
  moreover have "\<exists>s'. (seq_step sequence interDigitGap)\<^sup>*\<^sup>* s s' \<and> ds_pc s' = SOver" if "ds_stop s"
    using dtmf_end.drains [of sequence "now + dtmf_delay initialDelay" interDigitGap s] i that by blast
  ultimately show ?thesis
    using i no_digit_after_hangup [of sequence interDigitGap s] unfolding seq_inv_def by blast
qed

text \<open>Two digits, the call ends in the gap between them.\<close>

theorem dtmf_schedule_witness:
  "\<exists>s. (seq_step [''1'', ''#''] 0)\<^sup>*\<^sup>* (dtmf_seq_start 5 100 (NewSession 7)) s \<and> ds_begun s = [(105, ''1'')]
    \<and> end_events (ds_packets s) = [''1''] \<and> ds_stop s"
proof -
  let ?step = "seq_step [''1'', ''#''] 0" and ?s0 = "dtmf_seq_start 5 100 (NewSession 7)"
  obtain pkts sess where d: "dtmf_packets ''1'' (NewSession 7) = (pkts, sess)" by fastforce
  define s1 where "s1 = ?s0\<lparr>ds_now := ds_now ?s0 + 5\<rparr>"
  define s2 where "s2 = s1\<lparr>ds_pc := SSend 0\<rparr>"
  define s3 where "s3 = s2\<lparr>ds_pc := SSent 0, ds_sess := sess, ds_begun := ds_begun s2 @ [(ds_now s2, ''1'')],
    ds_packets := ds_packets s2 @ pkts\<rparr>"
  define s4 where "s4 = s3\<lparr>ds_pc := SWait (Suc 0), ds_due := ds_now s3 + dtmf_delay 0\<rparr>"
  define s5 where "s5 = s4\<lparr>ds_active := False\<rparr>"
  define s6 where "s6 = s5\<lparr>ds_stop := True\<rparr>"
  note defs = s1_def s2_def s3_def s4_def s5_def s6_def dtmf_seq_start_def dtmf_delay_def
  have "?step ?s0 s1" unfolding s1_def by (rule seq_time) simp
  moreover have "?step s1 s2" unfolding s2_def by (rule seq_timer [of _ 0]) (simp_all add: defs)
  moreover have "?step s2 s3" unfolding s3_def
    using seq_send [of s2 0 "[''1'', ''#'']" pkts sess 0] d by (simp add: defs)
  moreover have "?step s3 s4" unfolding s4_def by (rule seq_next [of _ 0]) (simp_all add: defs)
  moreover have "?step s4 s5" unfolding s5_def by (rule seq_inactive)
  moreover have "?step s5 s6" unfolding s6_def by (rule seq_stop) (simp add: defs)
  ultimately have r: "?step\<^sup>*\<^sup>* ?s0 s6" by (meson converse_rtranclp_into_rtranclp rtranclp.rtrancl_refl)
  have b: "ds_begun s6 = [(105, ''1'')]" "ds_stop s6" by (simp_all add: defs)
  from dtmf_schedule [OF r] have "end_events (ds_packets s6) = filter (\<lambda>d. digitCode d \<noteq> None) (map snd (ds_begun s6))"
    by blast
  with r b show ?thesis by (intro exI [of _ s6]) (simp add: digitCode_def digit_table_def)
qed

end
