(* ===== verification/Uas.thy ===== *)
theory Uas
  imports Sdp Codec Steps
begin

text \<open>
  The answering side (\<open>sip/server.go\<close>): what the INVITE handler answers, and the server with all its
  handlers as a step relation, one step per critical section. Shown: the limit on concurrent legs,
  that caller and server agree on the media addresses, and that without a call duration no leg
  ever ends.
\<close>

section \<open>One INVITE\<close>

record uas_config =
  uas_LocalIP :: string
  uas_AudioFile :: string
  uas_Codec :: string
  uas_CallDuration :: int
  uas_MaxConcurrent :: int
  uas_EchoMode :: bool

text \<open>What an INVITE brings along: its body, and the outcomes of \<open>tx.Respond\<close> for the 200 OK, of binding the
  RTP socket and the port that was drawn.\<close>

record invite =
  inv_body :: string
  inv_port :: int
  inv_respond_ok :: bool
  inv_bind_ok :: bool

text \<open>A response that was handed to the transaction: status and body.\<close>

type_synonym sip_reply = "int \<times> string"

text \<open>
  The handler from the choice of the codec to the media: the replies, and for a call that starts
  the remote media address. The local port is drawn before it is bound.
\<close>

definition answer_invite :: "bool \<Rightarrow> bool \<Rightarrow> uas_config \<Rightarrow> invite \<Rightarrow> sip_reply list \<times> (string \<times> int) option" where
  "answer_invite opus g729 cfg req = (case NewCodec opus g729 (uas_Codec cfg) of
       Inl _ \<Rightarrow> ([(415, [])], None)
     | Inr cod \<Rightarrow>
         let sdp = ParseSDP (inv_body req); remoteIP = connectionIP sdp; remotePort = sdp_port sdp
         in if remoteIP = [] \<or> remotePort = 0 then ([(400, [])], None)
            else
              let sdpAnswer = BuildSDP (uas_LocalIP cfg) (inv_port req) (codec_PayloadType cod);
                  replies = [(100, []), (200, sdpAnswer)]
              in if \<not> inv_respond_ok req \<or> \<not> inv_bind_ok req then (replies, None)
                 else (replies, Some (remoteIP, remotePort)))"

text \<open>The name an offer gives to the payload type of a codec is the codec's name.\<close>

lemma offered_name: "ToUpper (fst (offer_codec (codec_PayloadType cod))) = codec_Name cod"
  by (cases cod) (simp_all add: offer_codec_def ToUpper_def upcase_def Let_def char_of_def bit_iff_odd)

text \<open>C14: 
  Caller and server understand each other: for an INVITE with an offer that the calling side
  builds, a server with a known codec replies 100 and 200 with a description from which the
  caller's parser reads the server's address and port, and sends its media to exactly the
  address and port of the offer.
\<close>
theorem offer_answer_agree:
  assumes "word_ok ip" "ip \<noteq> []" "0 < port" "port < 2 ^ 63" "direction_ok d" "inv_body req = buildSDP ip port pt d ver"
    and "NewCodec opus g729 (uas_Codec cfg) = Inr cod" "inv_respond_ok req" "inv_bind_ok req"
    and "word_ok (uas_LocalIP cfg)" "0 \<le> inv_port req" "inv_port req < 2 ^ 63"
  shows "\<exists>sdp. answer_invite opus g729 cfg req = ([(100, []), (200, sdp)], Some (ip, port))
    \<and> connectionIP (ParseSDP sdp) = uas_LocalIP cfg \<and> sdp_port (ParseSDP sdp) = inv_port req
    \<and> ptMap (ParseSDP sdp) (codec_PayloadType cod) = Some (codec_Name cod)"
proof -
  have offer: "connectionIP (ParseSDP (inv_body req)) = ip" "sdp_port (ParseSDP (inv_body req)) = port"
    using sdp_roundtrip_map [OF assms(1) _ assms(4,5), of pt ver] assms(3,6) by simp_all
  have name: "ToUpper (fst (offer_codec (codec_PayloadType cod))) = codec_Name cod" by (rule offered_name)
  have "direction_ok DirSendRecv" by (simp add: direction_ok_def)
  from sdp_roundtrip_map [OF assms(10-12) this, of "codec_PayloadType cod" 0] offer name assms(2,3,7-9) show ?thesis
    by (simp add: answer_invite_def BuildSDP_def Let_def)
qed

definition sample_uas :: uas_config where
  "sample_uas = \<lparr>uas_LocalIP = ''10.0.0.1'', uas_AudioFile = [], uas_Codec = ''PCMU'', uas_CallDuration = 0, uas_MaxConcurrent = 1, uas_EchoMode = False\<rparr>"

definition sample_invite :: invite where
  "sample_invite = \<lparr>inv_body = BuildSDP ''10.0.0.7'' 20000 0, inv_port = 30000, inv_respond_ok = True, inv_bind_ok = True\<rparr>"

theorem offer_answer_agree_witness:
  "\<exists>sdp. answer_invite True True sample_uas sample_invite = ([(100, []), (200, sdp)], Some (''10.0.0.7'', 20000))
    \<and> connectionIP (ParseSDP sdp) = ''10.0.0.1'' \<and> sdp_port (ParseSDP sdp) = 30000"
proof -
  have "word_ok ''10.0.0.7''" "word_ok (uas_LocalIP sample_uas)" by code_simp+
  moreover have "direction_ok DirSendRecv" by (simp add: direction_ok_def)
  moreover have "inv_body sample_invite = buildSDP ''10.0.0.7'' 20000 0 DirSendRecv 0"
    by (simp add: sample_invite_def BuildSDP_def)
  ultimately show ?thesis
    using offer_answer_agree [of "''10.0.0.7''" 20000 DirSendRecv sample_invite 0 0 True True sample_uas PCMU]
    by (auto simp: NewCodec_def sample_uas_def sample_invite_def)
qed

section \<open>The server\<close>

text \<open>A leg per INVITE: counted and not yet answered, running, over with its replies.\<close>

datatype leg = Admitted invite | Running "sip_reply list" | Over "sip_reply list"

record uas =
  uas_active :: int
  uas_legs :: "leg list"
  uas_results :: nat

text \<open>The counter moves only when there is a limit.\<close>

definition count_leg :: "uas_config \<Rightarrow> int \<Rightarrow> uas \<Rightarrow> uas" where
  "count_leg cfg d s = (if uas_MaxConcurrent cfg > 0 then s\<lparr>uas_active := uas_active s + d\<rparr> else s)"

definition set_leg :: "nat \<Rightarrow> leg \<Rightarrow> uas \<Rightarrow> uas" where
  "set_leg i l s = s\<lparr>uas_legs := (uas_legs s)[i := l]\<rparr>"

definition add_leg :: "leg \<Rightarrow> uas \<Rightarrow> uas" where
  "add_leg l s = s\<lparr>uas_legs := uas_legs s @ [l]\<rparr>"

definition uas_busy :: "uas_config \<Rightarrow> uas \<Rightarrow> bool" where
  "uas_busy cfg s \<longleftrightarrow> uas_MaxConcurrent cfg > 0 \<and> uas_active s \<ge> uas_MaxConcurrent cfg"

inductive uas_step :: "(invite \<Rightarrow> sip_reply list \<times> (string \<times> int) option) \<Rightarrow> uas_config \<Rightarrow> uas \<Rightarrow> uas \<Rightarrow> bool"
  for handler cfg where
  busy: "uas_busy cfg s \<Longrightarrow> uas_step handler cfg s (add_leg (Over [(486, [])]) s)"
| admit: "\<not> uas_busy cfg s \<Longrightarrow> uas_step handler cfg s (add_leg (Admitted req) (count_leg cfg 1 s))"
| refuse: "i < length (uas_legs s) \<Longrightarrow> uas_legs s ! i = Admitted req \<Longrightarrow> handler req = (replies, None) \<Longrightarrow>
    uas_step handler cfg s (set_leg i (Over replies) (count_leg cfg (- 1) s))"
| start: "i < length (uas_legs s) \<Longrightarrow> uas_legs s ! i = Admitted req \<Longrightarrow> handler req = (replies, Some remote) \<Longrightarrow>
    uas_step handler cfg s (set_leg i (Running replies) s)"
| expire: "i < length (uas_legs s) \<Longrightarrow> uas_legs s ! i = Running replies \<Longrightarrow> uas_CallDuration cfg > 0 \<Longrightarrow>
    uas_step handler cfg s (set_leg i (Over replies) (count_leg cfg (- 1) (s\<lparr>uas_results := uas_results s + 1\<rparr>)))"

definition uas0 :: uas where
  "uas0 = \<lparr>uas_active = 0, uas_legs = [], uas_results = 0\<rparr>"

fun live :: "leg \<Rightarrow> bool" where
  "live (Over _) = False"
| "live _ = True"

definition live_legs :: "uas \<Rightarrow> nat" where
  "live_legs s = length (filter live (uas_legs s))"

lemma uas_fields [simp]:
  "uas_legs (count_leg cfg d s) = uas_legs s" "uas_active (set_leg i l s) = uas_active s" "uas_active (add_leg l s) = uas_active s"
  "uas_active (count_leg cfg d s) = uas_active s + (if uas_MaxConcurrent cfg > 0 then d else 0)"
  "uas_legs (set_leg i l s) = (uas_legs s)[i := l]" "uas_legs (add_leg l s) = uas_legs s @ [l]"
  "uas_results (count_leg cfg d s) = uas_results s" "uas_results (set_leg i l s) = uas_results s"
  "uas_results (add_leg l s) = uas_results s"
  by (simp_all add: count_leg_def set_leg_def add_leg_def)

lemma live_update:
  "i < length ls \<Longrightarrow> length (filter live (ls[i := l])) + one (live (ls ! i)) = length (filter live ls) + one (live l)"
  by (rule length_filter_update)

definition uas_inv :: "uas_config \<Rightarrow> uas \<Rightarrow> bool" where
  "uas_inv cfg s \<longleftrightarrow> (uas_MaxConcurrent cfg > 0 \<longrightarrow>
     uas_active s = int (live_legs s) \<and> uas_active s \<le> uas_MaxConcurrent cfg)"

lemma uas_counted: "uas_step handler cfg s s' \<Longrightarrow> 0 < uas_MaxConcurrent cfg \<Longrightarrow>
    uas_active s' - uas_active s = int (live_legs s') - int (live_legs s)
    \<and> (uas_active s < uas_active s' \<longrightarrow> uas_active s' \<le> uas_MaxConcurrent cfg)"
proof (induction rule: uas_step.induct)
  case (refuse i s req replies)
  with live_update [of i "uas_legs s" "Over replies"] show ?case by (auto simp: live_legs_def)
next
  case (start i s req replies remote)
  with live_update [of i "uas_legs s" "Running replies"] show ?case by (auto simp: live_legs_def)
next
  case (expire i s replies)
  with live_update [of i "uas_legs s" "Over replies"] show ?case by (auto simp: live_legs_def)
qed (auto simp: live_legs_def uas_busy_def)

interpretation plain_uas: limited_steps "uas_step handler cfg" uas0 uas_active live_legs "uas_MaxConcurrent cfg"
  for handler cfg
  by unfold_locales (use uas_counted [of handler cfg] in \<open>auto simp: uas0_def live_legs_def\<close>)

lemma uas_inv_within: "uas_inv cfg = plain_uas.in_limit cfg"
  by (intro ext) (auto simp: uas_inv_def plain_uas.in_limit_def)

lemma uas_inv_reach: "(uas_step handler cfg)\<^sup>*\<^sup>* s s' \<Longrightarrow> uas_inv cfg s \<Longrightarrow> uas_inv cfg s'"
  unfolding uas_inv_within by (rule plain_uas.bounded.reached)

text \<open>In every interleaving of the handlers the counter equals the number of legs that are counted and not
  over, and never exceeds the limit.\<close>
theorem uas_capacity:
  assumes "(uas_step handler cfg)\<^sup>*\<^sup>* uas0 s" "0 < uas_MaxConcurrent cfg"
  shows "uas_active s = int (live_legs s) \<and> int (live_legs s) \<le> uas_MaxConcurrent cfg"
  using assms by (rule plain_uas.capacity)

text \<open>Running legs of a server without a call duration stay what they are.\<close>

lemma running_stays:
  assumes "uas_CallDuration cfg \<le> 0"
  shows "uas_step handler cfg s s' \<Longrightarrow> i < length (uas_legs s) \<Longrightarrow> uas_legs s ! i = Running r \<Longrightarrow>
    i < length (uas_legs s') \<and> uas_legs s' ! i = Running r"
  by (induction rule: uas_step.induct) (use assms in \<open>auto simp: nth_append nth_list_update\<close>)

lemma running_stays_reach:
  assumes "uas_CallDuration cfg \<le> 0"
  shows "(uas_step handler cfg)\<^sup>*\<^sup>* s s' \<Longrightarrow> i < length (uas_legs s) \<Longrightarrow> uas_legs s ! i = Running r \<Longrightarrow>
    i < length (uas_legs s') \<and> uas_legs s' ! i = Running r"
  by (induction rule: rtranclp_induct) (auto dest: running_stays [OF assms])

text \<open>
  Without a call duration (the default, documented as: hang up when the caller sends BYE) a leg
  that started never ends: the handler waits for a channel that only it closes, and no BYE handler
  exists. It keeps its place for ever; when all places are taken by such legs, the next INVITE,
  whatever happened in between, is refused with 486.
\<close>
theorem uas_leg_never_ends:
  assumes "uas_CallDuration cfg \<le> 0" "0 < uas_MaxConcurrent cfg" "(uas_step handler cfg)\<^sup>*\<^sup>* uas0 s"
    and "int (length (filter (\<lambda>l. \<exists>r. l = Running r) (uas_legs s))) = uas_MaxConcurrent cfg"
    and "(uas_step handler cfg)\<^sup>*\<^sup>* s s'"
  shows "(\<forall>i < length (uas_legs s). \<forall>r. uas_legs s ! i = Running r \<longrightarrow> uas_legs s' ! i = Running r)
    \<and> uas_busy cfg s' \<and> uas_results s' = uas_results s"
proof -
  have "uas_inv cfg uas0" using assms(2) by (simp add: uas_inv_def uas0_def live_legs_def)
  from uas_inv_reach [OF assms(3) this] have req: "uas_inv cfg s" .
  note req' = uas_inv_reach [OF assms(5) req]
  have keep: "i < length (uas_legs s') \<and> uas_legs s' ! i = Running r" if "i < length (uas_legs s)" "uas_legs s ! i = Running r" for i r
    using running_stays_reach [OF assms(1,5) that] .
  let ?run = "\<lambda>l. \<exists>r. l = Running r"
  have "card {i. i < length (uas_legs s) \<and> ?run (uas_legs s ! i)} \<le> card {i. i < length (uas_legs s') \<and> live (uas_legs s' ! i)}"
  proof (rule card_mono)
    show "{i. i < length (uas_legs s) \<and> ?run (uas_legs s ! i)} \<subseteq> {i. i < length (uas_legs s') \<and> live (uas_legs s' ! i)}"
      using keep by fastforce
  qed simp
  then have "length (filter ?run (uas_legs s)) \<le> live_legs s'"
    by (simp add: live_legs_def length_filter_conv_card)
  with assms(2,4) req' have "uas_busy cfg s'" by (simp add: uas_inv_def uas_busy_def)
  moreover have "uas_results s' = uas_results s"
    using assms(5)
  proof (induction rule: rtranclp_induct)
    case (step s1 s2)
    from step(2,3) assms(1) show ?case by (auto elim: uas_step.cases)
  qed simp
  ultimately show ?thesis using keep by blast
qed

theorem uas_capacity_witness:
  "\<exists>s. (uas_step (answer_invite True True sample_uas) sample_uas)\<^sup>*\<^sup>* uas0 s \<and> live_legs s = 1 \<and> uas_active s = 1"
proof -
  let ?s = "add_leg (Admitted sample_invite) (count_leg sample_uas 1 uas0)"
  have r: "(uas_step (answer_invite True True sample_uas) sample_uas)\<^sup>*\<^sup>* uas0 ?s"
    by (rule r_into_rtranclp, rule admit) (simp add: uas_busy_def uas0_def sample_uas_def)
  from uas_capacity [OF r] have "uas_active ?s = int (live_legs ?s)" by (simp add: sample_uas_def)
  with r show ?thesis by (intro exI [of _ ?s]) (simp add: live_legs_def uas0_def)
qed

theorem uas_leg_never_ends_witness:
  "\<exists>s r. (uas_step (answer_invite True True sample_uas) sample_uas)\<^sup>*\<^sup>* uas0 s \<and> uas_legs s = [Running r]
     \<and> (\<forall>s'. (uas_step (answer_invite True True sample_uas) sample_uas)\<^sup>*\<^sup>* s s' \<longrightarrow> uas_busy sample_uas s')"
proof -
  let ?h = "answer_invite True True sample_uas"
  let ?s1 = "add_leg (Admitted sample_invite) (count_leg sample_uas 1 uas0)"
  have 1: "uas_step ?h sample_uas uas0 ?s1"
    by (rule admit) (simp add: uas_busy_def uas0_def sample_uas_def)
  obtain sdp where h: "?h sample_invite = ([(100, []), (200, sdp)], Some (connectionIP (ParseSDP (inv_body sample_invite)), sdp_port (ParseSDP (inv_body sample_invite))))"
  proof -
    have "word_ok ''10.0.0.7''" by code_simp
    from sdp_roundtrip_map [OF this, of 20000 DirSendRecv 0 0] have
      "connectionIP (ParseSDP (inv_body sample_invite)) = ''10.0.0.7''" "sdp_port (ParseSDP (inv_body sample_invite)) = 20000"
      by (simp_all add: sample_invite_def BuildSDP_def direction_ok_def)
    then show ?thesis
      by (intro that) (simp add: answer_invite_def NewCodec_def sample_uas_def sample_invite_def)
  qed
  let ?s2 = "set_leg 0 (Running [(100, []), (200, sdp)]) ?s1"
  have "uas_step ?h sample_uas ?s1 ?s2"
    using start [where i = 0 and s = ?s1 and req = sample_invite and handler = ?h and cfg = sample_uas, OF _ _ h]
    by (simp add: uas0_def)
  with 1 have r: "(uas_step ?h sample_uas)\<^sup>*\<^sup>* uas0 ?s2" by (meson r_into_rtranclp rtranclp.rtrancl_into_rtrancl)
  have legs: "uas_legs ?s2 = [Running [(100, []), (200, sdp)]]" by (simp add: uas0_def)
  have "uas_CallDuration sample_uas \<le> 0" "0 < uas_MaxConcurrent sample_uas"
    "int (length (filter (\<lambda>l. \<exists>r. l = Running r) (uas_legs ?s2))) = uas_MaxConcurrent sample_uas"
    unfolding legs by (simp_all add: sample_uas_def)
  from uas_leg_never_ends [OF this(1,2) r this(3)] r legs show ?thesis by blast
qed

end
