(* ===== verification/Client.thy ===== *)
theory Client
  imports Sip_Msg
begin

text \<open>
  The SIP client (\<open>sip/client.go\<close>): its TLS configuration, its creation with every error exit, and the
  address it announces, and the settings for retransmission. Certificates and pools are what Go's \<open>crypto/tls\<close> and \<open>crypto/x509\<close> return,
  user agent, client and server are sipgo's: their outcomes are arguments. The BYE handler that
  the client registers is in the theory Call.
\<close>

section \<open>TLS\<close>

record tls_config =
  CertFile :: string
  KeyFile :: string
  CAFile :: string
  InsecureSkipVerify :: bool
  ServerName :: string

text \<open>The fields of \<open>tls.Config\<close> that are set; without \<open>RootCAs\<close> the pool of the system is used.\<close>

record ('cert, 'pool) go_tls =
  gt_InsecureSkipVerify :: bool
  gt_ServerName :: string
  gt_Certificates :: "'cert list"
  gt_RootCAs :: "'pool option"

datatype tls_error = KeyPairFailed | CAReadFailed | CAEmpty

text \<open>What is on disk: a key pair for two file names, the text of a file, the certificates in a text.\<close>

record ('cert, 'pool) tls_files =
  LoadX509KeyPair :: "string \<Rightarrow> string \<Rightarrow> 'cert option"
  ReadFile :: "string \<Rightarrow> string option"
  CertsFromPEM :: "string \<Rightarrow> 'pool option"

definition go_tls0 :: "('cert, 'pool) go_tls" where
  "go_tls0 = \<lparr>gt_InsecureSkipVerify = False, gt_ServerName = [], gt_Certificates = [], gt_RootCAs = None\<rparr>"

definition client_certificate :: "('cert, 'pool) tls_files \<Rightarrow> tls_config \<Rightarrow> ('cert, 'pool) go_tls \<Rightarrow> tls_error + ('cert, 'pool) go_tls" where
  "client_certificate files cfg conf =
     (if CertFile cfg \<noteq> [] \<and> KeyFile cfg \<noteq> [] then
        (case LoadX509KeyPair files (CertFile cfg) (KeyFile cfg) of
           None \<Rightarrow> Inl KeyPairFailed
         | Some cert \<Rightarrow> Inr (conf\<lparr>gt_Certificates := [cert]\<rparr>))
      else Inr conf)"

definition custom_pool :: "('cert, 'pool) tls_files \<Rightarrow> tls_config \<Rightarrow> ('cert, 'pool) go_tls \<Rightarrow> tls_error + ('cert, 'pool) go_tls" where
  "custom_pool files cfg conf =
     (if CAFile cfg \<noteq> [] then
        (case ReadFile files (CAFile cfg) of
           None \<Rightarrow> Inl CAReadFailed
         | Some caPEM \<Rightarrow> (case CertsFromPEM files caPEM of
             None \<Rightarrow> Inl CAEmpty
           | Some pool \<Rightarrow> Inr (conf\<lparr>gt_RootCAs := Some pool\<rparr>)))
      else Inr conf)"

definition buildTLSConfig :: "('cert, 'pool) tls_files \<Rightarrow> tls_config option \<Rightarrow> tls_error + ('cert, 'pool) go_tls" where
  "buildTLSConfig files tls = (case tls of
       None \<Rightarrow> Inr (go_tls0\<lparr>gt_InsecureSkipVerify := True\<rparr>)
     | Some cfg \<Rightarrow>
         let conf = go_tls0\<lparr>gt_InsecureSkipVerify := InsecureSkipVerify cfg\<rparr>;
             conf = (if ServerName cfg \<noteq> [] then conf\<lparr>gt_ServerName := ServerName cfg\<rparr> else conf)
         in result_bind (client_certificate files cfg conf) (custom_pool files cfg))"

text \<open>
  The certificate of the server is checked unless the configuration is missing or says otherwise;
  against the given CA file exactly when one is named, which then had certificates; a client
  certificate is presented exactly when both of its files are named. An error arises only from a
  file that is named and cannot be used, never from the other settings.
\<close>
theorem tls_as_configured:
  "buildTLSConfig files None = Inr (go_tls0\<lparr>gt_InsecureSkipVerify := True\<rparr>)
    \<and> (buildTLSConfig files (Some cfg) = Inr conf \<longrightarrow>
      gt_InsecureSkipVerify conf = InsecureSkipVerify cfg \<and> gt_ServerName conf = ServerName cfg
      \<and> (gt_RootCAs conf = None \<longleftrightarrow> CAFile cfg = [])
      \<and> (gt_Certificates conf = [] \<longleftrightarrow> CertFile cfg = [] \<or> KeyFile cfg = []))"
  by (auto simp: buildTLSConfig_def go_tls0_def Let_def result_bind_Inr client_certificate_def custom_pool_def
      split: if_splits option.splits)

section \<open>Creating the client\<close>

text \<open>The outcomes of creating the user agent, the client and the server that answers OPTIONS and BYE; the
  address of the Contact of all dialogs. The second component of the result says which of user agent
  and client were created and not closed.\<close>

record sipgo_outcomes =
  so_ua :: bool
  so_client :: bool
  so_server :: bool

record sip_client =
  cl_contact :: uri
  cl_transport :: string

datatype client_error = TLSFailed tls_error | UAFailed | SipClientFailed | ServerFailed

definition contact_uri :: "string \<Rightarrow> string \<Rightarrow> uri" where
  "contact_uri localHost transport = \<lparr>Scheme = (if transport = ''tls'' then ''sips'' else []), User = ''k6load'',
     Host = localHost, Port = 0, UriParams = []\<rparr>"

definition NewClientWithTransport :: "('cert, 'pool) tls_files \<Rightarrow> sipgo_outcomes \<Rightarrow> string \<Rightarrow> string \<Rightarrow> tls_config option
    \<Rightarrow> (client_error + sip_client) \<times> (bool \<times> bool)" where
  "NewClientWithTransport files so localHost transport tls =
     (case (if transport = ''tls'' then (case buildTLSConfig files tls of Inl e \<Rightarrow> Some e | Inr _ \<Rightarrow> None) else None) of
        Some e \<Rightarrow> (Inl (TLSFailed e), (False, False))
      | None \<Rightarrow>
          if \<not> so_ua so then (Inl UAFailed, (False, False))
          else if \<not> so_client so then (Inl SipClientFailed, (False, False))
          else if \<not> so_server so then (Inl ServerFailed, (False, False))
          else (Inr \<lparr>cl_contact = contact_uri localHost transport, cl_transport = transport\<rparr>, (True, True)))"

definition NewClient :: "('cert, 'pool) tls_files \<Rightarrow> sipgo_outcomes \<Rightarrow> string \<Rightarrow> (client_error + sip_client) \<times> (bool \<times> bool)" where
  "NewClient files so localHost = NewClientWithTransport files so localHost ''udp'' None"

section \<open>Retransmission settings\<close>

text \<open>The settings of \<open>sip/retransmit.go\<close>, and what \<open>applyRetransmitConfig\<close> of \<open>sip/transport_utils.go\<close> does with
  them: it formats a message and reads a timer, and drops both.\<close>

record retransmit_config =
  rt_Disabled :: bool
  rt_MaxRetransmits :: int
  rt_MaxINVITERetransmits :: int
  rt_T1Ms :: int
  rt_T2Ms :: int

definition retransmit_message :: string where
  "retransmit_message = ''retransmit: disabled=true requested but sipgo v0.30 does not''
     @ '' support disabling UDP retransmission; use TCP transport for'' @ '' reliable delivery without retransmits''"

definition applyRetransmitConfig :: "sip_client \<Rightarrow> retransmit_config option \<Rightarrow> sip_client" where
  "applyRetransmitConfig c cfg = (case cfg of
       None \<Rightarrow> c
     | Some r \<Rightarrow>
         let dropped = (if rt_Disabled r then Some retransmit_message else None);
             dropped' = (if rt_T1Ms r > 0 then Some (rt_T1Ms r) else None)
         in c)"

text \<open>No setting has an effect, so retransmission cannot be turned off.\<close>

lemma applyRetransmitConfig_nothing: "applyRetransmitConfig c cfg = c"
  by (simp add: applyRetransmitConfig_def split: option.split)

section \<open>The local address\<close>

text \<open>\<open>route\<close> is the local address of a socket towards a public address, if there is a route.\<close>

definition localOutboundIP :: "string option \<Rightarrow> string" where
  "localOutboundIP route = (case route of None \<Rightarrow> ''127.0.0.1'' | Some ip \<Rightarrow> ip)"

definition resolveLocalIPAuto :: "string \<Rightarrow> bool \<Rightarrow> string \<Rightarrow> string option \<Rightarrow> string" where
  "resolveLocalIPAuto localIP ipv6 detected6 route =
     (if localIP \<noteq> [] \<and> localIP \<noteq> ''0.0.0.0'' \<and> localIP \<noteq> ''::'' then localIP
      else if ipv6 \<and> detected6 \<noteq> [] then detected6
      else localOutboundIP route)"

definition resolveLocalIP :: "string \<Rightarrow> string option \<Rightarrow> string" where
  "resolveLocalIP localIP route = resolveLocalIPAuto localIP False [] route"

text \<open>
  A failed creation leaves neither user agent nor client open, a successful one both, and a client
  for TLS announces a sips address. Without TLS the TLS settings are not looked at.
\<close>
theorem client_all_or_nothing:
  "case NewClientWithTransport files so localHost transport tls of
     (Inl e, held) \<Rightarrow> held = (False, False) \<and> (transport \<noteq> ''tls'' \<longrightarrow> (\<forall>x. e \<noteq> TLSFailed x))
   | (Inr c, held) \<Rightarrow> held = (True, True) \<and> Host (cl_contact c) = localHost \<and> cl_transport c = transport
       \<and> (Scheme (cl_contact c) = ''sips'' \<longleftrightarrow> transport = ''tls'')"
  by (auto simp: NewClientWithTransport_def contact_uri_def split: option.split sum.split)

end
