(* ===== verification/Health.thy ===== *)
theory Health
  imports Float64
begin

text \<open>
  SIP OPTIONS pings and the health checker (\<open>sip/options.go\<close>, \<open>sip/healthcheck.go\<close>). The answer of
  the network to a request is an argument: the send fails, no response comes in time, the
  transaction ends without a response, or a response with a status arrives after a time. The theory
  shows the invariant of the counters and of the health flag over any series of pings, the bounds
  of the average round-trip time in floating point, and what counts as a success.
\<close>

section \<open>One OPTIONS request\<close>

record options_result =
  opt_StatusCode :: int
  opt_RTT :: int

datatype options_error = ParseTarget | SendFailed | NilResponse | TimedOut | NoClient

datatype options_net =
    RequestFails
  | NoAnswer
  | Answer "(int \<times> int) option"

text \<open>\<open>target_ok\<close> is the outcome of parsing the target; \<open>Answer None\<close> is a closed response channel.\<close>

definition sendOptionsWithClient :: "bool \<Rightarrow> options_net \<Rightarrow> options_error + options_result" where
  "sendOptionsWithClient target_ok net =
     (if \<not> target_ok then Inl ParseTarget
      else case net of
        RequestFails \<Rightarrow> Inl SendFailed
      | NoAnswer \<Rightarrow> Inl TimedOut
      | Answer None \<Rightarrow> Inl NilResponse
      | Answer (Some (status, rtt)) \<Rightarrow> Inr \<lparr>opt_StatusCode = status, opt_RTT = rtt\<rparr>)"

section \<open>The checker\<close>

record health_config =
  hc_Interval :: int
  hc_Timeout :: int
  hc_MaxFailures :: int

record health_stats =
  Checks :: int
  Successes :: int
  Failures :: int
  ConsecFails :: int
  AvgRTTms :: float64
  LastRTTms :: int
  Healthy :: bool

record health_checker =
  hc_cfg :: health_config
  hc_stats :: health_stats
  hc_client :: bool

definition health_defaults :: "health_config \<Rightarrow> health_config" where
  "health_defaults cfg =
     (let cfg = (if hc_Interval cfg = 0 then cfg\<lparr>hc_Interval := 5000000000\<rparr> else cfg);
          cfg = (if hc_Timeout cfg = 0 then cfg\<lparr>hc_Timeout := 2000000000\<rparr> else cfg)
      in if hc_MaxFailures cfg = 0 then cfg\<lparr>hc_MaxFailures := 3\<rparr> else cfg)"

text \<open>\<open>client\<close> says whether the SIP client could be created; its error is dropped.\<close>

definition StartHealthCheck :: "health_config \<Rightarrow> bool \<Rightarrow> health_checker" where
  "StartHealthCheck cfg client =
     \<lparr>hc_cfg = health_defaults cfg,
      hc_stats = \<lparr>Checks = 0, Successes = 0, Failures = 0, ConsecFails = 0, AvgRTTms = 0, LastRTTms = 0, Healthy = True\<rparr>,
      hc_client = client\<rparr>"

definition rtt_milliseconds :: "int \<Rightarrow> int" where
  "rtt_milliseconds d = d sdiv 1000000"

definition ping_failure :: "int \<Rightarrow> health_stats \<Rightarrow> health_stats" where
  "ping_failure maxFails s =
     (let s = s\<lparr>Failures := Failures s + 1, ConsecFails := ConsecFails s + 1\<rparr>
      in if ConsecFails s \<ge> maxFails then s\<lparr>Healthy := False\<rparr> else s)"

definition ping_success :: "int \<Rightarrow> health_stats \<Rightarrow> health_stats" where
  "ping_success rtt s =
     (let s = s\<lparr>Successes := Successes s + 1, ConsecFails := 0, Healthy := True, LastRTTms := rtt_milliseconds rtt\<rparr>
      in s\<lparr>AvgRTTms := fdiv (fadd (fmul (AvgRTTms s) (fint (Successes s - 1))) (fint (rtt_milliseconds rtt)))
             (fint (Successes s))\<rparr>)"

definition ping :: "bool \<Rightarrow> options_net \<Rightarrow> health_checker \<Rightarrow> health_checker" where
  "ping target_ok net hc =
     (let r = (if hc_client hc then sendOptionsWithClient target_ok net else Inl NoClient);
          s = (hc_stats hc)\<lparr>Checks := Checks (hc_stats hc) + 1\<rparr>
      in case r of
           Inl _ \<Rightarrow> hc\<lparr>hc_stats := ping_failure (hc_MaxFailures (hc_cfg hc)) s\<rparr>
         | Inr res \<Rightarrow> hc\<lparr>hc_stats := ping_success (opt_RTT res) s\<rparr>)"

definition IsHealthy :: "health_checker \<Rightarrow> bool" where
  "IsHealthy hc = Healthy (hc_stats hc)"

text \<open>The loop pings at once and then at every tick, until it is cancelled.\<close>

definition health_run :: "bool \<Rightarrow> options_net list \<Rightarrow> health_checker \<Rightarrow> health_checker" where
  "health_run target_ok nets hc = fold (ping target_ok) nets hc"

section \<open>Invariant\<close>

definition health_inv :: "health_checker \<Rightarrow> bool" where
  "health_inv hc \<longleftrightarrow> (let s = hc_stats hc; maxFails = hc_MaxFailures (hc_cfg hc) in
     0 \<le> Successes s \<and> 0 \<le> ConsecFails s \<and> ConsecFails s \<le> Failures s
     \<and> Checks s = Successes s + Failures s \<and> (Healthy s \<longleftrightarrow> ConsecFails s < maxFails) \<and> 0 < maxFails)"

lemma health_inv_start: "0 \<le> hc_MaxFailures cfg \<Longrightarrow> health_inv (StartHealthCheck cfg client)"
  by (auto simp: health_inv_def StartHealthCheck_def health_defaults_def Let_def)

lemma health_inv_ping: "health_inv hc \<Longrightarrow> health_inv (ping ok net hc)"
  by (auto simp: health_inv_def ping_def ping_failure_def ping_success_def Let_def split: sum.splits)

lemma ping_cfg: "hc_cfg (ping ok net hc) = hc_cfg hc \<and> hc_client (ping ok net hc) = hc_client hc
    \<and> Checks (hc_stats (ping ok net hc)) = Checks (hc_stats hc) + 1"
  by (auto simp: ping_def ping_failure_def ping_success_def Let_def split: sum.splits)

lemma health_run_facts:
  "health_inv hc \<Longrightarrow> health_inv (health_run ok nets hc) \<and> hc_cfg (health_run ok nets hc) = hc_cfg hc
    \<and> Checks (hc_stats (health_run ok nets hc)) = Checks (hc_stats hc) + int (length nets)"
  unfolding health_run_def by (induction nets arbitrary: hc) (simp_all add: health_inv_ping ping_cfg)

text \<open>After any series of pings with any answers, the target counts as healthy exactly when fewer than the
  configured number of pings (3 if it was left out) failed since the last success; every ping is
  counted once, as a success or as a failure.\<close>
theorem health_flag_exact:
  assumes "0 \<le> hc_MaxFailures cfg"
  shows "let hc = health_run ok nets (StartHealthCheck cfg client); s = hc_stats hc;
       maxFails = (if hc_MaxFailures cfg = 0 then 3 else hc_MaxFailures cfg)
    in (IsHealthy hc \<longleftrightarrow> ConsecFails s < maxFails) \<and> Checks s = int (length nets) \<and> Successes s + Failures s = Checks s
      \<and> 0 \<le> ConsecFails s \<and> ConsecFails s \<le> Failures s"
proof -
  have "hc_MaxFailures (hc_cfg (StartHealthCheck cfg client)) = (if hc_MaxFailures cfg = 0 then 3 else hc_MaxFailures cfg)"
    by (simp add: StartHealthCheck_def health_defaults_def Let_def)
  moreover have "Checks (hc_stats (StartHealthCheck cfg client)) = 0" by (simp add: StartHealthCheck_def)
  ultimately show ?thesis
    using health_run_facts [OF health_inv_start [OF assms], of ok nets client]
    by (simp add: health_inv_def IsHealthy_def Let_def)
qed

theorem health_flag_exact_witness:
  "\<not> IsHealthy (health_run True [NoAnswer, RequestFails, Answer None]
      (StartHealthCheck \<lparr>hc_Interval = 0, hc_Timeout = 0, hc_MaxFailures = 0\<rparr> True))"
proof -
  let ?hc = "health_run True [NoAnswer, RequestFails, Answer None]
      (StartHealthCheck \<lparr>hc_Interval = 0, hc_Timeout = 0, hc_MaxFailures = 0\<rparr> True)"
  have "ConsecFails (hc_stats ?hc) = 3" by code_simp
  then show ?thesis
    using health_flag_exact [of "\<lparr>hc_Interval = 0, hc_Timeout = 0, hc_MaxFailures = 0\<rparr>" True
        "[NoAnswer, RequestFails, Answer None]" True] by (simp add: Let_def)
qed

section \<open>The average\<close>

lemma average_between:
  assumes "of_int lo \<le> avg" "avg \<le> of_int hi" "lo \<le> r" "r \<le> hi" "0 \<le> lo" "0 < n" "hi * n < 2 ^ 53"
  shows "of_int lo \<le> fdiv (fadd (fmul avg (fint (n - 1))) (fint r)) (fint n)
    \<and> fdiv (fadd (fmul avg (fint (n - 1))) (fint r)) (fint n) \<le> of_int hi"
proof -
  have hi0: "0 \<le> hi" using assms(3-5) by simp
  have "hi * 1 \<le> hi * n" "lo * n \<le> hi * n" using assms hi0 by (intro mult_left_mono mult_right_mono; simp)+
  then have b: "hi < 2 ^ 53" "lo * n < 2 ^ 53" "hi * n < 2 ^ 53" using assms(7) by simp_all
  have nn: "0 \<le> lo * n" "0 \<le> hi * n" using assms hi0 by simp_all
  show ?thesis
  proof (cases "hi = 0")
    case True
    then have "avg = 0" "r = 0" using assms by simp_all
    with True assms(3,5) show ?thesis by (simp add: fmul_def fadd_def fdiv_def fint_def)
  next
    case False
    then have "n * 1 \<le> n * hi" using hi0 assms(6) by (intro mult_left_mono) simp_all
    then have n53: "n < 2 ^ 53" using b(3) by (simp add: mult.commute)
    have e: "fint (n - 1) = of_int (n - 1)" "fint r = of_int r" "fint n = of_int n"
      using n53 assms(3-6) b(1) by (simp_all add: fint_exact)
    have m: "of_int (lo * (n - 1)) \<le> fmul avg (of_int (n - 1))" "fmul avg (of_int (n - 1)) \<le> of_int (hi * (n - 1))"
    proof -
      have "(of_int (lo * (n - 1)) :: rat) \<le> avg * of_int (n - 1)" "avg * of_int (n - 1) \<le> of_int (hi * (n - 1))"
        using assms(1,2,6) by (simp_all only: of_int_mult) (intro mult_right_mono; simp)+
      moreover have "\<bar>lo * (n - 1)\<bar> < 2 ^ 53" "\<bar>hi * (n - 1)\<bar> < 2 ^ 53"
      proof -
        have "lo * (n - 1) \<le> lo * n" "hi * (n - 1) \<le> hi * n" using assms(5) hi0 by (intro mult_left_mono; simp)+
        moreover have "0 \<le> lo * (n - 1)" "0 \<le> hi * (n - 1)" using assms(5,6) hi0 by simp_all
        ultimately show "\<bar>lo * (n - 1)\<bar> < 2 ^ 53" "\<bar>hi * (n - 1)\<bar> < 2 ^ 53" using b by linarith+
      qed
      ultimately show "of_int (lo * (n - 1)) \<le> fmul avg (of_int (n - 1))" "fmul avg (of_int (n - 1)) \<le> of_int (hi * (n - 1))"
        unfolding fmul_def by - (rule fl64_ge_int fl64_le_int, assumption, assumption)+
    qed
    have s: "of_int (lo * n) \<le> fadd (fmul avg (of_int (n - 1))) (of_int r)"
      "fadd (fmul avg (of_int (n - 1))) (of_int r) \<le> of_int (hi * n)"
    proof -
      have "lo * n = lo * (n - 1) + lo" "hi * n = hi * (n - 1) + hi" by (simp_all add: algebra_simps)
      then have "(of_int (lo * n) :: rat) \<le> fmul avg (of_int (n - 1)) + of_int r"
        "fmul avg (of_int (n - 1)) + of_int r \<le> of_int (hi * n)"
        using m assms(3,4) by simp_all
      moreover have "\<bar>lo * n\<bar> < 2 ^ 53" "\<bar>hi * n\<bar> < 2 ^ 53" using b nn by simp_all
      ultimately show "of_int (lo * n) \<le> fadd (fmul avg (of_int (n - 1))) (of_int r)"
        "fadd (fmul avg (of_int (n - 1))) (of_int r) \<le> of_int (hi * n)"
        unfolding fadd_def by - (rule fl64_ge_int fl64_le_int, assumption, assumption)+
    qed
    let ?s = "fadd (fmul avg (of_int (n - 1))) (of_int r)"
    have "of_int lo \<le> ?s / of_int n" "?s / of_int n \<le> of_int hi"
      using s assms(6) by (simp_all add: pos_le_divide_eq pos_divide_le_eq)
    moreover have "\<bar>lo\<bar> < 2 ^ 53" "\<bar>hi\<bar> < 2 ^ 53" using b(1) assms hi0 by simp_all
    ultimately show ?thesis unfolding e fdiv_def by - (rule conjI, rule fl64_ge_int, assumption+, rule fl64_le_int, assumption+)
  qed
qed

text \<open>The answers of a run that arrive, and what is known of the average after them.\<close>

definition rtt_within :: "int \<Rightarrow> int \<Rightarrow> options_net \<Rightarrow> bool" where
  "rtt_within lo hi net = (case net of Answer (Some (st, rtt)) \<Rightarrow> lo \<le> rtt_milliseconds rtt \<and> rtt_milliseconds rtt \<le> hi | _ \<Rightarrow> True)"

definition avg_inv :: "int \<Rightarrow> int \<Rightarrow> health_checker \<Rightarrow> bool" where
  "avg_inv lo hi hc \<longleftrightarrow> (let s = hc_stats hc in 0 \<le> Successes s \<and> Successes s \<le> Checks s
     \<and> (0 < Successes s \<longrightarrow> of_int lo \<le> AvgRTTms s \<and> AvgRTTms s \<le> of_int hi))"

lemma avg_inv_ping:
  assumes "avg_inv lo hi hc" "rtt_within lo hi net" "0 \<le> lo" "hi * (Checks (hc_stats hc) + 1) < 2 ^ 53" "0 \<le> hi"
  shows "avg_inv lo hi (ping ok net hc)"
proof (cases "\<exists>st rtt. net = Answer (Some (st, rtt)) \<and> ok \<and> hc_client hc")
  case False
  then show ?thesis using assms(1)
    by (auto simp: avg_inv_def ping_def ping_failure_def sendOptionsWithClient_def Let_def
        split: options_net.splits option.splits)
next
  case True
  then obtain st rtt where n: "net = Answer (Some (st, rtt))" "ok" "hc_client hc" by blast
  let ?s = "hc_stats hc" and ?n = "Successes (hc_stats hc) + 1" and ?r = "rtt_milliseconds rtt"
  have r: "lo \<le> ?r" "?r \<le> hi" using assms(2) n by (simp_all add: rtt_within_def)
  have s: "0 \<le> Successes ?s" "Successes ?s \<le> Checks ?s" using assms(1) by (simp_all add: avg_inv_def Let_def)
  have "of_int lo \<le> fdiv (fadd (fmul (AvgRTTms ?s) (fint (?n - 1))) (fint ?r)) (fint ?n)
      \<and> fdiv (fadd (fmul (AvgRTTms ?s) (fint (?n - 1))) (fint ?r)) (fint ?n) \<le> of_int hi"
  proof (cases "Successes ?s = 0")
    case False
    have "hi * ?n \<le> hi * (Checks ?s + 1)" using s assms(5) by (intro mult_left_mono) simp_all
    then have "hi * ?n < 2 ^ 53" using assms(4) by simp
    with False s r assms(1,3) show ?thesis by (intro average_between) (simp_all add: avg_inv_def Let_def)
  next
    case True
    have "hi \<le> hi * (Checks ?s + 1)" using s assms(5) by (simp add: algebra_simps)
    then have "\<bar>?r\<bar> < 2 ^ 53" using assms(3,4) r by linarith
    then have "fint ?r = of_int ?r" "fint 1 = 1" "fl64 (of_int ?r) = of_int ?r"
      by (simp_all add: fint_exact fl64_of_int)
    with True r show ?thesis by (simp add: fmul_def fadd_def fdiv_def fint_def)
  qed
  then show ?thesis using n s by (simp add: avg_inv_def ping_def ping_success_def sendOptionsWithClient_def Let_def)
qed

lemma avg_inv_run:
  "avg_inv lo hi hc \<Longrightarrow> (\<And>net. net \<in> set nets \<Longrightarrow> rtt_within lo hi net) \<Longrightarrow> 0 \<le> lo \<Longrightarrow> 0 \<le> hi \<Longrightarrow>
    hi * (Checks (hc_stats hc) + int (length nets)) < 2 ^ 53 \<Longrightarrow> avg_inv lo hi (health_run ok nets hc)"
proof (induction nets arbitrary: hc)
  case Nil
  then show ?case by (simp add: health_run_def)
next
  case (Cons net nets)
  let ?c = "Checks (hc_stats hc)"
  have "hi * (?c + 1) \<le> hi * (?c + int (length (net # nets)))" using Cons.prems(4) by (intro mult_left_mono) simp_all
  then have "avg_inv lo hi (ping ok net hc)" using Cons.prems by (intro avg_inv_ping) simp_all
  moreover have "hi * (Checks (hc_stats (ping ok net hc)) + int (length nets)) < 2 ^ 53"
    using Cons.prems(5) ping_cfg [of ok net hc] by (simp add: ac_simps)
  ultimately show ?case using Cons.IH [of "ping ok net hc"] Cons.prems by (simp add: health_run_def)
qed

text \<open>Once a ping has succeeded, the average round-trip time, computed step by step in rounded arithmetic,
  lies between the smallest and the largest time of the answers, in milliseconds.\<close>
theorem average_rtt_bounds:
  assumes "\<And>net. net \<in> set nets \<Longrightarrow> rtt_within lo hi net" "0 \<le> lo" "0 \<le> hi" "hi * int (length nets) < 2 ^ 53"
    "0 < Successes (hc_stats (health_run ok nets (StartHealthCheck cfg client)))"
  shows "of_int lo \<le> AvgRTTms (hc_stats (health_run ok nets (StartHealthCheck cfg client)))
    \<and> AvgRTTms (hc_stats (health_run ok nets (StartHealthCheck cfg client))) \<le> of_int hi"
proof -
  have "avg_inv lo hi (StartHealthCheck cfg client)" "Checks (hc_stats (StartHealthCheck cfg client)) = 0"
    by (simp_all add: avg_inv_def StartHealthCheck_def)
  then have "avg_inv lo hi (health_run ok nets (StartHealthCheck cfg client))"
    using assms(1-4) by (intro avg_inv_run) simp_all
  with assms(5) show ?thesis by (simp add: avg_inv_def Let_def)
qed

theorem average_rtt_bounds_witness:
  "AvgRTTms (hc_stats (health_run True [Answer (Some (200, 3000000)), NoAnswer, Answer (Some (503, 8000000))]
      (StartHealthCheck \<lparr>hc_Interval = 0, hc_Timeout = 0, hc_MaxFailures = 0\<rparr> True))) \<le> 8"
proof -
  let ?nets = "[Answer (Some (200, 3000000)), NoAnswer, Answer (Some (503, 8000000))]"
  let ?hc = "health_run True ?nets (StartHealthCheck \<lparr>hc_Interval = 0, hc_Timeout = 0, hc_MaxFailures = 0\<rparr> True)"
  have s: "Successes (hc_stats ?hc) = 2"
    by (simp add: health_run_def ping_def ping_success_def ping_failure_def StartHealthCheck_def
        sendOptionsWithClient_def Let_def)
  have w: "rtt_within 3 8 net" if "net \<in> set ?nets" for net
    using that by (auto simp: rtt_within_def rtt_milliseconds_def signed_divide_int_def)
  have "AvgRTTms (hc_stats ?hc) \<le> of_int 8"
    by (rule conjunct2 [OF average_rtt_bounds [OF w]]) (use s in simp_all)
  then show ?thesis by simp
qed

text \<open>Every final answer makes the target healthy, whatever its status (also 4xx, 5xx and 6xx).\<close>
theorem any_status_is_healthy:
  assumes "hc_client hc"
  shows "IsHealthy (ping True (Answer (Some (status, rtt))) hc)
    \<and> Successes (hc_stats (ping True (Answer (Some (status, rtt))) hc)) = Successes (hc_stats hc) + 1"
  using assms by (simp add: ping_def ping_success_def sendOptionsWithClient_def IsHealthy_def Let_def)

theorem any_status_is_healthy_witness:
  "IsHealthy (ping True (Answer (Some (503, 1000000)))
     (StartHealthCheck \<lparr>hc_Interval = 0, hc_Timeout = 0, hc_MaxFailures = 1\<rparr> True))"
  by (rule conjunct1 [OF any_status_is_healthy]) (simp add: StartHealthCheck_def)

end
