(* ===== verification/Uas_Server.thy ===== *)
theory Uas_Server
  imports Uas Client Health
begin

text \<open>
  The plain answering server around its INVITE handler (\<open>NewServer\<close>, \<open>ListenAndServe\<close>, \<open>Close\<close> and
  \<open>handleOptions\<close> of \<open>sip/server.go\<close>): its defaults, its creation with every error exit, the address it
  listens on and its answer to OPTIONS.
\<close>

record server_config = uas_config +
  sv_ListenAddr :: string
  sv_Transport :: string
  sv_TLSConfig :: "tls_config option"

datatype server_error = ServerTLS tls_error | ServerUA | ServerCreate

definition server_defaults :: "string option \<Rightarrow> server_config \<Rightarrow> server_config" where
  "server_defaults route cfg =
     (let cfg = (if uas_Codec cfg = [] then cfg\<lparr>uas_Codec := ''PCMU''\<rparr> else cfg);
          cfg = (if uas_LocalIP cfg = [] then cfg\<lparr>uas_LocalIP := resolveLocalIP [] route\<rparr> else cfg)
      in if sv_ListenAddr cfg = [] then cfg\<lparr>sv_ListenAddr := ''0.0.0.0:5080''\<rparr> else cfg)"

text \<open>A server holds its configuration, the TLS settings of its user agent and the counters of its legs.
  The second component of the result says whether a user agent is left open.\<close>

record ('cert, 'pool) uas_server =
  us_cfg :: server_config
  us_tls :: "('cert, 'pool) go_tls option"
  us_legs :: uas

definition NewServer :: "('cert, 'pool) tls_files \<Rightarrow> sipgo_outcomes \<Rightarrow> string option \<Rightarrow> server_config
    \<Rightarrow> (server_error + ('cert, 'pool) uas_server) \<times> bool" where
  "NewServer files so route cfg0 =
     (let cfg = server_defaults route cfg0
      in case (if sv_Transport cfg = ''tls'' \<and> sv_TLSConfig cfg \<noteq> None
               then map_sum id Some (buildTLSConfig files (sv_TLSConfig cfg)) else Inr None) of
           Inl e \<Rightarrow> (Inl (ServerTLS e), False)
         | Inr tls \<Rightarrow>
             if \<not> so_ua so then (Inl ServerUA, False)
             else if \<not> so_server so then (Inl ServerCreate, False)
             else (Inr \<lparr>us_cfg = cfg, us_tls = tls, us_legs = uas0\<rparr>, True))"

text \<open>Transport and address that are passed to sipgo.\<close>

definition ListenAndServe :: "('cert, 'pool) uas_server \<Rightarrow> string \<times> string" where
  "ListenAndServe srv =
     (let transport = sv_Transport (us_cfg srv);
          transport = (if transport = [] then ''udp'' else transport)
      in (transport, sv_ListenAddr (us_cfg srv)))"

text \<open>\<open>handleOptions\<close>: status, reason and the header that is added.\<close>

definition handleOptions :: "int \<times> string \<times> (string \<times> string) list" where
  "handleOptions = (200, ''OK'', [(''Allow'', ''INVITE, ACK, BYE, CANCEL, OPTIONS, INFO'')])"

section \<open>Properties\<close>

text \<open>
  A failed creation leaves no user agent open. A server that was created has a codec, an address for
  its offers and one to listen on, no legs, keeps every setting that was given, and presents the
  TLS settings exactly when it is configured for TLS and has some.
\<close>
theorem server_created:
  "case NewServer files so route cfg of
     (Inl e, held) \<Rightarrow> \<not> held
   | (Inr srv, held) \<Rightarrow> held \<and> us_legs srv = uas0
       \<and> uas_Codec (us_cfg srv) = (if uas_Codec cfg = [] then ''PCMU'' else uas_Codec cfg)
       \<and> (route \<noteq> Some [] \<longrightarrow> uas_LocalIP (us_cfg srv) \<noteq> []) \<and> sv_ListenAddr (us_cfg srv) \<noteq> []
       \<and> (us_tls srv = None \<longleftrightarrow> sv_Transport cfg \<noteq> ''tls'' \<or> sv_TLSConfig cfg = None)"
proof -
  have ip: "uas_LocalIP (server_defaults route cfg) = [] \<Longrightarrow> route = Some []"
    by (auto simp: server_defaults_def resolveLocalIP_def resolveLocalIPAuto_def localOutboundIP_def Let_def
        split: if_splits option.splits)
  have codec: "uas_Codec (server_defaults route cfg) = (if uas_Codec cfg = [] then ''PCMU'' else uas_Codec cfg)"
    by (simp add: server_defaults_def Let_def)
  have rest: "sv_ListenAddr (server_defaults route cfg) \<noteq> []" "sv_Transport (server_defaults route cfg) = sv_Transport cfg"
    "sv_TLSConfig (server_defaults route cfg) = sv_TLSConfig cfg"
    by (simp_all add: server_defaults_def Let_def)
  show ?thesis
    using ip codec rest by (cases "buildTLSConfig files (sv_TLSConfig cfg)") (auto simp: NewServer_def Let_def split: sum.split)
qed

text \<open>A server pinged by \<open>SendOptions\<close> counts as answering, whatever its load: the reply does not depend on the legs.\<close>
lemma options_answered:
  "sendOptionsWithClient True (Answer (Some (fst handleOptions, rtt))) = Inr \<lparr>opt_StatusCode = 200, opt_RTT = rtt\<rparr>"
  by (simp add: sendOptionsWithClient_def handleOptions_def)

end
