(* ===== verification/Invite.thy ===== *)
theory Invite
  imports Sip_Msg Sdp Sdp_Srtp
begin

text \<open>
  The INVITE of an outgoing call (\<open>sip/invite.go\<close>, \<open>sip/early_media.go\<close>): the request with its identity
  headers, the exchange up to the ACK, and the provisional media address. URI parsing and the
  transactions are sipgo's: their outcomes are arguments.
\<close>

section \<open>The request\<close>

record invite_options =
  io_LocalIP :: string
  io_AOR :: string
  io_Username :: string
  io_DisplayName :: string
  io_Transport :: string

definition empty_uri :: uri where
  "empty_uri = \<lparr>Scheme = [], User = [], Host = [], Port = 0, UriParams = []\<rparr>"

text \<open>The From address and the user of the Contact; nothing if the AOR cannot be parsed.\<close>

definition resolveInviteIdentity :: "(string \<Rightarrow> uri option) \<Rightarrow> uri \<Rightarrow> invite_options \<Rightarrow> (uri \<times> string) option" where
  "resolveInviteIdentity ParseUri toURI opts =
     (if io_AOR opts \<noteq> [] then
        map_option (\<lambda>aor. (aor\<lparr>UriParams := []\<rparr>, User aor)) (ParseUri (io_AOR opts))
      else if io_Username opts = [] then Some (empty_uri, ''k6load'')
      else Some (\<lparr>Scheme = (if Scheme toURI = [] then ''sip'' else Scheme toURI), User = io_Username opts,
                  Host = Host toURI, Port = 0, UriParams = []\<rparr>, io_Username opts))"

definition contactScheme :: "uri \<Rightarrow> string \<Rightarrow> string" where
  "contactScheme fromURI transport =
     (if transport = ''tls'' then ''sips'' else if Scheme fromURI \<noteq> [] then Scheme fromURI else ''sip'')"

definition appendHeaderIfMissing :: "string \<Rightarrow> string \<Rightarrow> request \<Rightarrow> request" where
  "appendHeaderIfMissing name val req =
     (case header_value name (req_Headers req) of Some _ \<Rightarrow> req | None \<Rightarrow> AppendHeader name val req)"

text \<open>\<open>tag\<close> is the value that \<open>GenerateTagN\<close> drew; the display name stands in From and Contact.\<close>

definition buildInviteRequest ::
    "(string \<Rightarrow> uri option) \<Rightarrow> string \<Rightarrow> uri \<Rightarrow> string \<Rightarrow> invite_options \<Rightarrow> (string \<times> string) list \<Rightarrow> request option" where
  "buildInviteRequest ParseUri newTag toURI sdpBody opts extraHeaders =
     map_option (\<lambda>(fromURI, contactUser).
       let req = SetBody sdpBody (NewRequest INVITE toURI);
           req = req\<lparr>req_To := Some \<lparr>Address = toURI\<lparr>UriParams := []\<rparr>, DisplayName = [], tag = None\<rparr>\<rparr>;
           req = (if User fromURI \<noteq> [] then
               req\<lparr>req_From := Some \<lparr>Address = fromURI, DisplayName = io_DisplayName opts, tag = Some newTag\<rparr>\<rparr> else req);
           req = req\<lparr>req_Contact := Some \<lparr>Address = \<lparr>Scheme = contactScheme fromURI (io_Transport opts), User = contactUser,
               Host = io_LocalIP opts, Port = 0, UriParams = [(''ob'', [])]\<rparr>, DisplayName = io_DisplayName opts, tag = None\<rparr>\<rparr>;
           req = appendHeaderIfMissing ''Allow'' ''INVITE, ACK, BYE, CANCEL, OPTIONS, INFO, REFER, MESSAGE'' req;
           req = appendHeaderIfMissing ''Supported'' ''replaces, norefersub'' req;
           req = appendHeaderIfMissing ''User-Agent'' ''github.com/srthorat/xk6-sip-media/1.0'' req
       in fold (\<lambda>(n, v). AppendHeader n v) extraHeaders req)
     (resolveInviteIdentity ParseUri toURI opts)"

section \<open>The exchange\<close>

record invite_result =
  ir_Dialog :: dialog
  ir_RemoteIP :: string
  ir_RemotePort :: int
  ir_PtMap :: "byte \<Rightarrow> string option"

datatype invite_error = BadAOR | WriteFailed | WaitFailed | UnexpectedStatus int | InviteAckFailed | NoRemoteMedia

text \<open>
  What the network does with the INVITE: whether it could be written, the responses on the way to
  the final one, whether the wait ended without error, the response then stored in the dialog,
  and whether the ACK could be written. \<open>sent\<close> is the request as sipgo completed it.
\<close>

record invite_net =
  in_written :: bool
  in_sent :: request
  in_provisional :: "response list"
  in_answered :: bool
  in_response :: "response option"
  in_ack_ok :: bool

text \<open>What is left behind at the peer: the ACK was sent, the dialog was closed on our side.\<close>

record invite_trace =
  it_acked :: bool
  it_closed :: bool

definition finish_invite :: "invite_net \<Rightarrow> (invite_error + invite_result) \<times> invite_trace" where
  "finish_invite net =
     (if \<not> in_answered net then (Inl WaitFailed, \<lparr>it_acked = False, it_closed = True\<rparr>)
      else case in_response net of
        None \<Rightarrow> (Inl (UnexpectedStatus 0), \<lparr>it_acked = False, it_closed = True\<rparr>)
      | Some resp \<Rightarrow>
          if StatusCode resp \<noteq> 200 then (Inl (UnexpectedStatus (StatusCode resp)), \<lparr>it_acked = False, it_closed = True\<rparr>)
          else if \<not> in_ack_ok net then (Inl InviteAckFailed, \<lparr>it_acked = False, it_closed = False\<rparr>)
          else
            let sdp = ParseSDP (resp_Body resp)
            in if connectionIP sdp = [] \<or> sdp_port sdp = 0
               then (Inl NoRemoteMedia, \<lparr>it_acked = True, it_closed = False\<rparr>)
               else (Inr \<lparr>ir_Dialog = \<lparr>InviteRequest = Some (in_sent net), InviteResponse = Some resp\<rparr>,
                       ir_RemoteIP = connectionIP sdp, ir_RemotePort = sdp_port sdp, ir_PtMap = ptMap sdp\<rparr>,
                     \<lparr>it_acked = True, it_closed = False\<rparr>))"

definition nothing_sent :: invite_trace where
  "nothing_sent = \<lparr>it_acked = False, it_closed = False\<rparr>"

definition SendINVITE :: "request option \<Rightarrow> invite_net \<Rightarrow> (invite_error + invite_result) \<times> invite_trace" where
  "SendINVITE req net = (case req of
       None \<Rightarrow> (Inl BadAOR, nothing_sent)
     | Some _ \<Rightarrow> if \<not> in_written net then (Inl WriteFailed, nothing_sent) else finish_invite net)"

record early_media =
  em_RemoteIP :: string
  em_RemotePort :: int
  em_SRTPConfig :: "srtp_config option"

text \<open>\<open>OnResponse\<close>: every 183 with a usable description replaces what was noted before.\<close>

definition on_response :: "response \<Rightarrow> early_media option \<Rightarrow> early_media option" where
  "on_response resp early =
     (if StatusCode resp = 183 \<and> resp_Body resp \<noteq> [] then
        (let sdp = ParseSDP (resp_Body resp) in
         if connectionIP sdp \<noteq> [] \<and> sdp_port sdp \<noteq> 0 then
           Some \<lparr>em_RemoteIP = connectionIP sdp, em_RemotePort = sdp_port sdp,
             em_SRTPConfig = (let inlineKey = ParseSDPCrypto (resp_Body resp) in
               if inlineKey = [] then None else (case ParseSRTPConfig inlineKey of Inr cfg \<Rightarrow> Some cfg | Inl _ \<Rightarrow> None))\<rparr>
         else early)
      else early)"

definition SendINVITEWithEarlyMedia ::
    "request option \<Rightarrow> invite_net \<Rightarrow> (invite_error + invite_result \<times> early_media option) \<times> invite_trace" where
  "SendINVITEWithEarlyMedia req net =
     (case SendINVITE req net of
        (Inl e, t) \<Rightarrow> (Inl e, t)
      | (Inr r, t) \<Rightarrow> (Inr (r, fold on_response (in_provisional net) None), t))"

section \<open>Properties\<close>

text \<open>
  The identity of a call: with an AOR, the From address is the AOR and the Contact user its user,
  whatever the user name; without it, the user name at the host of the target; without both there
  is no From header and the Contact user is k6load. The Contact always points to the local
  address, with scheme sips exactly on TLS unless the identity brings it, and the body and all
  extra headers are in the request.
\<close>
theorem invite_identity:
  assumes "buildInviteRequest ParseUri t toURI sdp opts hdrs = Some req"
  shows "Method req = INVITE \<and> Recipient req = toURI \<and> req_Body req = sdp \<and> set hdrs \<subseteq> set (req_Headers req)
    \<and> (\<exists>c. req_Contact req = Some c \<and> Host (Address c) = io_LocalIP opts \<and> (io_Transport opts = ''tls'' \<longrightarrow> Scheme (Address c) = ''sips'')
        \<and> User (Address c) = (if io_AOR opts \<noteq> [] then User (the (ParseUri (io_AOR opts)))
            else if io_Username opts \<noteq> [] then io_Username opts else ''k6load''))
    \<and> (io_AOR opts = [] \<and> io_Username opts = [] \<longrightarrow> req_From req = None)
    \<and> (\<forall>f. req_From req = Some f \<longrightarrow> tag f = Some t \<and> User (Address f) =
         (if io_AOR opts \<noteq> [] then User (the (ParseUri (io_AOR opts))) else io_Username opts))"
proof -
  from assms obtain fromURI contactUser where id: "resolveInviteIdentity ParseUri toURI opts = Some (fromURI, contactUser)"
    by (auto simp: buildInviteRequest_def)
  have fold: "Method (fold (\<lambda>(n, v). AppendHeader n v) hs r) = Method r \<and> Recipient (fold (\<lambda>(n, v). AppendHeader n v) hs r) = Recipient r
      \<and> req_Body (fold (\<lambda>(n, v). AppendHeader n v) hs r) = req_Body r \<and> req_Contact (fold (\<lambda>(n, v). AppendHeader n v) hs r) = req_Contact r
      \<and> req_From (fold (\<lambda>(n, v). AppendHeader n v) hs r) = req_From r
      \<and> req_Headers (fold (\<lambda>(n, v). AppendHeader n v) hs r) = req_Headers r @ hs" for hs :: "(string \<times> string) list" and r :: request
    by (induction hs arbitrary: r) (auto simp: AppendHeader_def)
  have missing: "Method (appendHeaderIfMissing n v r) = Method r \<and> Recipient (appendHeaderIfMissing n v r) = Recipient r
      \<and> req_Body (appendHeaderIfMissing n v r) = req_Body r \<and> req_Contact (appendHeaderIfMissing n v r) = req_Contact r
      \<and> req_From (appendHeaderIfMissing n v r) = req_From r" for n v and r :: request
    by (simp add: appendHeaderIfMissing_def AppendHeader_def split: option.split)
  have "Method req = INVITE" "Recipient req = toURI" "req_Body req = sdp" "set hdrs \<subseteq> set (req_Headers req)"
    "req_Contact req = Some \<lparr>Address = \<lparr>Scheme = contactScheme fromURI (io_Transport opts), User = contactUser,
       Host = io_LocalIP opts, Port = 0, UriParams = [(''ob'', [])]\<rparr>, DisplayName = io_DisplayName opts, tag = None\<rparr>"
    "req_From req = (if User fromURI \<noteq> [] then Some \<lparr>Address = fromURI, DisplayName = io_DisplayName opts, tag = Some t\<rparr> else None)"
    using assms by (auto simp: buildInviteRequest_def id Let_def fold missing SetBody_def NewRequest_def)
  moreover have "User fromURI = (if io_AOR opts \<noteq> [] then User (the (ParseUri (io_AOR opts))) else io_Username opts)"
    "contactUser = (if io_AOR opts \<noteq> [] then User (the (ParseUri (io_AOR opts)))
       else if io_Username opts \<noteq> [] then io_Username opts else ''k6load'')"
    using id by (auto simp: resolveInviteIdentity_def empty_uri_def split: if_splits)
  ultimately show ?thesis by (auto simp: contactScheme_def)
qed

text \<open>
  An INVITE succeeds exactly when it was written, answered with 200, acknowledged and the answer
  describes a media address; then the result carries that address. Every refusal closes the
  dialog. But when the call was answered and acknowledged and the description is of no use, the
  caller gets an error while the peer stays in the call: no BYE is sent and the dialog is not closed.
\<close>
theorem invite_outcome:
  "(\<forall>r. fst (SendINVITE (Some req) net) = Inr r \<longleftrightarrow>
       in_written net \<and> in_answered net \<and> in_ack_ok net \<and> (\<exists>resp. in_response net = Some resp \<and> StatusCode resp = 200
         \<and> connectionIP (ParseSDP (resp_Body resp)) \<noteq> [] \<and> sdp_port (ParseSDP (resp_Body resp)) \<noteq> 0
         \<and> r = \<lparr>ir_Dialog = \<lparr>InviteRequest = Some (in_sent net), InviteResponse = Some resp\<rparr>,
                ir_RemoteIP = connectionIP (ParseSDP (resp_Body resp)), ir_RemotePort = sdp_port (ParseSDP (resp_Body resp)),
                ir_PtMap = ptMap (ParseSDP (resp_Body resp))\<rparr>))
   \<and> (\<forall>code. fst (SendINVITE (Some req) net) = Inl (UnexpectedStatus code) \<longrightarrow> it_closed (snd (SendINVITE (Some req) net)))
   \<and> (fst (SendINVITE (Some req) net) = Inl NoRemoteMedia \<longrightarrow>
        it_acked (snd (SendINVITE (Some req) net)) \<and> \<not> it_closed (snd (SendINVITE (Some req) net)))"
  by (auto simp: SendINVITE_def finish_invite_def Let_def split: option.splits)

section \<open>Witnesses\<close>

definition target_uri :: uri where
  "target_uri = \<lparr>Scheme = ''sip'', User = ''ivr'', Host = ''pbx'', Port = 0, UriParams = []\<rparr>"

definition plain_options :: invite_options where
  "plain_options = \<lparr>io_LocalIP = ''10.0.0.7'', io_AOR = [], io_Username = ''alice'', io_DisplayName = [], io_Transport = ''udp''\<rparr>"

theorem invite_identity_witness:
  "\<exists>req c. buildInviteRequest (\<lambda>_. None) ''t'' target_uri [] plain_options [(''X-Id'', ''7'')] = Some req
     \<and> req_Contact req = Some c \<and> User (Address c) = ''alice'' \<and> Host (Address c) = ''10.0.0.7''"
proof -
  obtain req where r: "buildInviteRequest (\<lambda>_. None) ''t'' target_uri [] plain_options [(''X-Id'', ''7'')] = Some req"
    by (simp add: buildInviteRequest_def resolveInviteIdentity_def plain_options_def)
  from invite_identity [OF r] r show ?thesis by (auto simp: plain_options_def)
qed

definition useless_answer :: invite_net where
  "useless_answer = \<lparr>in_written = True, in_sent = NewRequest INVITE target_uri, in_provisional = [], in_answered = True,
     in_response = Some \<lparr>StatusCode = 200, resp_From = None, resp_To = None, resp_Contact = None, resp_Headers = [], resp_Body = []\<rparr>,
     in_ack_ok = True\<rparr>"

theorem invite_outcome_witness:
  "fst (SendINVITE (Some (NewRequest INVITE target_uri)) useless_answer) = Inl NoRemoteMedia
    \<and> it_acked (snd (SendINVITE (Some (NewRequest INVITE target_uri)) useless_answer))
    \<and> \<not> it_closed (snd (SendINVITE (Some (NewRequest INVITE target_uri)) useless_answer))"
proof -
  have "connectionIP (ParseSDP []) = []"
    by (simp add: ParseSDP_def Split_def pt_default_def line_empty)
  then have "fst (SendINVITE (Some (NewRequest INVITE target_uri)) useless_answer) = Inl NoRemoteMedia"
    by (simp add: SendINVITE_def finish_invite_def useless_answer_def)
  with invite_outcome [of "NewRequest INVITE target_uri" useless_answer] show ?thesis by blast
qed

end
