(* ===== verification/Dial.thy ===== *)
theory Dial
  imports Hold Invite Srtp_Sender Uas Client
begin

text \<open>
  Setting up a call (\<open>sip/dial.go\<close>, \<open>sip/call.go\<close>): the steps of \<open>Dial\<close> in the order of the code, each
  with the outcome the environment gives it, and the resources that are held when it returns: the
  SIP client, the RTP socket, the codec and the answered call at the peer. Then the media the call
  starts with.
\<close>

section \<open>Looping the media\<close>

text \<open>
  Durations are nanoseconds. The slice with a negative length is a panic: the result is \<open>None\<close>.
  \<open>loop_fill\<close> appends whole copies until enough frames are there.
\<close>

function loop_fill :: "bytes list \<Rightarrow> nat \<Rightarrow> bytes list \<Rightarrow> bytes list" where
  "loop_fill payloads needed out =
     (if length out < needed \<and> payloads \<noteq> [] then loop_fill payloads needed (out @ payloads) else out)"
  by auto
termination by (relation "measure (\<lambda>(p, n, out). n - length out)") (auto simp: diff_less_mono2 length_greater_0_conv)

declare loop_fill.simps [simp del]

definition loopPayloads :: "bytes list \<Rightarrow> int \<Rightarrow> bytes list option" where
  "loopPayloads payloads dur =
     (if payloads = [] then Some []
      else if dur = 0 then Some payloads
      else
        let needed = dur sdiv 20000000 + 10
        in if needed \<le> int (length payloads) then (if needed < 0 then None else Some (take (nat needed) payloads))
           else Some (take (nat needed) (loop_fill payloads (nat needed) [])))"

lemma loop_fill_replicate:
  "payloads \<noteq> [] \<Longrightarrow> \<exists>k. loop_fill payloads needed out = out @ concat (replicate k payloads)
     \<and> needed \<le> length (loop_fill payloads needed out)"
proof (induction payloads needed out rule: loop_fill.induct)
  case (1 payloads needed out)
  show ?case
  proof (cases "length out < needed")
    case True
    with 1 obtain k where "loop_fill payloads needed (out @ payloads) = (out @ payloads) @ concat (replicate k payloads)"
      "needed \<le> length (loop_fill payloads needed (out @ payloads))" by blast
    with True 1(2) show ?thesis
      by (intro exI [of _ "Suc k"]) (simp add: loop_fill.simps [of payloads needed out])
  next
    case False
    then show ?thesis by (intro exI [of _ 0]) (simp add: loop_fill.simps [of payloads needed out])
  qed
qed

lemma nth_concat_replicate: "i < k * length xs \<Longrightarrow> concat (replicate k xs) ! i = xs ! (i mod length xs)"
proof (induction k arbitrary: i)
  case (Suc k)
  show ?case
  proof (cases "i < length xs")
    case False
    with Suc have "concat (replicate k xs) ! (i - length xs) = xs ! ((i - length xs) mod length xs)" by simp
    with False show ?thesis by (simp add: nth_append le_mod_geq)
  qed (simp add: nth_append)
qed simp

text \<open>
  With a positive duration the media repeats cyclically: there are exactly ten frames more than fit
  into the duration, so that 20 ms frames cover it with up to 200 ms to spare, and frame i is frame
  i modulo the length of the file. Without a duration the file is played once; without media there
  are no frames. A negative duration of 220 ms or more panics.
\<close>
theorem loop_covers_duration:
  assumes "payloads \<noteq> []" "0 < dur"
  shows "\<exists>out. loopPayloads payloads dur = Some out \<and> int (length out) = dur div 20000000 + 10
     \<and> dur \<le> 20000000 * int (length out) \<and> (\<forall>i < length out. out ! i = payloads ! (i mod length payloads))
     \<and> loopPayloads payloads 0 = Some payloads \<and> loopPayloads [] dur = Some []
     \<and> (220000000 \<le> dur \<longrightarrow> loopPayloads payloads (- dur) = None)"
proof -
  let ?n = "dur sdiv 20000000 + 10"
  have sdiv: "dur sdiv 20000000 = dur div 20000000" using assms(2) by (simp add: signed_divide_int_def)
  have n0: "0 \<le> ?n" using assms(2) by (simp add: sdiv)
  obtain k where k: "loop_fill payloads (nat ?n) [] = concat (replicate k payloads)" "nat ?n \<le> length (concat (replicate k payloads))"
    using loop_fill_replicate [OF assms(1), of "nat ?n" "[]"] by auto
  let ?out = "if ?n \<le> int (length payloads) then take (nat ?n) payloads else take (nat ?n) (concat (replicate k payloads))"
  have out: "loopPayloads payloads dur = Some ?out"
    using assms n0 k(1) by (simp add: loopPayloads_def Let_def)
  have len: "length ?out = nat ?n" using k(2) n0 by auto
  have cyc: "?out ! i = payloads ! (i mod length payloads)" if "i < length ?out" for i
  proof (cases "?n \<le> int (length payloads)")
    case True
    with that len n0 show ?thesis by simp
  next
    case False
    have "i < k * length payloads" using that len k(2) by (simp add: length_concat sum_list_replicate)
    with False that len nth_concat_replicate [of i k payloads] show ?thesis by simp
  qed
  have "dur \<le> 20000000 * ?n"
    using pos_mod_bound [of 20000000 dur] mult_div_mod_eq [of 20000000 dur] by (simp add: sdiv distrib_left)
  then have "dur \<le> 20000000 * int (length ?out)" unfolding len using n0 by simp
  moreover have "loopPayloads payloads (- dur) = None" if "220000000 \<le> dur"
  proof -
    have "(- dur) sdiv 20000000 = - (dur div 20000000)" using assms(2) by (simp add: signed_divide_int_def)
    moreover have "11 \<le> dur div 20000000" using that by simp
    ultimately show ?thesis using assms by (simp add: loopPayloads_def Let_def)
  qed
  moreover have "loopPayloads payloads 0 = Some payloads" "loopPayloads [] dur = Some []"
    using assms(1) by (simp_all add: loopPayloads_def)
  moreover have "int (length ?out) = dur div 20000000 + 10" unfolding len using n0 sdiv by simp
  ultimately show ?thesis using out cyc by (intro exI [of _ ?out] conjI allI impI) simp_all
qed

theorem loop_covers_duration_witness:
  "\<exists>out. loopPayloads [[1], [2], [3]] 100000000 = Some out \<and> length out = 15 \<and> out ! 14 = [3]"
proof -
  from loop_covers_duration [of "[[1], [2], [3]]" 100000000] obtain out where
    "loopPayloads [[1], [2], [3]] 100000000 = Some out" "length out = 15"
    "\<forall>i < length out. out ! i = [[1], [2], [3]] ! (i mod length [[1], [2], [3 :: byte]])" by auto
  then show ?thesis by simp
qed

section \<open>Configuration and environment\<close>

text \<open>The configuration of a call. A map of headers is a list of pairs in the order in which Go iterates
  over it. \<open>RetransmitConfig\<close> is left out: no setting has an
  effect (\<open>applyRetransmitConfig_nothing\<close>).\<close>

record call_config =
  cfg_Target :: string
  cfg_AOR :: string
  cfg_DisplayName :: string
  cfg_Username :: string
  cfg_AudioFile :: string
  cfg_Codec :: string
  cfg_Direction :: string
  cfg_Duration :: int
  cfg_DTMFSequence :: "string list"
  cfg_DTMFInitialDelay :: int
  cfg_DTMFInterDigitGap :: int
  cfg_LocalIP :: string
  cfg_RTPPort :: int
  cfg_Password :: string
  cfg_TLSConfig :: "tls_config option"
  cfg_IPv6 :: bool
  cfg_Transport :: string
  cfg_SIPPort :: int
  cfg_AudioMode :: string
  cfg_PCAPFile :: string
  cfg_CustomHeaders :: "(string \<times> string) list"
  cfg_SRTP :: bool
  cfg_RTCP :: bool
  cfg_EarlyMedia :: bool
  cfg_EnablePESQ :: bool
  cfg_CancelAfter :: int
  cfg_IVRExpect :: "string list"

text \<open>
  The outcomes of what \<open>Dial\<close> calls: codec libraries, the PCAP and audio loaders, the SIP client, up
  to five attempts to bind the RTP socket (the port, or a failure), the recorder file, the random key bytes, URI
  parsing, the INVITE, whether the context had expired, the random SSRC, and the SIP client's
  routes of the local machine. Go iterates over a map in any order: \<open>de_pt\<close> and \<open>de_telPT\<close> are the payload types
  that the two searches hit, if any.
\<close>

record dial_env =
  de_ipv6 :: string
  de_route :: "string option"
  de_opus :: bool
  de_g729 :: bool
  de_pcap :: "(bytes list \<times> byte) option"
  de_audio :: "bytes list option"
  de_client :: bool
  de_binds :: "int option list"
  de_random :: "bytes option"
  de_ParseUri :: "string \<Rightarrow> uri option"
  de_tag :: string
  de_net :: invite_net
  de_expired :: bool
  de_ssrc :: u32
  de_pt :: "byte option"
  de_telPT :: "byte option"
  de_rtcp :: bool
  de_create :: bool

datatype dial_error =
    CodecFailed | PcapMissing | PcapFailed | AudioFailed | ClientFailed | BindFailed | SrtpSdpFailed | TargetFailed
  | InviteFailed invite_error | RemoteKeyFailed | SrtpSenderFailed | SrtpReceiverFailed

text \<open>What is held when \<open>Dial\<close> returns; \<open>r_peer\<close>: the peer was answered an ACK and got no BYE.\<close>

record resources =
  r_codec :: bool
  r_client :: bool
  r_conn :: bool
  r_peer :: bool

text \<open>How the media starts, and after which time the call hangs itself up, if it does. The goroutine of a
  DTMF sequence is the subject of \<open>Dtmf_Sequence\<close>.\<close>

datatype sender_plan = EchoPlan | PlayPlan bool "bytes list" byte u32

record media_plan =
  mp_recvSRTP :: bool
  mp_sender :: sender_plan
  mp_rtcp :: bool
  mp_remote :: "string \<times> int"
  mp_hangup :: "int option"

section \<open>Steps up to the offer\<close>

definition dial_localIP :: "call_config \<Rightarrow> dial_env \<Rightarrow> string" where
  "dial_localIP cfg env = resolveLocalIPAuto (cfg_LocalIP cfg) (cfg_IPv6 cfg) (de_ipv6 env) (de_route env)"

definition dial_codec :: "call_config \<Rightarrow> dial_env \<Rightarrow> dial_error + codec" where
  "dial_codec cfg env =
     (if cfg_AudioMode cfg = ''pcap'' then Inr PCMU
      else case NewCodec (de_opus env) (de_g729 env) (if cfg_Codec cfg = [] then ''PCMU'' else cfg_Codec cfg) of
        Inl _ \<Rightarrow> Inl CodecFailed
      | Inr cod \<Rightarrow> Inr cod)"

definition dial_load :: "call_config \<Rightarrow> dial_env \<Rightarrow> dial_error + bytes list \<times> byte" where
  "dial_load cfg env =
     (if cfg_AudioMode cfg = ''pcap'' then
        (if cfg_PCAPFile cfg = [] then Inl PcapMissing
         else case de_pcap env of None \<Rightarrow> Inl PcapFailed | Some x \<Rightarrow> Inr x)
      else if cfg_AudioMode cfg = ''echo'' \<or> cfg_AudioMode cfg = ''silent'' then Inr ([], 0)
      else if cfg_AudioFile cfg \<noteq> [] then
        (case de_audio env of None \<Rightarrow> Inl AudioFailed | Some p \<Rightarrow> Inr (p, 0))
      else Inr ([], 0))"

text \<open>The first attempt that succeeds, of at most five.\<close>

fun bind_loop :: "nat \<Rightarrow> int option list \<Rightarrow> int option" where
  "bind_loop (Suc n) (Some p # bs) = Some p"
| "bind_loop (Suc n) (None # bs) = bind_loop n bs"
| "bind_loop _ _ = None"

definition sdp_pt :: "call_config \<Rightarrow> codec \<Rightarrow> byte \<Rightarrow> byte" where
  "sdp_pt cfg cod pcapPT = (if cfg_AudioMode cfg = ''pcap'' \<and> pcapPT > 0 then pcapPT else codec_PayloadType cod)"

definition dial_offer :: "call_config \<Rightarrow> dial_env \<Rightarrow> codec \<Rightarrow> byte \<Rightarrow> int \<Rightarrow> (string \<times> srtp_config option) option" where
  "dial_offer cfg env cod pcapPT rtpPort =
     (let dir = (if cfg_Direction cfg = [] then DirSendRecv else cfg_Direction cfg)
      in if cfg_SRTP cfg then
           map_option (\<lambda>(sdp, key). (sdp, Some key)) (BuildSDPWithSRTP (de_random env) (dial_localIP cfg env) rtpPort (sdp_pt cfg cod pcapPT) dir)
         else Some (BuildSDPWithDirection (dial_localIP cfg env) rtpPort (sdp_pt cfg cod pcapPT) dir, None))"

definition dial_transport :: "call_config \<Rightarrow> string" where
  "dial_transport cfg = (if cfg_Transport cfg = [] then ''udp'' else cfg_Transport cfg)"

definition dial_target :: "call_config \<Rightarrow> uri \<Rightarrow> uri" where
  "dial_target cfg u =
     (let tr = dial_transport cfg;
          u = (if cfg_SIPPort cfg > 0 then u\<lparr>Port := cfg_SIPPort cfg\<rparr>
               else if tr = ''tls'' \<and> Port u = 0 then u\<lparr>Port := 5061\<rparr> else u);
          u = (if tr \<noteq> ''udp'' then u\<lparr>UriParams := UriParams u @ [(''transport'', tr)]\<rparr> else u)
      in if tr = ''tls'' then u\<lparr>Scheme := ''sips''\<rparr> else u)"

definition dial_options :: "call_config \<Rightarrow> dial_env \<Rightarrow> invite_options" where
  "dial_options cfg env = \<lparr>io_LocalIP = dial_localIP cfg env, io_AOR = cfg_AOR cfg, io_Username = cfg_Username cfg,
     io_DisplayName = cfg_DisplayName cfg, io_Transport = dial_transport cfg\<rparr>"

definition dial_request :: "call_config \<Rightarrow> dial_env \<Rightarrow> uri \<Rightarrow> string \<Rightarrow> request option" where
  "dial_request cfg env toURI offer =
     buildInviteRequest (de_ParseUri env) (de_tag env) (dial_target cfg toURI) offer (dial_options cfg env)
       ((''Content-Type'', ''application/sdp'') # cfg_CustomHeaders cfg)"

section \<open>After the answer\<close>

text \<open>The remote key of the answer: none, one that cannot be parsed, or a configuration.\<close>

definition dial_remote_key :: "call_config \<Rightarrow> invite_result \<Rightarrow> dial_error + srtp_config option" where
  "dial_remote_key cfg r = (case InviteResponse (ir_Dialog r) of
       Some resp \<Rightarrow>
         if cfg_SRTP cfg then
           (let inlineKey = ParseSDPCrypto (resp_Body resp) in
            if inlineKey = [] then Inr None
            else case ParseSRTPConfig inlineKey of Inl _ \<Rightarrow> Inl RemoteKeyFailed | Inr key \<Rightarrow> Inr (Some key))
         else Inr None
     | None \<Rightarrow> Inr None)"

definition dial_srtp :: "srtp_config option \<Rightarrow> srtp_config option \<Rightarrow> u32 \<Rightarrow> dial_error + srtp_session option \<times> srtp_session option" where
  "dial_srtp localKey remoteKey ssrc = (case localKey of
       None \<Rightarrow> Inr (None, None)
     | Some key \<Rightarrow> (case NewSRTPSenderSession (Some key) ssrc of
         Inl _ \<Rightarrow> Inl SrtpSenderFailed
       | Inr sender \<Rightarrow> (case remoteKey of
           None \<Rightarrow> Inr (Some sender, None)
         | Some rkey \<Rightarrow> (case NewSRTPReceiverSession (Some rkey) ssrc of
             Inl _ \<Rightarrow> Inl SrtpReceiverFailed
           | Inr rcv \<Rightarrow> Inr (Some sender, Some rcv)))))"

definition remote_media :: "invite_result \<Rightarrow> early_media option \<Rightarrow> string \<times> int" where
  "remote_media r early = (case early of
       Some em \<Rightarrow> if em_RemoteIP em \<noteq> [] then (em_RemoteIP em, em_RemotePort em) else (ir_RemoteIP r, ir_RemotePort r)
     | None \<Rightarrow> (ir_RemoteIP r, ir_RemotePort r))"

definition ts_increment :: "codec \<Rightarrow> u32" where
  "ts_increment cod = of_int (codec_SampleRate cod sdiv 1000 * 20)"

definition dial_sender :: "call_config \<Rightarrow> codec \<Rightarrow> byte option \<Rightarrow> bytes list \<Rightarrow> byte \<Rightarrow> bool \<Rightarrow> sender_plan option" where
  "dial_sender cfg cod negotiated payloads pcapPT srtp =
     (let sendPT = (case negotiated of Some pt \<Rightarrow> pt | None \<Rightarrow> codec_PayloadType cod)
      in if cfg_AudioMode cfg = ''echo'' then Some EchoPlan
         else if cfg_AudioMode cfg = ''silent'' then
           map_option (\<lambda>ps. PlayPlan srtp ps sendPT (ts_increment cod)) (loopPayloads [replicate 160 0] (cfg_Duration cfg))
         else
           map_option (\<lambda>ps. PlayPlan srtp ps (if cfg_AudioMode cfg = ''pcap'' \<and> pcapPT > 0 then pcapPT else sendPT) (ts_increment cod))
             (loopPayloads payloads (cfg_Duration cfg)))"

definition dial_collector :: "call_config \<Rightarrow> byte option \<Rightarrow> dtmf_collector option" where
  "dial_collector cfg negotiated =
     (if cfg_IVRExpect cfg = [] then None
      else Some (NewDTMFCollector (case negotiated of Some pt \<Rightarrow> pt | None \<Rightarrow> DTMFPayloadType)))"

definition record_path :: "int \<Rightarrow> string" where
  "record_path rtpPort = ''/tmp/xk6-sip-'' @ show_int rtpPort @ ''.raw''"

text \<open>Step 21: a positive duration starts a goroutine that hangs up after it, unless the call has stopped
  before. \<open>auto_hangup\<close> is what it has done to a call when \<open>elapsed\<close> nanoseconds have passed.\<close>

definition hangup_after :: "call_config \<Rightarrow> int option" where
  "hangup_after cfg = (if cfg_Duration cfg > 0 then Some (cfg_Duration cfg) else None)"

definition auto_hangup :: "media_plan option \<Rightarrow> int \<Rightarrow> call \<Rightarrow> call" where
  "auto_hangup plan elapsed h = (case Option.bind plan mp_hangup of
       None \<Rightarrow> h
     | Some d \<Rightarrow> if d \<le> elapsed \<and> \<not> c_stop h then Hangup h else h)"

section \<open>Dial\<close>

text \<open>The handle of a call, with the fields that the composite literal leaves out at zero.\<close>

definition call_handle :: "call_config \<Rightarrow> dial_env \<Rightarrow> codec \<Rightarrow> int \<Rightarrow> invite_result \<Rightarrow> srtp_session option \<Rightarrow> srtp_session option \<Rightarrow> call" where
  "call_handle cfg env cod rtpPort r sender rcv =
     \<lparr>c_localIP = dial_localIP cfg env, c_rtpPort = rtpPort, c_cod = cod, c_IVRExpect = cfg_IVRExpect cfg,
      c_dialog = Some (ir_Dialog r), c_sess = NewSession (de_ssrc env), c_sendStats = send_stats0, c_recvStats = rtp_stats0,
      c_rtcp = None,
      c_recorder = NewRecorder (\<lambda>_. de_create env) (if cfg_EnablePESQ cfg then record_path rtpPort else []),
      c_dtmfColl = dial_collector cfg (de_telPT env), c_srtpSender = sender, c_srtpReceiver = rcv,
      c_stop = False, c_done = False, c_active = True, c_onHold = False, c_result = call_result0, c_sdpVer = 0, c_wire = []\<rparr>"

text \<open>The handle of a call that was cancelled while it rang: only the configuration, the client and \<open>done\<close> are set.\<close>

definition cancelled_handle :: "call_config \<Rightarrow> call" where
  "cancelled_handle cfg =
     \<lparr>c_localIP = [], c_rtpPort = 0, c_cod = PCMU, c_IVRExpect = cfg_IVRExpect cfg, c_dialog = None, c_sess = NewSession 0,
      c_sendStats = send_stats0, c_recvStats = rtp_stats0, c_rtcp = None, c_recorder = None, c_dtmfColl = None,
      c_srtpSender = None, c_srtpReceiver = None, c_stop = False, c_done = True, c_active = False, c_onHold = False,
      c_result = call_result0, c_sdpVer = 0, c_wire = []\<rparr>"

type_synonym dial_outcome = "(dial_error + call \<times> media_plan option) \<times> resources"

definition held :: "bool \<Rightarrow> bool \<Rightarrow> bool \<Rightarrow> bool \<Rightarrow> resources" where
  "held cod client conn peer = \<lparr>r_codec = cod, r_client = client, r_conn = conn, r_peer = peer\<rparr>"

text \<open>From the 200 OK to the running media. The outer \<open>None\<close> is the panic in \<open>loopPayloads\<close>.\<close>

definition dial_start ::
    "call_config \<Rightarrow> dial_env \<Rightarrow> codec \<Rightarrow> bytes list \<times> byte \<Rightarrow> int \<Rightarrow> srtp_config option \<Rightarrow> invite_result \<times> early_media option \<Rightarrow> dial_outcome option" where
  "dial_start cfg env cod media rtpPort localKey answer =
     (case dial_remote_key cfg (fst answer) of
        Inl e \<Rightarrow> Some (Inl e, held True False True False)
      | Inr remoteKey \<Rightarrow> (case dial_srtp localKey remoteKey (de_ssrc env) of
          Inl e \<Rightarrow> Some (Inl e, held True True False True)
        | Inr (sender, rcv) \<Rightarrow>
            map_option (\<lambda>plan.
              (Inr (call_handle cfg env cod rtpPort (fst answer) sender rcv,
                    Some \<lparr>mp_recvSRTP = (rcv \<noteq> None), mp_sender = plan, mp_rtcp = (cfg_RTCP cfg \<and> de_rtcp env),
                          mp_remote = remote_media (fst answer) (snd answer), mp_hangup = hangup_after cfg\<rparr>),
               held True True True True))
            (dial_sender cfg cod (de_pt env) (fst media) (snd media) (sender \<noteq> None))))"

definition dial_invite ::
    "call_config \<Rightarrow> dial_env \<Rightarrow> codec \<Rightarrow> bytes list \<times> byte \<Rightarrow> int \<Rightarrow> string \<times> srtp_config option \<Rightarrow> uri \<Rightarrow> dial_outcome option" where
  "dial_invite cfg env cod media rtpPort offer toURI =
     (let req = dial_request cfg env toURI (fst offer);
          (answer, trace) = (if cfg_EarlyMedia cfg then SendINVITEWithEarlyMedia req (de_net env)
            else (case SendINVITE req (de_net env) of (Inl e, t) \<Rightarrow> (Inl e, t) | (Inr r, t) \<Rightarrow> (Inr (r, None), t)))
      in case answer of
           Inl e \<Rightarrow>
             if cfg_CancelAfter cfg > 0 \<and> de_expired env
             then Some (Inr (cancelled_handle cfg, None), held True False True (it_acked trace))
             else Some (Inl (InviteFailed e), held True False True (it_acked trace))
         | Inr r \<Rightarrow> dial_start cfg env cod media rtpPort (snd offer) r)"

definition Dial :: "call_config \<Rightarrow> dial_env \<Rightarrow> dial_outcome option" where
  "Dial cfg env = (case dial_codec cfg env of
       Inl e \<Rightarrow> Some (Inl e, held False False False False)
     | Inr cod \<Rightarrow> (case dial_load cfg env of
         Inl e \<Rightarrow> Some (Inl e, held True False False False)
       | Inr media \<Rightarrow>
           if \<not> de_client env then Some (Inl ClientFailed, held True False False False)
           else (case bind_loop 5 (de_binds env) of
             None \<Rightarrow> Some (Inl BindFailed, held True False False False)
           | Some rtpPort \<Rightarrow> (case dial_offer cfg env cod (snd media) rtpPort of
               None \<Rightarrow> Some (Inl SrtpSdpFailed, held True False True False)
             | Some offer \<Rightarrow> (case de_ParseUri env (cfg_Target cfg) of
                 None \<Rightarrow> Some (Inl TargetFailed, held True False True False)
               | Some toURI \<Rightarrow> dial_invite cfg env cod media rtpPort offer toURI)))))"

text \<open>\<open>StartCall\<close>: an error, or the call that is waited for.\<close>

definition StartCall :: "call_config \<Rightarrow> dial_env \<Rightarrow> (dial_error + call) option" where
  "StartCall cfg env = map_option (\<lambda>(r, _). map_sum id fst r) (Dial cfg env)"

section \<open>What a failed call leaves behind\<close>

lemma invite_acked:
  "fst (SendINVITE req net) = Inl e \<Longrightarrow> it_acked (snd (SendINVITE req net)) = (e = NoRemoteMedia)"
  by (auto simp: SendINVITE_def finish_invite_def nothing_sent_def Let_def split: option.splits if_splits)

lemma early_acked:
  "fst (SendINVITEWithEarlyMedia req net) = Inl e \<Longrightarrow> it_acked (snd (SendINVITEWithEarlyMedia req net)) = (e = NoRemoteMedia)"
  using invite_acked [of req net e]
  by (cases "SendINVITE req net"; cases "fst (SendINVITE req net)") (auto simp: SendINVITEWithEarlyMedia_def)

lemma dial_start_error:
  assumes "dial_start cfg env cod media rtpPort localKey answer = Some (Inl e, r)"
  shows "e = RemoteKeyFailed \<and> r = held True False True False
    \<or> e \<in> {SrtpSenderFailed, SrtpReceiverFailed} \<and> r = held True True False True"
proof (cases "dial_remote_key cfg (fst answer)")
  case (Inl x)
  then have "x = RemoteKeyFailed" by (auto simp: dial_remote_key_def Let_def split: option.splits if_splits sum.splits)
  with Inl assms show ?thesis by (simp add: dial_start_def)
next
  case (Inr remoteKey)
  show ?thesis
  proof (cases "dial_srtp localKey remoteKey (de_ssrc env)")
    case (Inl x)
    then have "x \<in> {SrtpSenderFailed, SrtpReceiverFailed}" by (auto simp: dial_srtp_def split: option.splits sum.splits)
    with Inl Inr assms show ?thesis by (simp add: dial_start_def)
  next
    case (Inr x)
    with \<open>dial_remote_key cfg (fst answer) = Inr remoteKey\<close> assms show ?thesis
      by (cases x) (auto simp: dial_start_def)
  qed
qed

lemma dial_invite_error:
  assumes "dial_invite cfg env cod media rtpPort offer toURI = Some (Inl e, r)"
  shows "e = RemoteKeyFailed \<and> r = held True False True False
    \<or> e \<in> {SrtpSenderFailed, SrtpReceiverFailed} \<and> r = held True True False True
    \<or> (\<exists>x. e = InviteFailed x \<and> r = held True False True (x = NoRemoteMedia))"
proof -
  let ?req = "dial_request cfg env toURI (fst offer)"
  show ?thesis
  proof (cases "cfg_EarlyMedia cfg")
    case True
    obtain a t where s: "SendINVITEWithEarlyMedia ?req (de_net env) = (a, t)" by fastforce
    with True assms early_acked [of ?req "de_net env"] show ?thesis
      by (cases a) (auto simp: dial_invite_def split: if_splits dest: dial_start_error)
  next
    case False
    obtain a t where s: "SendINVITE ?req (de_net env) = (a, t)" by fastforce
    with False assms invite_acked [of ?req "de_net env"] show ?thesis
      by (cases a) (auto simp: dial_invite_def split: if_splits dest: dial_start_error)
  qed
qed

text \<open>C5: 
  Every error of \<open>Dial\<close> tells exactly what stays open. The RTP socket leaks on each error from the
  offer on, so with every call that is refused, not answered or sent to an unparsable target; when
  an SRTP session cannot be created it is the SIP client that leaks, and the answered call gets no
  BYE; the same peer stays in the call when its answer names no media address. The codec is never
  closed on an error.
\<close>
theorem dial_error_leaks:
  assumes "Dial cfg env = Some (Inl e, r)"
  shows "(r_conn r \<longleftrightarrow> e \<in> {SrtpSdpFailed, TargetFailed, RemoteKeyFailed} \<or> (\<exists>x. e = InviteFailed x))
    \<and> (r_client r \<longleftrightarrow> e \<in> {SrtpSenderFailed, SrtpReceiverFailed})
    \<and> (r_peer r \<longleftrightarrow> e \<in> {SrtpSenderFailed, SrtpReceiverFailed, InviteFailed NoRemoteMedia})
    \<and> (r_codec r \<longleftrightarrow> e \<noteq> CodecFailed)"
proof -
  have c: "dial_codec cfg env = Inl x \<Longrightarrow> x = CodecFailed" for x
    by (auto simp: dial_codec_def split: if_splits sum.splits)
  have l: "dial_load cfg env = Inl x \<Longrightarrow> x \<in> {PcapMissing, PcapFailed, AudioFailed}" for x
    by (auto simp: dial_load_def split: if_splits option.splits)
  show ?thesis
    using assms unfolding Dial_def
    by (auto simp: held_def dest!: c l dial_invite_error split: sum.splits if_splits option.splits)
qed

lemma dial_cancelled:
  assumes "Dial cfg env = Some (Inr (h, None), r)"
  shows "0 < cfg_CancelAfter cfg \<and> de_expired env \<and> h = cancelled_handle cfg \<and> r_conn r \<and> \<not> r_client r"
proof -
  have start: "dial_start cfg env cod media port key answer \<noteq> Some (Inr (h, None), r)" for cod media port key answer
    by (auto simp: dial_start_def split: sum.splits)
  have "dial_invite cfg env cod media port offer toURI = Some (Inr (h, None), r) \<Longrightarrow>
      0 < cfg_CancelAfter cfg \<and> de_expired env \<and> h = cancelled_handle cfg \<and> r_conn r \<and> \<not> r_client r" for cod media port offer toURI
    by (auto simp: dial_invite_def held_def start Let_def split: sum.splits if_splits prod.splits)
  moreover from assms obtain cod media port offer toURI where "dial_invite cfg env cod media port offer toURI = Some (Inr (h, None), r)"
    by (auto simp: Dial_def split: sum.splits if_splits option.splits)
  ultimately show ?thesis by blast
qed

text \<open>A call given up while it rings returns a finished handle without a dialog, with the client closed and
  the RTP socket still open; nothing can close it later, since the handle does not hold it.\<close>
theorem cancelled_call_leaks_socket:
  assumes "Dial cfg env = Some (Inr (h, None), r)"
  shows "0 < cfg_CancelAfter cfg \<and> de_expired env \<and> \<not> c_active h \<and> c_done h \<and> c_dialog h = None
    \<and> c_result h = call_result0 \<and> r_conn r \<and> \<not> r_client r"
  using dial_cancelled [OF assms] by (simp add: cancelled_handle_def)

section \<open>What an answered call starts with\<close>

lemma dial_started:
  assumes "Dial cfg env = Some (Inr (h, Some plan), r)"
  obtains cod media port key ans where "dial_codec cfg env = Inr cod" "dial_load cfg env = Inr media"
    "bind_loop 5 (de_binds env) = Some port" "dial_start cfg env cod media port key ans = Some (Inr (h, Some plan), r)"
    "(if cfg_EarlyMedia cfg
      then \<exists>req t. SendINVITEWithEarlyMedia req (de_net env) = (Inr ans, t)
      else \<exists>req t. SendINVITE req (de_net env) = (Inr (fst ans), t) \<and> snd ans = None)"
proof -
  from assms obtain cod media port offer toURI where s: "dial_codec cfg env = Inr cod" "dial_load cfg env = Inr media"
    "bind_loop 5 (de_binds env) = Some port" "dial_invite cfg env cod media port offer toURI = Some (Inr (h, Some plan), r)"
    by (auto simp: Dial_def split: sum.splits if_splits option.splits)
  let ?req = "dial_request cfg env toURI (fst offer)"
  show ?thesis
  proof (cases "cfg_EarlyMedia cfg")
    case True
    obtain a t where a: "SendINVITEWithEarlyMedia ?req (de_net env) = (a, t)" by fastforce
    with True s(4) obtain ans where "a = Inr ans" "dial_start cfg env cod media port (snd offer) ans = Some (Inr (h, Some plan), r)"
      by (cases a) (auto simp: dial_invite_def split: if_splits)
    with True a that [OF s(1-3), of "snd offer" ans] show ?thesis by auto
  next
    case False
    obtain a t where a: "SendINVITE ?req (de_net env) = (a, t)" by fastforce
    with False s(4) obtain ir where "a = Inr ir" "dial_start cfg env cod media port (snd offer) (ir, None) = Some (Inr (h, Some plan), r)"
      by (cases a) (auto simp: dial_invite_def split: if_splits)
    with False a that [OF s(1-3), of "snd offer" "(ir, None)"] show ?thesis by auto
  qed
qed

lemma invite_result_facts:
  assumes "SendINVITE req net = (Inr r, t)"
  shows "\<exists>resp. in_response net = Some resp \<and> StatusCode resp = 200 \<and> ir_Dialog r = \<lparr>InviteRequest = Some (in_sent net), InviteResponse = Some resp\<rparr>
    \<and> ir_RemoteIP r = connectionIP (ParseSDP (resp_Body resp)) \<and> ir_RemotePort r = sdp_port (ParseSDP (resp_Body resp))
    \<and> ir_PtMap r = ptMap (ParseSDP (resp_Body resp))"
  using assms by (auto simp: SendINVITE_def finish_invite_def Let_def split: option.splits if_splits)

lemma early_result_facts:
  assumes "SendINVITEWithEarlyMedia req net = (Inr ans, t)"
  shows "SendINVITE req net = (Inr (fst ans), t) \<and> snd ans = fold on_response (in_provisional net) None"
  using assms by (cases "SendINVITE req net"; cases "fst (SendINVITE req net)") (auto simp: SendINVITEWithEarlyMedia_def)

lemma dial_start_ok:
  assumes "dial_start cfg env cod media port key ans = Some (Inr (h, Some plan), r)"
  obtains sender rcv where "h = call_handle cfg env cod port (fst ans) sender rcv" "r = held True True True True"
    "mp_recvSRTP plan \<longleftrightarrow> rcv \<noteq> None" "mp_remote plan = remote_media (fst ans) (snd ans)"
    "dial_sender cfg cod (de_pt env) (fst media) (snd media) (sender \<noteq> None) = Some (mp_sender plan)"
    "\<exists>rkey. dial_srtp key rkey (de_ssrc env) = Inr (sender, rcv)" "mp_hangup plan = hangup_after cfg"
proof -
  from assms obtain rkey where k: "dial_remote_key cfg (fst ans) = Inr rkey"
    by (auto simp: dial_start_def split: sum.splits)
  with assms obtain sender rcv where s: "dial_srtp key rkey (de_ssrc env) = Inr (sender, rcv)"
    by (auto simp: dial_start_def split: sum.splits)
  with assms k obtain p where p: "dial_sender cfg cod (de_pt env) (fst media) (snd media) (sender \<noteq> None) = Some p"
    "h = call_handle cfg env cod port (fst ans) sender rcv" "r = held True True True True"
    "plan = \<lparr>mp_recvSRTP = (rcv \<noteq> None), mp_sender = p, mp_rtcp = (cfg_RTCP cfg \<and> de_rtcp env),
       mp_remote = remote_media (fst ans) (snd ans), mp_hangup = hangup_after cfg\<rparr>"
    by (auto simp: dial_start_def)
  show ?thesis by (rule that [of sender rcv]) (use p s in auto)
qed

lemma dial_ok:
  assumes "Dial cfg env = Some (Inr (h, Some plan), r)"
  obtains cod media port ir early sender rcv resp key rkey where
    "dial_codec cfg env = Inr cod" "dial_load cfg env = Inr media" "bind_loop 5 (de_binds env) = Some port"
    "h = call_handle cfg env cod port ir sender rcv" "r = held True True True True" "mp_recvSRTP plan \<longleftrightarrow> rcv \<noteq> None"
    "dial_sender cfg cod (de_pt env) (fst media) (snd media) (sender \<noteq> None) = Some (mp_sender plan)"
    "dial_srtp key rkey (de_ssrc env) = Inr (sender, rcv)"
    "in_response (de_net env) = Some resp" "ir_Dialog ir = \<lparr>InviteRequest = Some (in_sent (de_net env)), InviteResponse = Some resp\<rparr>"
    "early = (if cfg_EarlyMedia cfg then fold on_response (in_provisional (de_net env)) None else None)"
    "mp_remote plan = (case early of Some em \<Rightarrow> if em_RemoteIP em \<noteq> [] then (em_RemoteIP em, em_RemotePort em)
        else (connectionIP (ParseSDP (resp_Body resp)), sdp_port (ParseSDP (resp_Body resp)))
      | None \<Rightarrow> (connectionIP (ParseSDP (resp_Body resp)), sdp_port (ParseSDP (resp_Body resp))))"
    "mp_hangup plan = hangup_after cfg"
proof -
  from dial_started [OF assms] obtain cod media port key ans where s: "dial_codec cfg env = Inr cod" "dial_load cfg env = Inr media"
    "bind_loop 5 (de_binds env) = Some port" "dial_start cfg env cod media port key ans = Some (Inr (h, Some plan), r)"
    "if cfg_EarlyMedia cfg
      then \<exists>req t. SendINVITEWithEarlyMedia req (de_net env) = (Inr ans, t)
      else \<exists>req t. SendINVITE req (de_net env) = (Inr (fst ans), t) \<and> snd ans = None" by blast
  obtain req t where i: "SendINVITE req (de_net env) = (Inr (fst ans), t)"
    "snd ans = (if cfg_EarlyMedia cfg then fold on_response (in_provisional (de_net env)) None else None)"
  proof (cases "cfg_EarlyMedia cfg")
    case True
    with s(5) obtain req t where "SendINVITEWithEarlyMedia req (de_net env) = (Inr ans, t)" by auto
    from early_result_facts [OF this] that [of req t] True show ?thesis by simp
  next
    case False
    with s(5) obtain req t where "SendINVITE req (de_net env) = (Inr (fst ans), t)" "snd ans = None" by auto
    with that [of req t] False show ?thesis by simp
  qed
  from invite_result_facts [OF i(1)] obtain resp where resp: "in_response (de_net env) = Some resp"
    "ir_Dialog (fst ans) = \<lparr>InviteRequest = Some (in_sent (de_net env)), InviteResponse = Some resp\<rparr>"
    "ir_RemoteIP (fst ans) = connectionIP (ParseSDP (resp_Body resp))" "ir_RemotePort (fst ans) = sdp_port (ParseSDP (resp_Body resp))"
    by blast
  from dial_start_ok [OF s(4)] obtain sender rcv rkey where d: "h = call_handle cfg env cod port (fst ans) sender rcv" "r = held True True True True"
    "mp_recvSRTP plan \<longleftrightarrow> rcv \<noteq> None" "mp_remote plan = remote_media (fst ans) (snd ans)"
    "dial_sender cfg cod (de_pt env) (fst media) (snd media) (sender \<noteq> None) = Some (mp_sender plan)"
    "dial_srtp key rkey (de_ssrc env) = Inr (sender, rcv)" "mp_hangup plan = hangup_after cfg" by metis
  show ?thesis
    by (rule that [OF s(1-3) d(1-3,5,6) resp(1,2) i(2) _ d(7)]) (simp add: d(4) remote_media_def resp(3,4) split: option.split)
qed

text \<open>C18: 
  A call that \<open>Dial\<close> returns with media is fresh: active, established, not on hold, with session
  version 0, so that the properties of hold and unhold apply to it. Its local port is the one the
  socket was bound to, everything is held open, and its media goes to the address of the last
  usable 183 when early media was asked for and one arrived, and otherwise to the address of the
  answer. It hangs itself up after the configured duration, if that is positive. (sipgo sets the
  Call-ID of the INVITE.)
\<close>
theorem dial_established:
  assumes "Dial cfg env = Some (Inr (h, Some plan), r)" "req_CallID (in_sent (de_net env)) \<noteq> None"
  shows "fresh_call h \<and> c_active h \<and> bind_loop 5 (de_binds env) = Some (c_rtpPort h) \<and> r = held True True True True
    \<and> mp_hangup plan = (if 0 < cfg_Duration cfg then Some (cfg_Duration cfg) else None)
    \<and> (\<exists>resp. in_response (de_net env) = Some resp \<and> ResponseBody h = resp_Body resp
        \<and> mp_remote plan = (case (if cfg_EarlyMedia cfg then fold on_response (in_provisional (de_net env)) None else None) of
             Some em \<Rightarrow> if em_RemoteIP em \<noteq> [] then (em_RemoteIP em, em_RemotePort em)
               else (connectionIP (ParseSDP (resp_Body resp)), sdp_port (ParseSDP (resp_Body resp)))
           | None \<Rightarrow> (connectionIP (ParseSDP (resp_Body resp)), sdp_port (ParseSDP (resp_Body resp)))))"
proof -
  obtain cod port ir early sender rcv resp where d:
    "bind_loop 5 (de_binds env) = Some port" "h = call_handle cfg env cod port ir sender rcv" "r = held True True True True"
    "in_response (de_net env) = Some resp" "ir_Dialog ir = \<lparr>InviteRequest = Some (in_sent (de_net env)), InviteResponse = Some resp\<rparr>"
    "early = (if cfg_EarlyMedia cfg then fold on_response (in_provisional (de_net env)) None else None)"
    "mp_remote plan = (case early of Some em \<Rightarrow> if em_RemoteIP em \<noteq> [] then (em_RemoteIP em, em_RemotePort em)
        else (connectionIP (ParseSDP (resp_Body resp)), sdp_port (ParseSDP (resp_Body resp)))
      | None \<Rightarrow> (connectionIP (ParseSDP (resp_Body resp)), sdp_port (ParseSDP (resp_Body resp))))"
    "mp_hangup plan = hangup_after cfg"
    by (rule dial_ok [OF assms(1)])
  have "fresh_call h" "c_active h" "c_rtpPort h = port" "ResponseBody h = resp_Body resp"
    using assms(2) d(5) by (simp_all add: d(2) call_handle_def fresh_call_def established_def ResponseBody_def)
  then show ?thesis using d(1,3,4) d(7) [unfolded d(6)] d(8) [unfolded hangup_after_def] by (intro conjI exI [of _ resp]; simp)
qed

section \<open>Payload types\<close>

text \<open>What a search of the map for a name can hit: one of the payload types with that name, or none if there is none.\<close>

definition pt_choice :: "(byte \<Rightarrow> string option) \<Rightarrow> string \<Rightarrow> byte option \<Rightarrow> bool" where
  "pt_choice m name chosen = (case chosen of Some pt \<Rightarrow> m pt = Some name | None \<Rightarrow> \<forall>pt. m pt \<noteq> Some name)"

text \<open>
  When the answer is the description a server of this program gives for the same codec, the search
  has one possible result: in every order of the map the caller sends with the payload type of its
  codec, the one the server announced, and with a timestamp step of 20 ms (960 for Opus, 160 else).
\<close>
theorem own_answer_payload_type:
  assumes "word_ok ip" "0 \<le> port" "port < 2 ^ 63"
    and "pt_choice (ptMap (ParseSDP (BuildSDP ip port (codec_PayloadType cod)))) (codec_Name cod) chosen"
    and "cfg_AudioMode cfg = []" "loopPayloads payloads (cfg_Duration cfg) = Some out"
  shows "dial_sender cfg cod chosen payloads pcapPT srtp =
    Some (PlayPlan srtp out (codec_PayloadType cod) (if cod = Opus then 960 else 160))"
proof -
  have "direction_ok DirSendRecv" by (simp add: direction_ok_def)
  from sdp_roundtrip_map [OF assms(1-3) this, of "codec_PayloadType cod" 0]
  have m: "ptMap (ParseSDP (BuildSDP ip port (codec_PayloadType cod)))
      = [0 \<mapsto> ''PCMU'', 8 \<mapsto> ''PCMA'', codec_PayloadType cod \<mapsto> ToUpper (fst (offer_codec (codec_PayloadType cod)))]"
    by (simp add: BuildSDP_def)
  have name: "ToUpper (fst (offer_codec (codec_PayloadType cod))) = codec_Name cod" by (rule offered_name)
  have "chosen = Some (codec_PayloadType cod)"
  proof (cases chosen)
    case None
    with assms(4) have "\<forall>pt. ptMap (ParseSDP (BuildSDP ip port (codec_PayloadType cod))) pt \<noteq> Some (codec_Name cod)"
      by (simp add: pt_choice_def)
    then have "ptMap (ParseSDP (BuildSDP ip port (codec_PayloadType cod))) (codec_PayloadType cod) \<noteq> Some (codec_Name cod)" by blast
    with m name show ?thesis by simp
  next
    case (Some pt)
    with assms(4) m name show ?thesis by (cases cod) (auto simp: pt_choice_def split: if_splits)
  qed
  moreover have "ts_increment cod = (if cod = Opus then 960 else 160)"
    by (cases cod) (simp_all add: ts_increment_def signed_divide_int_def)
  ultimately show ?thesis using assms(5,6) by (simp add: dial_sender_def)
qed

text \<open>
  In mode silent every frame is 160 zero bytes, whatever the codec: the payload of a silent G.711
  frame is 0xFF or 0xD5, a G.729 frame has 20 bytes, and 160 zero bytes are no Opus frame.
\<close>
theorem silent_mode_frames:
  assumes "cfg_AudioMode cfg = ''silent''" "0 < cfg_Duration cfg"
  shows "\<exists>n pt. dial_sender cfg cod chosen payloads pcapPT srtp = Some (PlayPlan srtp (replicate n (replicate 160 0)) pt (ts_increment cod))
    \<and> int n = cfg_Duration cfg div 20000000 + 10"
proof -
  let ?n = "cfg_Duration cfg sdiv 20000000 + 10"
  have sdiv: "cfg_Duration cfg sdiv 20000000 = cfg_Duration cfg div 20000000"
    using assms(2) by (simp add: signed_divide_int_def)
  have n: "1 < ?n" using pos_imp_zdiv_nonneg_iff [of 20000000 "cfg_Duration cfg"] assms(2) by (simp add: sdiv)
  obtain k where k: "loop_fill [replicate 160 0] (nat ?n) [] = concat (replicate k [replicate 160 0])"
    "nat ?n \<le> length (loop_fill [replicate 160 0] (nat ?n) [])"
    using loop_fill_replicate [of "[replicate 160 0]" "nat ?n" "[]"] by auto
  have c: "concat (replicate k [replicate 160 (0 :: byte)]) = replicate k (replicate 160 0)" by (induction k) simp_all
  have "take (nat ?n) (loop_fill [replicate 160 0] (nat ?n) []) = replicate (nat ?n) (replicate 160 0)"
    using k(2) by (simp only: k(1) c) (simp add: min_def)
  then have "loopPayloads [replicate 160 0] (cfg_Duration cfg) = Some (replicate (nat ?n) (replicate 160 0))"
    using assms(2) n by (simp add: loopPayloads_def Let_def)
  then show ?thesis using assms(1) n by (auto simp: dial_sender_def sdiv intro!: exI [of _ "nat ?n"])
qed

section \<open>Keys\<close>

lemma xor_cancel: "(x :: byte) XOR y = x XOR z \<longleftrightarrow> y = z"
  by (metis xor.assoc xor_self_eq xor.left_neutral)

lemma iv_ssrc_inj:
  assumes "length salt = 14" "deriveIV salt a i = deriveIV salt b i"
  shows "a = b"
proof -
  have "iv_prefix salt a i = iv_prefix salt b i"
    using assms by (simp add: deriveIV_block ctr_block_def length_iv_prefix)
  then have "iv_prefix salt a i ! k = iv_prefix salt b i ! k" for k by simp
  from this [of 4] this [of 5] this [of 6] this [of 7] assms(1) have
    "be32 a ! 0 = be32 b ! 0" "be32 a ! 1 = be32 b ! 1" "be32 a ! 2 = be32 b ! 2" "be32 a ! 3 = be32 b ! 3"
    by (simp_all add: iv_prefix_def xor_bytes_def be32_def be48_def xor_cancel)
  then have "be32 a = be32 b" by (simp add: be32_def)
  then show ?thesis using get32_at [of "[]" 0 a "[]"] get32_at [of "[]" 0 b "[]"] by simp
qed

text \<open>
  With a remote key, the receiver of a call is keyed with the call's own SSRC: for every packet
  index its counter block differs from the one a peer with the same key and any other SSRC
  encrypts with, so what it decrypts is not what the peer sent unless both drew the same SSRC.
\<close>
theorem receiver_has_own_ssrc:
  assumes "Dial cfg env = Some (Inr (h, Some plan), r)" "c_srtpReceiver h = Some rcv" "ssrc \<noteq> SSRC (c_sess h)"
  shows "srtp_ssrc rcv = SSRC (c_sess h) \<and> mp_recvSRTP plan
    \<and> deriveIV (MasterSalt (srtp_cfg rcv)) (srtp_ssrc rcv) index \<noteq> deriveIV (MasterSalt (srtp_cfg rcv)) ssrc index"
proof -
  obtain cod port ir sender rcv' key rkey where d: "h = call_handle cfg env cod port ir sender rcv'" "mp_recvSRTP plan \<longleftrightarrow> rcv' \<noteq> None"
    "dial_srtp key rkey (de_ssrc env) = Inr (sender, rcv')"
    by (rule dial_ok [OF assms(1)])
  then have rcv: "rcv' = Some rcv" "SSRC (c_sess h) = de_ssrc env"
    using assms(2) by (simp_all add: call_handle_def NewSession_def)
  with d(3) obtain k where "NewSRTPReceiverSession (Some k) (de_ssrc env) = Inr rcv"
    by (auto simp: dial_srtp_def split: option.splits sum.splits)
  then have ok: "srtp_ok rcv" "srtp_ssrc rcv = de_ssrc env"
    unfolding NewSRTPReceiverSession_def by (rule NewSRTPSession_ok)+
  then have "length (MasterSalt (srtp_cfg rcv)) = 14" by (simp add: srtp_ok_def)
  with iv_ssrc_inj [of "MasterSalt (srtp_cfg rcv)" "srtp_ssrc rcv" index ssrc] ok(2) rcv d(2) assms(3) show ?thesis by auto
qed

section \<open>Witnesses\<close>

definition dial_cfg :: call_config where
  "dial_cfg = \<lparr>cfg_Target = ''sip:ivr@pbx'', cfg_AOR = [], cfg_DisplayName = [], cfg_Username = [], cfg_AudioFile = ''a.wav'',
     cfg_Codec = [], cfg_Direction = [], cfg_Duration = 0, cfg_DTMFSequence = [], cfg_DTMFInitialDelay = 0,
     cfg_DTMFInterDigitGap = 0, cfg_LocalIP = [], cfg_RTPPort = 0, cfg_Password = [], cfg_TLSConfig = None, cfg_IPv6 = False,
     cfg_Transport = [], cfg_SIPPort = 0, cfg_AudioMode = [],
     cfg_PCAPFile = [], cfg_CustomHeaders = [], cfg_SRTP = False, cfg_RTCP = False, cfg_EarlyMedia = False,
     cfg_EnablePESQ = False, cfg_CancelAfter = 0, cfg_IVRExpect = []\<rparr>"

definition answered :: "int \<Rightarrow> string \<Rightarrow> invite_net" where
  "answered code sdp = \<lparr>in_written = True, in_sent = (NewRequest INVITE target_uri)\<lparr>req_CallID := Some ''id''\<rparr>, in_provisional = [],
     in_answered = True, in_response = Some \<lparr>StatusCode = code, resp_From = None, resp_To = None, resp_Contact = None,
       resp_Headers = [], resp_Body = sdp\<rparr>, in_ack_ok = True\<rparr>"

definition dial_env0 :: "invite_net \<Rightarrow> dial_env" where
  "dial_env0 net = \<lparr>de_ipv6 = [], de_route = Some ''10.0.0.7'', de_opus = True, de_g729 = True, de_pcap = None, de_audio = Some [replicate 160 1],
     de_client = True, de_binds = [None, Some 21000], de_random = Some sample_key, de_ParseUri = (\<lambda>_. Some target_uri), de_tag = ''t'',
     de_net = net, de_expired = False, de_ssrc = 7, de_pt = Some 0, de_telPT = None, de_rtcp = False, de_create = True\<rparr>"

lemma dial_to_invite:
  "Dial (dial_cfg\<lparr>cfg_CancelAfter := c\<rparr>) (dial_env0 net\<lparr>de_expired := b\<rparr>)
    = dial_invite (dial_cfg\<lparr>cfg_CancelAfter := c\<rparr>) (dial_env0 net\<lparr>de_expired := b\<rparr>) PCMU ([replicate 160 1], 0) 21000
        (BuildSDPWithDirection ''10.0.0.7'' 21000 0 DirSendRecv, None) target_uri"
  by (simp add: Dial_def dial_codec_def dial_load_def dial_offer_def sdp_pt_def dial_localIP_def resolveLocalIPAuto_def localOutboundIP_def dial_cfg_def dial_env0_def NewCodec_def
      eval_nat_numeral)

lemma dial_request_some: "\<exists>req. dial_request (dial_cfg\<lparr>cfg_CancelAfter := c\<rparr>) (dial_env0 net\<lparr>de_expired := b\<rparr>) u sdp = Some req"
  by (simp add: dial_request_def buildInviteRequest_def resolveInviteIdentity_def dial_options_def dial_cfg_def dial_env0_def)

lemma dial_busy:
  "Dial (dial_cfg\<lparr>cfg_CancelAfter := c\<rparr>) (dial_env0 (answered 486 [])\<lparr>de_expired := b\<rparr>)
    = (if 0 < c \<and> b then Some (Inr (cancelled_handle (dial_cfg\<lparr>cfg_CancelAfter := c\<rparr>), None), held True False True False)
       else Some (Inl (InviteFailed (UnexpectedStatus 486)), held True False True False))"
proof -
  obtain req where r: "dial_request (dial_cfg\<lparr>cfg_CancelAfter := c\<rparr>) (dial_env0 (answered 486 [])\<lparr>de_expired := b\<rparr>) target_uri
      (BuildSDPWithDirection ''10.0.0.7'' 21000 0 DirSendRecv) = Some req"
    using dial_request_some by blast
  have "SendINVITE (Some req) (answered 486 []) = (Inl (UnexpectedStatus 486), \<lparr>it_acked = False, it_closed = True\<rparr>)"
    by (simp add: SendINVITE_def finish_invite_def answered_def)
  with r show ?thesis
    by (simp add: dial_to_invite dial_invite_def Let_def) (simp add: dial_cfg_def dial_env0_def)
qed

theorem dial_error_leaks_witness:
  "\<exists>r. Dial (dial_cfg\<lparr>cfg_CancelAfter := 0\<rparr>) (dial_env0 (answered 486 [])\<lparr>de_expired := False\<rparr>) = Some (Inl (InviteFailed (UnexpectedStatus 486)), r)
     \<and> r_conn r \<and> \<not> r_client r \<and> \<not> r_peer r"
proof -
  obtain r where r: "Dial (dial_cfg\<lparr>cfg_CancelAfter := 0\<rparr>) (dial_env0 (answered 486 [])\<lparr>de_expired := False\<rparr>)
      = Some (Inl (InviteFailed (UnexpectedStatus 486)), r)" by (simp add: dial_busy)
  from dial_error_leaks [OF r] r show ?thesis by auto
qed

theorem cancelled_call_leaks_socket_witness:
  "\<exists>h r. Dial (dial_cfg\<lparr>cfg_CancelAfter := 5\<rparr>) (dial_env0 (answered 486 [])\<lparr>de_expired := True\<rparr>) = Some (Inr (h, None), r) \<and> r_conn r \<and> c_done h"
proof -
  obtain h r where r: "Dial (dial_cfg\<lparr>cfg_CancelAfter := 5\<rparr>) (dial_env0 (answered 486 [])\<lparr>de_expired := True\<rparr>) = Some (Inr (h, None), r)"
    by (simp add: dial_busy)
  from cancelled_call_leaks_socket [OF r] r show ?thesis by auto
qed

lemma dial_answered:
  assumes "connectionIP (ParseSDP sdp) \<noteq> []" "sdp_port (ParseSDP sdp) \<noteq> 0"
  shows "\<exists>h plan. Dial (dial_cfg\<lparr>cfg_CancelAfter := 0\<rparr>) (dial_env0 (answered 200 sdp)\<lparr>de_expired := False\<rparr>)
      = Some (Inr (h, Some plan), held True True True True)"
proof -
  obtain req where r: "dial_request (dial_cfg\<lparr>cfg_CancelAfter := 0\<rparr>) (dial_env0 (answered 200 sdp)\<lparr>de_expired := False\<rparr>) target_uri
      (BuildSDPWithDirection ''10.0.0.7'' 21000 0 DirSendRecv) = Some req"
    using dial_request_some by blast
  obtain ir t where i: "SendINVITE (Some req) (answered 200 sdp) = (Inr ir, t)"
    using assms by (simp add: SendINVITE_def finish_invite_def answered_def Let_def)
  from i r show ?thesis
    by (simp add: dial_to_invite dial_invite_def Let_def)
      (simp add: dial_cfg_def dial_env0_def dial_start_def dial_remote_key_def dial_srtp_def dial_sender_def loopPayloads_def
        split: option.splits)
qed

theorem dial_established_witness:
  "\<exists>h plan r. Dial (dial_cfg\<lparr>cfg_CancelAfter := 0\<rparr>)
      (dial_env0 (answered 200 (BuildSDP ''10.0.0.9'' 4000 0))\<lparr>de_expired := False\<rparr>) = Some (Inr (h, Some plan), r)
    \<and> fresh_call h \<and> c_rtpPort h = 21000 \<and> mp_remote plan = (''10.0.0.9'', 4000)"
proof -
  let ?sdp = "BuildSDP ''10.0.0.9'' 4000 0"
  have "word_ok ''10.0.0.9''" by code_simp
  from sdp_roundtrip_map [OF this, of 4000 DirSendRecv 0 0]
  have p: "connectionIP (ParseSDP ?sdp) = ''10.0.0.9''" "sdp_port (ParseSDP ?sdp) = 4000"
    by (simp_all add: BuildSDP_def direction_ok_def)
  with dial_answered [of ?sdp] obtain h plan where
    d: "Dial (dial_cfg\<lparr>cfg_CancelAfter := 0\<rparr>) (dial_env0 (answered 200 ?sdp)\<lparr>de_expired := False\<rparr>)
      = Some (Inr (h, Some plan), held True True True True)" by auto
  from dial_established [OF d] have "fresh_call h" "Some (c_rtpPort h) = Some 21000" "mp_remote plan = (''10.0.0.9'', 4000)"
    using p by (simp_all add: dial_env0_def answered_def dial_cfg_def eval_nat_numeral)
  with d show ?thesis by blast
qed

theorem own_answer_payload_type_witness:
  "dial_sender dial_cfg G722Codec (Some (codec_PayloadType G722Codec)) [[1]] 0 False
    = Some (PlayPlan False [[1]] (codec_PayloadType G722Codec) 160)"
proof -
  have w: "word_ok ''10.0.0.1''" by code_simp
  have "direction_ok DirSendRecv" by (simp add: direction_ok_def)
  from sdp_roundtrip_map [OF w _ _ this, of 4000 "codec_PayloadType G722Codec" 0] offered_name [of G722Codec]
  have "pt_choice (ptMap (ParseSDP (BuildSDP ''10.0.0.1'' 4000 (codec_PayloadType G722Codec)))) (codec_Name G722Codec) (Some (codec_PayloadType G722Codec))"
    by (simp add: pt_choice_def BuildSDP_def)
  from own_answer_payload_type [OF w _ _ this, of dial_cfg "[[1]]" "[[1]]" 0 False]
  show ?thesis by (simp add: dial_cfg_def loopPayloads_def)
qed

theorem silent_mode_frames_witness:
  "\<exists>pt. dial_sender (dial_cfg\<lparr>cfg_AudioMode := ''silent'', cfg_Duration := 100000000\<rparr>) G729 None [] 0 False
    = Some (PlayPlan False (replicate 15 (replicate 160 0)) pt (ts_increment G729))"
proof -
  from silent_mode_frames [of "dial_cfg\<lparr>cfg_AudioMode := ''silent'', cfg_Duration := 100000000\<rparr>" G729 None "[]" 0 False]
  obtain n pt where "dial_sender (dial_cfg\<lparr>cfg_AudioMode := ''silent'', cfg_Duration := 100000000\<rparr>) G729 None [] 0 False
      = Some (PlayPlan False (replicate n (replicate 160 0)) pt (ts_increment G729))" "int n = 15"
    by auto
  moreover from this(2) have "n = 15" by simp
  ultimately show ?thesis by blast
qed

text \<open>An answer with a crypto attribute of four fields, as only a space after the colon makes them.\<close>

definition crypto_answer :: string where
  "crypto_answer = concat (map (\<lambda>l. l @ crlf)
     [''a=crypto: 1 '' @ SRTPProfileAES128HMAC80 @ '' '' @ srtp_inline sample_key, ''c=IN IP4 '' @ ''10.0.0.9'',
      ''m=audio '' @ show_int 4000 @ '' '' @ ''RTP/SAVP'' @ '' '' @ show_nat 0])"

definition srtp_cfg0 :: call_config where
  "srtp_cfg0 = dial_cfg\<lparr>cfg_SRTP := True\<rparr>"

definition srtp_env0 :: dial_env where
  "srtp_env0 = dial_env0 (answered 200 crypto_answer)"

lemma crypto_answer_lines:
  "body_lines crypto_answer = [''a=crypto: 1 '' @ SRTPProfileAES128HMAC80 @ '' '' @ srtp_inline sample_key, ''c=IN IP4 '' @ ''10.0.0.9'',
     ''m=audio '' @ show_int 4000 @ '' '' @ ''RTP/SAVP'' @ '' '' @ show_nat 0, []]"
proof -
  have w: "word_ok (srtp_inline sample_key)" "word_ok SRTPProfileAES128HMAC80" "word_ok (show_nat 4000)" "word_ok (show_nat 0)"
    by (rule word_ok_inline word_ok_profile word_ok_show_nat)+
  note w' = this [THEN word_line_ok]
  show ?thesis unfolding body_lines_def crypto_answer_def
    by (subst lines_of_text) (use w' in \<open>auto simp: line_ok_def show_int_nat\<close>)
qed

lemma crypto_answer_key: "ParseSDPCrypto crypto_answer = srtp_inline sample_key"
proof -
  let ?l = "''a=crypto: 1 '' @ SRTPProfileAES128HMAC80 @ '' '' @ srtp_inline sample_key"
  have t: "TrimSpace ?l = ?l"
    using trim_prefixed [of "''a=crypto: 1 '' @ SRTPProfileAES128HMAC80 @ '' ''" "srtp_inline sample_key"] word_ok_inline
    by (simp add: is_space_def)
  have "word_ok ''a=crypto:''" "word_ok ''1''" by code_simp+
  from Fields_cons [OF this(1), of "''1 '' @ SRTPProfileAES128HMAC80 @ '' '' @ srtp_inline sample_key"]
    Fields_cons [OF this(2), of "SRTPProfileAES128HMAC80 @ '' '' @ srtp_inline sample_key"]
    Fields_cons [OF word_ok_profile, of "srtp_inline sample_key"] Fields_word [OF word_ok_inline, of sample_key]
  have f: "Fields ?l = [''a=crypto:'', ''1'', SRTPProfileAES128HMAC80, srtp_inline sample_key]" by simp
  have "crypto_of ?l = Some (srtp_inline sample_key)"
    using t f by (simp add: crypto_of_def HasPrefix_def srtp_inline_def)
  then show ?thesis unfolding ParseSDPCrypto_def crypto_answer_lines by simp
qed

lemma crypto_answer_media: "connectionIP (ParseSDP crypto_answer) = ''10.0.0.9''" "sdp_port (ParseSDP crypto_answer) = 4000"
proof -
  let ?l = "''a=crypto: 1 '' @ SRTPProfileAES128HMAC80 @ '' '' @ srtp_inline sample_key"
  have t: "TrimSpace ?l = ?l"
    using trim_prefixed [of "''a=crypto: 1 '' @ SRTPProfileAES128HMAC80 @ '' ''" "srtp_inline sample_key"] word_ok_inline
    by (simp add: is_space_def)
  then have c: "sdp_line ?l i = i" for i
    by (simp add: sdp_line_def sdp_c_def sdp_m_def sdp_rtpmap_def HasPrefix_def)
  have w: "word_ok ''10.0.0.9''" by code_simp
  have "fold sdp_line (body_lines crypto_answer) \<lparr>connectionIP = [], sdp_port = 0, ptMap = \<lambda>_. None\<rparr>
      = \<lparr>connectionIP = ''10.0.0.9'', sdp_port = 4000, ptMap = \<lambda>_. None\<rparr>"
    unfolding crypto_answer_lines
    using line_c [OF w] line_m [of 4000 "''RTP/SAVP''" 0] by (simp add: c line_empty del: append.simps)
  then show "connectionIP (ParseSDP crypto_answer) = ''10.0.0.9''" "sdp_port (ParseSDP crypto_answer) = 4000"
    by (simp_all add: ParseSDP_def body_lines_def pt_default_def split: option.splits)
qed

lemma srtp_offer0: "\<exists>sdp. dial_offer srtp_cfg0 srtp_env0 PCMU 0 21000
    = Some (sdp, Some \<lparr>MasterKey = take 16 sample_key, MasterSalt = drop 16 sample_key, Profile = SRTPProfileAES128HMAC80\<rparr>)"
  by (simp add: dial_offer_def srtp_cfg0_def srtp_env0_def dial_cfg_def dial_env0_def BuildSDPWithSRTP_def)

lemma srtp_keys0: "\<exists>sender rcv. dial_srtp
      (Some \<lparr>MasterKey = take 16 sample_key, MasterSalt = drop 16 sample_key, Profile = SRTPProfileAES128HMAC80\<rparr>)
      (Some \<lparr>MasterKey = take 16 sample_key, MasterSalt = drop 16 sample_key, Profile = SRTPProfileAES128HMAC80\<rparr>) ssrc
    = Inr (Some sender, Some rcv)"
proof -
  let ?key = "\<lparr>MasterKey = take 16 sample_key, MasterSalt = drop 16 sample_key, Profile = SRTPProfileAES128HMAC80\<rparr>"
  have "length (MasterKey ?key) = 16" "length (MasterSalt ?key) = 14" by (simp_all add: sample_key_def)
  from NewSRTPSession_total [OF this, of True ssrc] NewSRTPSession_total [OF this, of False ssrc] show ?thesis
    by (auto simp: dial_srtp_def NewSRTPSenderSession_def NewSRTPReceiverSession_def)
qed

lemma dial_srtp_answered:
  "\<exists>h plan r rcv. Dial srtp_cfg0 srtp_env0 = Some (Inr (h, Some plan), r) \<and> c_srtpReceiver h = Some rcv \<and> SSRC (c_sess h) = 7"
proof -
  let ?key = "\<lparr>MasterKey = take 16 sample_key, MasterSalt = drop 16 sample_key, Profile = SRTPProfileAES128HMAC80\<rparr>"
  obtain sdp where offer: "dial_offer srtp_cfg0 srtp_env0 PCMU 0 21000 = Some (sdp, Some ?key)" using srtp_offer0 by blast
  obtain sender rcv where keys: "dial_srtp (Some ?key) (Some ?key) 7 = Inr (Some sender, Some rcv)" using srtp_keys0 by blast
  have pre: "dial_codec srtp_cfg0 srtp_env0 = Inr PCMU" "dial_load srtp_cfg0 srtp_env0 = Inr ([replicate 160 1], 0)"
    "de_client srtp_env0" "bind_loop 5 (de_binds srtp_env0) = Some 21000" "de_ParseUri srtp_env0 u = Some target_uri"
    "de_ssrc srtp_env0 = 7" "de_net srtp_env0 = answered 200 crypto_answer" "\<not> cfg_EarlyMedia srtp_cfg0" for u
    by (simp_all add: dial_codec_def dial_load_def srtp_cfg0_def srtp_env0_def dial_cfg_def dial_env0_def NewCodec_def eval_nat_numeral)
  obtain req where req: "dial_request srtp_cfg0 srtp_env0 target_uri sdp = Some req"
    by (simp add: dial_request_def buildInviteRequest_def resolveInviteIdentity_def dial_options_def srtp_cfg0_def dial_cfg_def)
  obtain ir t where i: "SendINVITE (Some req) (answered 200 crypto_answer) = (Inr ir, t)"
    "\<exists>r. ir_Dialog ir = \<lparr>InviteRequest = Some r, InviteResponse = in_response (answered 200 crypto_answer)\<rparr>"
    using crypto_answer_media by (simp add: SendINVITE_def finish_invite_def answered_def Let_def)
  have "ParseSRTPConfig (srtp_inline sample_key) = Inr ?key"
    by (rule ParseSRTPConfig_inline) (simp add: sample_key_def)
  moreover have "srtp_inline sample_key \<noteq> []" by (simp add: srtp_inline_def)
  ultimately have rkey: "dial_remote_key srtp_cfg0 ir = Inr (Some ?key)"
    using i(2) by (auto simp: dial_remote_key_def answered_def crypto_answer_key srtp_cfg0_def Let_def)
  obtain plan where plan: "dial_sender srtp_cfg0 PCMU (de_pt srtp_env0) [replicate 160 1] 0 True = Some plan"
    by (simp add: dial_sender_def srtp_cfg0_def dial_cfg_def loopPayloads_def Let_def)
  show ?thesis
    using pre offer req i(1) rkey keys plan
    by (simp add: Dial_def dial_invite_def dial_start_def call_handle_def NewSession_def)
qed

theorem receiver_has_own_ssrc_witness:
  "\<exists>h plan r rcv. Dial srtp_cfg0 srtp_env0 = Some (Inr (h, Some plan), r) \<and> c_srtpReceiver h = Some rcv
    \<and> srtp_ssrc rcv = 7 \<and> mp_recvSRTP plan"
proof -
  obtain h plan r rcv where d: "Dial srtp_cfg0 srtp_env0 = Some (Inr (h, Some plan), r)" "c_srtpReceiver h = Some rcv" "SSRC (c_sess h) = 7"
    using dial_srtp_answered by blast
  from receiver_has_own_ssrc [OF d(1,2), of 8 0] d show ?thesis by auto
qed

end
