(* ===== verification/Conference.thy ===== *)
theory Conference
  imports Dial
begin

text \<open>
  Conferences and third-party calls (\<open>sip/conference.go\<close>, \<open>sip/threepcc.go\<close>): several calls made by \<open>Dial\<close>,
  kept together. Shown: which legs exist after which outcome, what hanging up ends, and the figures
  of a conference in binary64.
\<close>

section \<open>Configuration\<close>

record conference_config =
  cc_BridgeURI :: string
  cc_AudioFile :: string
  cc_Codec :: string
  cc_LocalIP :: string
  cc_Duration :: int
  cc_Username :: string
  cc_Password :: string

text \<open>The zero value of the configuration of a call.\<close>

definition call_config0 :: call_config where
  "call_config0 = \<lparr>cfg_Target = [], cfg_AOR = [], cfg_DisplayName = [], cfg_Username = [], cfg_AudioFile = [],
     cfg_Codec = [], cfg_Direction = [], cfg_Duration = 0, cfg_DTMFSequence = [], cfg_DTMFInitialDelay = 0,
     cfg_DTMFInterDigitGap = 0, cfg_LocalIP = [], cfg_RTPPort = 0, cfg_Password = [], cfg_TLSConfig = None, cfg_IPv6 = False,
     cfg_Transport = [], cfg_SIPPort = 0, cfg_AudioMode = [], cfg_PCAPFile = [], cfg_CustomHeaders = [], cfg_SRTP = False,
     cfg_RTCP = False, cfg_EarlyMedia = False, cfg_EnablePESQ = False, cfg_CancelAfter = 0, cfg_IVRExpect = []\<rparr>"

definition or_else :: "string \<Rightarrow> string \<Rightarrow> string" where
  "or_else s d = (if s \<noteq> [] then s else d)"

text \<open>\<open>dialLeg\<close> up to the call of \<open>Dial\<close>.\<close>

definition leg_config :: "conference_config \<Rightarrow> string \<Rightarrow> conference_config option \<Rightarrow> call_config" where
  "leg_config conf targetURI override =
     (let cfg = call_config0\<lparr>cfg_Target := targetURI, cfg_AudioFile := cc_AudioFile conf, cfg_Codec := cc_Codec conf,
            cfg_LocalIP := cc_LocalIP conf, cfg_Duration := cc_Duration conf, cfg_RTPPort := 0\<rparr>;
          cfg = (case override of
              None \<Rightarrow> cfg
            | Some o' \<Rightarrow> cfg\<lparr>cfg_AudioFile := or_else (cc_AudioFile o') (cfg_AudioFile cfg),
                cfg_Codec := or_else (cc_Codec o') (cfg_Codec cfg), cfg_LocalIP := or_else (cc_LocalIP o') (cfg_LocalIP cfg)\<rparr>)
      in if cfg_Codec cfg = [] then cfg\<lparr>cfg_Codec := ''PCMU''\<rparr> else cfg)"

definition dialLeg :: "conference_config \<Rightarrow> string \<Rightarrow> conference_config option \<Rightarrow> dial_env \<Rightarrow> (dial_error + call) option" where
  "dialLeg conf targetURI override env = map_option (\<lambda>(r, _). map_sum id fst r) (Dial (leg_config conf targetURI override) env)"

section \<open>The conference\<close>

record conference =
  cf_legs :: "call list"
  cf_cfg :: conference_config

definition StartConference :: "conference_config \<Rightarrow> dial_env \<Rightarrow> (dial_error + conference) option" where
  "StartConference cfg env =
     map_option (map_sum id (\<lambda>leg. \<lparr>cf_legs = [leg], cf_cfg = cfg\<rparr>)) (dialLeg cfg (cc_BridgeURI cfg) None env)"

text \<open>\<open>c\<close> is the conference when the dialing returns: a leg whose duration was over may have ended by
  itself in the meantime.\<close>

definition AddParticipant :: "string \<Rightarrow> conference_config option \<Rightarrow> dial_env \<Rightarrow> conference \<Rightarrow> (dial_error option \<times> conference) option" where
  "AddParticipant targetURI override env c =
     (let uri = (if targetURI = [] then cc_BridgeURI (cf_cfg c) else targetURI)
      in map_option (\<lambda>r. case r of
           Inl e \<Rightarrow> (Some e, c)
         | Inr leg \<Rightarrow> (None, c\<lparr>cf_legs := cf_legs c @ [leg]\<rparr>)) (dialLeg (cf_cfg c) uri override env))"

definition ParticipantCount :: "conference \<Rightarrow> int" where
  "ParticipantCount c = fold (\<lambda>l active. if IsActive l then active + 1 else active) (cf_legs c) 0"

definition conf_Hangup :: "conference \<Rightarrow> conference" where
  "conf_Hangup c = c\<lparr>cf_legs := map Hangup (cf_legs c)\<rparr>"

record conference_result =
  cr_Legs :: int
  cr_AvgMOS :: float64
  cr_MinMOS :: float64
  cr_MaxMOS :: float64
  cr_TotalPacketsSent :: int
  cr_TotalPacketsLost :: int

definition add_figures :: "call_result \<Rightarrow> conference_result \<Rightarrow> conference_result" where
  "add_figures r res =
     res\<lparr>cr_TotalPacketsSent := cr_TotalPacketsSent res + res_PacketsSent r,
       cr_TotalPacketsLost := cr_TotalPacketsLost res + res_PacketsLost r,
       cr_AvgMOS := fadd (cr_AvgMOS res) (res_MOS r),
       cr_MinMOS := (if res_MOS r < cr_MinMOS res then res_MOS r else cr_MinMOS res),
       cr_MaxMOS := (if res_MOS r > cr_MaxMOS res then res_MOS r else cr_MaxMOS res)\<rparr>"

text \<open>\<open>Result\<close> waits for each leg; without an end of a leg it does not return.\<close>

definition conf_Result :: "conference \<Rightarrow> conference_result option" where
  "conf_Result c =
     (if list_all c_done (cf_legs c) then
        (let legs = cf_legs c;
             res = fold (\<lambda>leg. add_figures (c_result leg)) legs
               \<lparr>cr_Legs = int (length legs), cr_AvgMOS = 0, cr_MinMOS = 5, cr_MaxMOS = 0, cr_TotalPacketsSent = 0, cr_TotalPacketsLost = 0\<rparr>
         in Some (if legs \<noteq> [] then res\<lparr>cr_AvgMOS := fdiv (cr_AvgMOS res) (fint (int (length legs)))\<rparr> else res))
      else None)"

section \<open>Which legs exist\<close>

lemma leg_config_cancel [simp]: "cfg_CancelAfter (leg_config conf targetURI override) = 0"
  by (simp add: leg_config_def call_config0_def Let_def split: option.split)

text \<open>A leg is an established call: it cannot be one that was cancelled while it rang.\<close>

lemma dialLeg_active:
  assumes "dialLeg conf targetURI override env = Some (Inr leg)"
  shows "c_active leg \<and> c_onHold leg = False \<and> c_wire leg = []"
proof -
  obtain o' r where "Dial (leg_config conf targetURI override) env = Some (o', r)" "map_sum id fst o' = Inr leg"
    using assms by (auto simp: dialLeg_def)
  then obtain plan where d: "Dial (leg_config conf targetURI override) env = Some (Inr (leg, plan), r)"
    by (cases o') auto
  show ?thesis
  proof (cases plan)
    case None
    with dial_cancelled [of "leg_config conf targetURI override" env leg r] d show ?thesis by simp
  next
    case (Some p)
    obtain cod port ir sender rcv where "leg = call_handle (leg_config conf targetURI override) env cod port ir sender rcv"
      by (rule dial_ok [OF d [unfolded Some]])
    then show ?thesis by (simp add: call_handle_def)
  qed
qed

lemma count_from: "fold (\<lambda>l active. if IsActive l then active + 1 else active) ls n = n + int (length (filter c_active ls))"
  by (induction ls arbitrary: n) (auto simp: IsActive_def)

lemma ParticipantCount_filter: "ParticipantCount c = int (length (filter c_active (cf_legs c)))"
  by (simp add: ParticipantCount_def count_from)

text \<open>
  A conference that was started has one leg, which is active. Adding a participant either appends
  one active leg, which the count then includes, or reports the error of the dialing and leaves all
  legs as they are. Hanging up deactivates every leg, sends exactly one BYE on each leg that was
  active and none on the others, and doing it again sends nothing more.
\<close>
theorem conference_legs:
  assumes "StartConference cfg env = Some (Inr c0)" "AddParticipant targetURI override env' c = Some (err, c')"
  shows "ParticipantCount c0 = 1 \<and> cf_cfg c0 = cfg
    \<and> (case err of
         Some e \<Rightarrow> c' = c
       | None \<Rightarrow> ParticipantCount c' = ParticipantCount c + 1 \<and> butlast (cf_legs c') = cf_legs c \<and> cf_cfg c' = cf_cfg c)
    \<and> ParticipantCount (conf_Hangup c') = 0 \<and> conf_Hangup (conf_Hangup c') = conf_Hangup c'
    \<and> (\<forall>i < length (cf_legs c'). c_wire (cf_legs (conf_Hangup c') ! i)
         = c_wire (cf_legs c' ! i) @ (if c_active (cf_legs c' ! i) then [SentBye] else []))"
proof (intro conjI)
  obtain r where "dialLeg cfg (cc_BridgeURI cfg) None env = Some r" "map_sum id (\<lambda>leg. \<lparr>cf_legs = [leg], cf_cfg = cfg\<rparr>) r = Inr c0"
    using assms(1) by (auto simp: StartConference_def)
  then obtain leg where s: "dialLeg cfg (cc_BridgeURI cfg) None env = Some (Inr leg)" "c0 = \<lparr>cf_legs = [leg], cf_cfg = cfg\<rparr>"
    by (cases r) auto
  show "ParticipantCount c0 = 1" "cf_cfg c0 = cfg"
    using dialLeg_active [OF s(1)] by (simp_all add: s(2) ParticipantCount_filter)
  show "case err of
         Some e \<Rightarrow> c' = c
       | None \<Rightarrow> ParticipantCount c' = ParticipantCount c + 1 \<and> butlast (cf_legs c') = cf_legs c \<and> cf_cfg c' = cf_cfg c"
  proof -
    from assms(2) obtain r where r: "dialLeg (cf_cfg c) (if targetURI = [] then cc_BridgeURI (cf_cfg c) else targetURI) override env' = Some r"
      "(err, c') = (case r of Inl e \<Rightarrow> (Some e, c) | Inr leg \<Rightarrow> (None, c\<lparr>cf_legs := cf_legs c @ [leg]\<rparr>))"
      by (auto simp: AddParticipant_def Let_def)
    then show ?thesis
      by (cases r) (auto simp: ParticipantCount_filter dest!: dialLeg_active)
  qed
  have off: "\<not> c_active (Hangup h)" "Hangup (Hangup h) = Hangup h" for h by (simp_all add: Hangup_def)
  show "ParticipantCount (conf_Hangup c') = 0"
    by (simp add: ParticipantCount_filter conf_Hangup_def filter_map off(1) comp_def)
  show "conf_Hangup (conf_Hangup c') = conf_Hangup c'" by (simp add: conf_Hangup_def comp_def off(2))
  show "\<forall>i < length (cf_legs c'). c_wire (cf_legs (conf_Hangup c') ! i)
         = c_wire (cf_legs c' ! i) @ (if c_active (cf_legs c' ! i) then [SentBye] else [])"
    by (simp add: conf_Hangup_def Hangup_def)
qed

section \<open>The figures\<close>

lemma final_mos_range: "1 \<le> res_MOS (final_result h) \<and> res_MOS (final_result h) \<le> 5"
  unfolding final_result_def Let_def call_result.simps CalculateMOS_def by (rule mos_round_range) simp_all

text \<open>Sums of ratings between 1 and 5: rounding is monotone and exact on the integer bounds.\<close>

lemma sum_bounds:
  assumes "of_int k \<le> s" "s \<le> of_int (5 * k)" "1 \<le> x" "x \<le> 5" "0 \<le> k" "5 * (k + 1) < 2 ^ 53"
  shows "of_int (k + 1) \<le> fadd s x \<and> fadd s x \<le> of_int (5 * (k + 1))"
  using fl64_ge_int [of "k + 1" "s + x"] fl64_le_int [of "s + x" "5 * (k + 1)"] assms by (simp add: fadd_def)

lemma figures_inv:
  assumes "\<forall>r \<in> set rs. 1 \<le> res_MOS r \<and> res_MOS r \<le> 5" "of_int k \<le> cr_AvgMOS res" "cr_AvgMOS res \<le> of_int (5 * k)" "0 \<le> k"
    "5 * (k + int (length rs)) < 2 ^ 53"
  shows "of_int (k + int (length rs)) \<le> cr_AvgMOS (fold add_figures rs res)
    \<and> cr_AvgMOS (fold add_figures rs res) \<le> of_int (5 * (k + int (length rs)))"
  using assms
proof (induction rs arbitrary: k res)
  case (Cons r rs)
  have "of_int (k + 1) \<le> cr_AvgMOS (add_figures r res) \<and> cr_AvgMOS (add_figures r res) \<le> of_int (5 * (k + 1))"
    using sum_bounds [of k "cr_AvgMOS res" "res_MOS r"] Cons.prems by (simp add: add_figures_def)
  with Cons.IH [of "k + 1" "add_figures r res"] Cons.prems show ?case by (simp add: algebra_simps)
qed simp

lemma figures_extremes:
  "cr_MinMOS (fold add_figures rs res) = fold min (map res_MOS rs) (cr_MinMOS res)
    \<and> cr_MaxMOS (fold add_figures rs res) = fold max (map res_MOS rs) (cr_MaxMOS res)
    \<and> cr_TotalPacketsSent (fold add_figures rs res) = cr_TotalPacketsSent res + sum_list (map res_PacketsSent rs)
    \<and> cr_TotalPacketsLost (fold add_figures rs res) = cr_TotalPacketsLost res + sum_list (map res_PacketsLost rs)
    \<and> cr_Legs (fold add_figures rs res) = cr_Legs res"
  by (induction rs arbitrary: res) (auto simp: add_figures_def min_def max_def)

lemma fold_extremes:
  "fold min xs (a :: rat) \<in> insert a (set xs) \<and> (\<forall>x \<in> insert a (set xs). fold min xs a \<le> x)"
  "fold max xs (a :: rat) \<in> insert a (set xs) \<and> (\<forall>x \<in> insert a (set xs). x \<le> fold max xs a)"
  by (induction xs arbitrary: a) (fastforce simp: min_def max_def)+

lemma fold_bounds:
  assumes "\<forall>x \<in> set xs. (lo :: rat) \<le> x \<and> x \<le> hi" "xs \<noteq> []"
  shows "hi \<le> a \<Longrightarrow> fold min xs a \<in> set xs \<and> (\<forall>x \<in> set xs. fold min xs a \<le> x)"
    "b \<le> lo \<Longrightarrow> fold max xs b \<in> set xs \<and> (\<forall>x \<in> set xs. x \<le> fold max xs b)"
proof -
  obtain x where x: "x \<in> set xs" "lo \<le> x" "x \<le> hi" using assms by (cases xs) auto
  show "fold min xs a \<in> set xs \<and> (\<forall>x \<in> set xs. fold min xs a \<le> x)" if "hi \<le> a"
    using fold_extremes(1) [of xs a] x that by (metis insert_iff order_antisym order_trans)
  show "fold max xs b \<in> set xs \<and> (\<forall>x \<in> set xs. x \<le> fold max xs b)" if "b \<le> lo"
    using fold_extremes(2) [of xs b] x that by (metis insert_iff order_antisym order_trans)
qed

text \<open>
  The figures of a conference whose legs have ended: the smallest and the largest rating are attained
  by a leg and bound all of them, the average that binary64 computes stays on the scale from 1 to 5
  (it may lie outside the two by its rounding), and the totals are the sums.
\<close>
theorem conference_figures:
  assumes "legs \<noteq> []" "5 * int (length legs) < 2 ^ 53" "map finalize calls = map Some legs" "cf_legs c = legs"
  shows "\<exists>res. conf_Result c = Some res \<and> cr_Legs res = int (length legs)
    \<and> (\<forall>leg \<in> set legs. cr_MinMOS res \<le> res_MOS (c_result leg) \<and> res_MOS (c_result leg) \<le> cr_MaxMOS res)
    \<and> cr_MinMOS res \<in> (\<lambda>leg. res_MOS (c_result leg)) ` set legs \<and> cr_MaxMOS res \<in> (\<lambda>leg. res_MOS (c_result leg)) ` set legs
    \<and> 1 \<le> cr_AvgMOS res \<and> cr_AvgMOS res \<le> 5
    \<and> cr_TotalPacketsSent res = (\<Sum>leg \<leftarrow> legs. res_PacketsSent (c_result leg))
    \<and> cr_TotalPacketsLost res = (\<Sum>leg \<leftarrow> legs. res_PacketsLost (c_result leg))"
proof -
  have fin: "\<exists>h. finalize h = Some leg" if "leg \<in> set legs" for leg
    using that assms(3) by (metis (no_types, lifting) imageE imageI list.set_map)
  then have leg: "c_done leg" "1 \<le> res_MOS (c_result leg)" "res_MOS (c_result leg) \<le> 5" if "leg \<in> set legs" for leg
    using fin [OF that] final_mos_range by (auto simp: finalize_def split: option.splits)
  let ?rs = "map c_result legs" and ?n = "int (length legs)"
  let ?start = "\<lparr>cr_Legs = ?n, cr_AvgMOS = 0, cr_MinMOS = 5, cr_MaxMOS = 0, cr_TotalPacketsSent = 0, cr_TotalPacketsLost = 0\<rparr>"
  let ?res = "fold add_figures ?rs ?start"
  let ?out = "?res\<lparr>cr_AvgMOS := fdiv (cr_AvgMOS ?res) (fint ?n)\<rparr>"
  have mos: "\<forall>r \<in> set ?rs. 1 \<le> res_MOS r \<and> res_MOS r \<le> 5" using leg by simp
  have out: "conf_Result c = Some ?out"
    using assms(1,4) leg(1) by (simp add: conf_Result_def list_all_iff fold_map comp_def Let_def)
  have n: "0 < ?n" "?n < 2 ^ 53" using assms(1,2) by simp_all
  have sum: "of_int ?n \<le> cr_AvgMOS ?res" "cr_AvgMOS ?res \<le> of_int (5 * ?n)"
    using figures_inv [OF mos, of 0 ?start] assms(2) by simp_all
  have "1 \<le> cr_AvgMOS ?res / of_int ?n" "cr_AvgMOS ?res / of_int ?n \<le> 5"
    using sum n by (simp_all add: field_simps)
  then have avg: "1 \<le> cr_AvgMOS ?out" "cr_AvgMOS ?out \<le> 5"
    using n fl64_ge_int [of 1 "cr_AvgMOS ?res / of_int ?n"] fl64_le_int [of "cr_AvgMOS ?res / of_int ?n" 5]
    by (simp_all add: fdiv_def fint_exact)
  note ex = figures_extremes [of ?rs ?start]
  have range: "\<forall>x \<in> set (map res_MOS ?rs). (1 :: rat) \<le> x \<and> x \<le> 5" "map res_MOS ?rs \<noteq> []"
    using mos assms(1) by simp_all
  show ?thesis
    using out ex avg fold_bounds(1) [OF range, of 5] fold_bounds(2) [OF range, of 0]
    by (intro exI [of _ ?out]) (simp add: image_image comp_def)
qed

section \<open>Third-party calls\<close>

record third_party_config =
  tp_PartyA :: string
  tp_PartyB :: string
  tp_AudioA :: string
  tp_AudioB :: string
  tp_Codec :: string
  tp_LocalIP :: string
  tp_Duration :: int
  tp_Transport :: string
  tp_TLSConfig :: "tls_config option"

record third_party_call =
  LegA :: call
  LegB :: call

definition party_config :: "third_party_config \<Rightarrow> string \<Rightarrow> string \<Rightarrow> call_config" where
  "party_config cfg target audio =
     call_config0\<lparr>cfg_Target := target, cfg_AudioFile := audio, cfg_Codec := (if tp_Codec cfg = [] then ''PCMU'' else tp_Codec cfg),
       cfg_LocalIP := tp_LocalIP cfg, cfg_Duration := tp_Duration cfg, cfg_Transport := tp_Transport cfg,
       cfg_TLSConfig := tp_TLSConfig cfg\<rparr>"

datatype third_party_error = DialA dial_error | DialB dial_error

text \<open>
  \<open>ringing\<close> is the time that dialing party B takes: a configured duration that is over by then has made
  leg A hang itself up, in both outcomes. The second component holds a leg A that was set up and
  given up again.
\<close>

definition Dial3PCC ::
    "third_party_config \<Rightarrow> dial_env \<Rightarrow> dial_env \<Rightarrow> int \<Rightarrow> ((third_party_error + third_party_call) \<times> call option) option" where
  "Dial3PCC cfg envA envB ringing =
     Option.bind (Dial (party_config cfg (tp_PartyA cfg) (tp_AudioA cfg)) envA) (\<lambda>(ra, _). case ra of
         Inl e \<Rightarrow> Some (Inl (DialA e), None)
       | Inr (a, planA) \<Rightarrow>
           map_option (\<lambda>(rb, _).
               let a = auto_hangup planA ringing a in (case rb of
               Inl e \<Rightarrow> (Inl (DialB e), Some (Hangup a))
             | Inr (b, _) \<Rightarrow> (Inr \<lparr>LegA = a, LegB = b\<rparr>, None)))
             (Dial (party_config cfg (tp_PartyB cfg) (tp_AudioB cfg)) envB))"

definition HangupAll :: "third_party_call \<Rightarrow> third_party_call" where
  "HangupAll t = \<lparr>LegA = Hangup (LegA t), LegB = Hangup (LegB t)\<rparr>"

text \<open>
  With a context: if it ends first, the caller gets an error (\<open>None\<close>) while the goroutine goes on; the
  second component is what the goroutine later puts into the channel, which nobody reads.
\<close>

definition Dial3PCCWithTimeout ::
    "bool \<Rightarrow> (third_party_error + third_party_call) \<Rightarrow> (third_party_error + third_party_call) option \<times> third_party_call option" where
  "Dial3PCCWithTimeout ctx_first r =
     (if ctx_first then (None, case r of Inl _ \<Rightarrow> None | Inr t \<Rightarrow> Some t) else (Some r, None))"

lemma party_cancel [simp]: "cfg_CancelAfter (party_config cfg target audio) = 0"
  by (simp add: party_config_def call_config0_def)

lemma party_leg:
  assumes "Dial (party_config cfg target audio) env = Some (Inr (leg, plan), r)"
  shows "c_active leg" "\<not> c_stop leg" "c_wire leg = []"
    "Option.bind plan mp_hangup = (if 0 < tp_Duration cfg then Some (tp_Duration cfg) else None)"
proof -
  have "c_active leg \<and> \<not> c_stop leg \<and> c_wire leg = []
    \<and> Option.bind plan mp_hangup = (if 0 < tp_Duration cfg then Some (tp_Duration cfg) else None)"
  proof (cases plan)
    case None
    with dial_cancelled [of "party_config cfg target audio" env leg r] assms show ?thesis by simp
  next
    case (Some p)
    obtain cod port ir sender rcv where "leg = call_handle (party_config cfg target audio) env cod port ir sender rcv"
      "mp_hangup p = hangup_after (party_config cfg target audio)"
      by (rule dial_ok [OF assms [unfolded Some]])
    then show ?thesis by (simp add: Some call_handle_def hangup_after_def party_config_def)
  qed
  then show "c_active leg" "\<not> c_stop leg" "c_wire leg = []"
    "Option.bind plan mp_hangup = (if 0 < tp_Duration cfg then Some (tp_Duration cfg) else None)" by blast+
qed

text \<open>Leg A once party B has been dialed.\<close>

lemma first_leg:
  assumes "Dial (party_config cfg target audio) env = Some (Inr (leg, plan), r)" "a = auto_hangup plan ringing leg"
  shows "c_active a \<longleftrightarrow> \<not> (0 < tp_Duration cfg \<and> tp_Duration cfg \<le> ringing)"
    "c_wire a = (if c_active a then [] else [SentBye])" "\<not> c_active (Hangup a)" "c_wire (Hangup a) = [SentBye]"
  using party_leg [OF assms(1)] by (auto simp: assms(2) auto_hangup_def Hangup_def)

text \<open>C37: 
  A third-party call is all or nothing towards the script. On success leg B is up and active, and so
  is leg A, unless a duration is configured that was over before B answered: then the script gets a
  call whose leg A has already hung itself up. On failure the error names the party, and if it is
  party B then leg A, which was up, has been sent a BYE. In every case a leg gets exactly one BYE,
  whether its own timer, the failure or \<open>HangupAll\<close> ended it.
\<close>
theorem third_party_all_or_nothing:
  assumes "Dial3PCC cfg envA envB ringing = Some (r, given_up)"
  shows "(case r of
      Inr t \<Rightarrow> given_up = None \<and> c_active (LegB t)
        \<and> (c_active (LegA t) \<longleftrightarrow> \<not> (0 < tp_Duration cfg \<and> tp_Duration cfg \<le> ringing))
        \<and> c_wire (LegA t) = (if c_active (LegA t) then [] else [SentBye]) \<and> c_wire (LegB t) = []
        \<and> c_wire (LegA (HangupAll t)) = [SentBye] \<and> c_wire (LegB (HangupAll t)) = [SentBye]
        \<and> \<not> c_active (LegA (HangupAll t)) \<and> \<not> c_active (LegB (HangupAll t))
    | Inl (DialA e) \<Rightarrow> given_up = None
    | Inl (DialB e) \<Rightarrow> \<exists>a. given_up = Some a \<and> \<not> c_active a \<and> c_wire a = [SentBye])"
proof -
  from assms obtain ra resA where a: "Dial (party_config cfg (tp_PartyA cfg) (tp_AudioA cfg)) envA = Some (ra, resA)"
    by (auto simp: Dial3PCC_def split: bind_splits)
  show ?thesis
  proof (cases ra)
    case (Inl e)
    with a assms show ?thesis by (auto simp: Dial3PCC_def)
  next
    case (Inr x)
    obtain la pa where x: "x = (la, pa)" by (cases x)
    note A = first_leg [OF a [unfolded Inr x] refl, of ringing]
    from assms a Inr x obtain rb resB where b: "Dial (party_config cfg (tp_PartyB cfg) (tp_AudioB cfg)) envB = Some (rb, resB)"
      by (auto simp: Dial3PCC_def)
    show ?thesis
    proof (cases rb)
      case (Inl e)
      with a b assms Inr x A(3,4) show ?thesis by (auto simp: Dial3PCC_def Let_def)
    next
      case Inr': (Inr y)
      obtain lb pb where y: "y = (lb, pb)" by (cases y)
      from a b assms Inr x Inr' y have r: "r = Inr \<lparr>LegA = auto_hangup pa ringing la, LegB = lb\<rparr>" "given_up = None"
        by (auto simp: Dial3PCC_def Let_def)
      from A party_leg(1,3) [OF b [unfolded Inr' y]] show ?thesis
        by (simp add: r HangupAll_def) (simp add: Hangup_def)
    qed
  qed
qed

text \<open>When the context ends first and the dialing succeeds after it, the caller has no handle of a call
  whose leg B is up and has been sent no BYE.\<close>

theorem timeout_orphans_legs:
  assumes "Dial3PCC cfg envA envB ringing = Some (Inr t, given_up)"
  shows "\<exists>orphan. Dial3PCCWithTimeout True (Inr t) = (None, Some orphan) \<and> c_active (LegB orphan) \<and> c_wire (LegB orphan) = []
    \<and> (tp_Duration cfg = 0 \<longrightarrow> c_active (LegA orphan) \<and> c_wire (LegA orphan) = [])"
proof -
  from assms obtain ra resA where a: "Dial (party_config cfg (tp_PartyA cfg) (tp_AudioA cfg)) envA = Some (ra, resA)"
    by (auto simp: Dial3PCC_def split: bind_splits)
  with assms obtain la pa where A: "ra = Inr (la, pa)" by (cases ra) (auto simp: Dial3PCC_def)
  with a assms obtain rb resB where b: "Dial (party_config cfg (tp_PartyB cfg) (tp_AudioB cfg)) envB = Some (rb, resB)"
    by (auto simp: Dial3PCC_def)
  with a A assms obtain lb pb where B: "rb = Inr (lb, pb)" by (cases rb) (auto simp: Dial3PCC_def Let_def)
  with a b A assms have t: "t = \<lparr>LegA = auto_hangup pa ringing la, LegB = lb\<rparr>" by (simp add: Dial3PCC_def Let_def)
  from first_leg(1,2) [OF a [unfolded A] refl, of ringing] party_leg(1,3) [OF b [unfolded B]] show ?thesis
    by (simp add: t Dial3PCCWithTimeout_def)
qed

section \<open>Witnesses\<close>

lemma leg_to_invite:
  assumes "cfg = call_config0\<lparr>cfg_Target := t, cfg_AudioFile := ''a.wav'', cfg_Codec := ''PCMU''\<rparr>"
  shows "Dial cfg (dial_env0 net) = dial_invite cfg (dial_env0 net) PCMU ([replicate 160 1], 0) 21000
        (BuildSDPWithDirection ''10.0.0.7'' 21000 0 DirSendRecv, None) target_uri"
  by (simp add: assms Dial_def dial_codec_def dial_load_def dial_offer_def sdp_pt_def dial_localIP_def resolveLocalIPAuto_def
      localOutboundIP_def call_config0_def dial_env0_def NewCodec_def eval_nat_numeral)

lemma leg_answered:
  assumes "cfg = call_config0\<lparr>cfg_Target := t, cfg_AudioFile := ''a.wav'', cfg_Codec := ''PCMU''\<rparr>"
  shows "\<exists>h plan r. Dial cfg (dial_env0 (answered 200 (BuildSDP ''10.0.0.9'' 4000 0))) = Some (Inr (h, Some plan), r)"
proof -
  let ?sdp = "BuildSDP ''10.0.0.9'' 4000 0"
  have "word_ok ''10.0.0.9''" by code_simp
  from sdp_roundtrip_map [OF this, of 4000 DirSendRecv 0 0]
  have p: "connectionIP (ParseSDP ?sdp) = ''10.0.0.9''" "sdp_port (ParseSDP ?sdp) = 4000"
    by (simp_all add: BuildSDP_def direction_ok_def)
  obtain req where r: "dial_request cfg (dial_env0 (answered 200 ?sdp)) target_uri
      (BuildSDPWithDirection ''10.0.0.7'' 21000 0 DirSendRecv) = Some req"
    by (simp add: assms dial_request_def buildInviteRequest_def resolveInviteIdentity_def dial_options_def call_config0_def)
  obtain ir tr where i: "SendINVITE (Some req) (answered 200 ?sdp) = (Inr ir, tr)"
    using p by (simp add: SendINVITE_def finish_invite_def answered_def Let_def)
  from i r show ?thesis
    by (simp add: leg_to_invite [OF assms] dial_invite_def Let_def)
      (simp add: assms call_config0_def dial_env0_def dial_start_def dial_remote_key_def dial_srtp_def dial_sender_def loopPayloads_def
        split: option.splits)
qed

definition sample_conf :: conference_config where
  "sample_conf = \<lparr>cc_BridgeURI = ''sip:room@pbx'', cc_AudioFile = ''a.wav'', cc_Codec = [], cc_LocalIP = [], cc_Duration = 0,
     cc_Username = ''u'', cc_Password = ''p''\<rparr>"

lemma sample_leg: "\<exists>leg. dialLeg sample_conf t None (dial_env0 (answered 200 (BuildSDP ''10.0.0.9'' 4000 0))) = Some (Inr leg)"
proof -
  have "leg_config sample_conf t None = call_config0\<lparr>cfg_Target := t, cfg_AudioFile := ''a.wav'', cfg_Codec := ''PCMU''\<rparr>"
    by (simp add: leg_config_def sample_conf_def call_config0_def)
  from leg_answered [OF this] show ?thesis by (auto simp: dialLeg_def)
qed

theorem conference_legs_witness:
  "\<exists>c0 c. StartConference sample_conf (dial_env0 (answered 200 (BuildSDP ''10.0.0.9'' 4000 0))) = Some (Inr c0)
    \<and> AddParticipant [] None (dial_env0 (answered 200 (BuildSDP ''10.0.0.9'' 4000 0))) c0 = Some (None, c)
    \<and> ParticipantCount c = 2 \<and> ParticipantCount (conf_Hangup c) = 0"
proof -
  let ?env = "dial_env0 (answered 200 (BuildSDP ''10.0.0.9'' 4000 0))"
  obtain leg where l: "dialLeg sample_conf (cc_BridgeURI sample_conf) None ?env = Some (Inr leg)" using sample_leg by blast
  let ?c = "\<lparr>cf_legs = [leg], cf_cfg = sample_conf\<rparr>"
  have s: "StartConference sample_conf ?env = Some (Inr ?c)" using l by (simp add: StartConference_def)
  have a: "AddParticipant [] None ?env ?c = Some (None, ?c\<lparr>cf_legs := [leg, leg]\<rparr>)"
    using l by (simp add: AddParticipant_def)
  from conference_legs [OF s a] s a show ?thesis by auto
qed

theorem conference_figures_witness:
  "\<exists>leg res. finalize sample_call = Some leg \<and> conf_Result \<lparr>cf_legs = [leg, leg], cf_cfg = sample_conf\<rparr> = Some res
    \<and> cr_Legs res = 2 \<and> 1 \<le> cr_AvgMOS res"
proof -
  obtain leg where l: "finalize sample_call = Some leg" by (simp add: finalize_def sample_call_def)
  from conference_figures [of "[leg, leg]" "[sample_call, sample_call]" "\<lparr>cf_legs = [leg, leg], cf_cfg = sample_conf\<rparr>"] l
  show ?thesis by auto
qed

definition sample_party :: third_party_config where
  "sample_party = \<lparr>tp_PartyA = ''sip:a@x'', tp_PartyB = ''sip:b@x'', tp_AudioA = ''a.wav'', tp_AudioB = ''a.wav'', tp_Codec = [],
     tp_LocalIP = [], tp_Duration = 0, tp_Transport = [], tp_TLSConfig = None\<rparr>"

theorem third_party_all_or_nothing_witness:
  "\<exists>e a. Dial3PCC sample_party (dial_env0 (answered 200 (BuildSDP ''10.0.0.9'' 4000 0))) (dial_env0 (answered 486 [])) 7
      = Some (Inl (DialB e), Some a) \<and> c_wire a = [SentBye]"
proof -
  let ?A = "dial_env0 (answered 200 (BuildSDP ''10.0.0.9'' 4000 0))" and ?B = "dial_env0 (answered 486 [])"
  have cfg: "party_config sample_party t ''a.wav'' = call_config0\<lparr>cfg_Target := t, cfg_AudioFile := ''a.wav'', cfg_Codec := ''PCMU''\<rparr>" for t
    by (simp add: party_config_def sample_party_def call_config0_def)
  obtain h plan r where a: "Dial (party_config sample_party (tp_PartyA sample_party) ''a.wav'') ?A = Some (Inr (h, plan), r)"
    using leg_answered [OF cfg] by blast
  obtain req where req: "dial_request (party_config sample_party (tp_PartyB sample_party) ''a.wav'') ?B target_uri
      (BuildSDPWithDirection ''10.0.0.7'' 21000 0 DirSendRecv) = Some req"
    by (simp add: cfg dial_request_def buildInviteRequest_def resolveInviteIdentity_def dial_options_def call_config0_def)
  have "SendINVITE (Some req) (answered 486 []) = (Inl (UnexpectedStatus 486), \<lparr>it_acked = False, it_closed = True\<rparr>)"
    by (simp add: SendINVITE_def finish_invite_def answered_def)
  with req obtain rb where b: "Dial (party_config sample_party (tp_PartyB sample_party) ''a.wav'') ?B
      = Some (Inl (InviteFailed (UnexpectedStatus 486)), rb)"
    by (simp add: leg_to_invite [OF cfg] dial_invite_def Let_def) (simp add: cfg call_config0_def dial_env0_def)
  have "tp_AudioA sample_party = ''a.wav''" "tp_AudioB sample_party = ''a.wav''" by (simp_all add: sample_party_def)
  with a b have d: "Dial3PCC sample_party ?A ?B 7
      = Some (Inl (DialB (InviteFailed (UnexpectedStatus 486))), Some (Hangup (auto_hangup plan 7 h)))"
    by (simp add: Dial3PCC_def)
  from third_party_all_or_nothing [OF d] d show ?thesis by auto
qed

end
