(* ===== verification/Registered_Uas.thy ===== *)
theory Registered_Uas
  imports Uas
begin

text \<open>
  The registered answering side (\<open>sip/registered_uas.go\<close>): its INVITE handler, the map from Call-IDs to
  stop signals, BYE, shutdown, the refresh timer and the port of the Contact. Every critical
  section of the handlers is a step. Shown: the limit on legs; with distinct Call-IDs a BYE stops
  exactly the leg it names and shutdown ends all legs; a re-INVITE of a running call starts a
  second leg and leaves the first without a way to be stopped.
\<close>

section \<open>One INVITE\<close>

record ruas_invite = invite +
  inv_callID :: string

text \<open>
  The order of the checks differs from the plain server: the socket is bound before the answer is
  built, and a missing Call-ID is refused after the 100. \<open>inv_port\<close> is the port the system chose.
  The stop signal is registered before the 200, so a failure to send the 200 shows in the step.
\<close>

definition ruas_answer :: "bool \<Rightarrow> bool \<Rightarrow> uas_config \<Rightarrow> ruas_invite \<Rightarrow> sip_reply list \<times> (string \<times> int) option" where
  "ruas_answer opus g729 cfg req = (case NewCodec opus g729 (uas_Codec cfg) of
       Inl _ \<Rightarrow> ([(415, [])], None)
     | Inr cod \<Rightarrow>
         let sdp = ParseSDP (inv_body req); remoteIP = connectionIP sdp; remotePort = sdp_port sdp
         in if remoteIP = [] \<or> remotePort = 0 then ([(400, [])], None)
            else if \<not> inv_bind_ok req then ([(100, []), (500, [])], None)
            else if inv_callID req = [] then ([(100, []), (400, [])], None)
            else
              let sdpAnswer = BuildSDP (uas_LocalIP cfg) (inv_port req) (codec_PayloadType cod)
              in ([(100, []), (200, sdpAnswer)], Some (remoteIP, remotePort)))"

section \<open>The handlers as steps\<close>

text \<open>
  A leg is counted and not yet answered, in a call with its stop signal (closed or not), after the
  call (the result is stored, the entry of the map not yet deleted), about to give its place
  back, or over.
\<close>

datatype rleg =
    RAdmitted ruas_invite
  | RRunning string bool
  | RDeleting string
  | RReleasing
  | ROver

record ruas =
  ru_active :: int
  ru_stopMap :: "string \<Rightarrow> nat option"
  ru_legs :: "rleg list"
  ru_results :: nat
  ru_ctx_done :: bool

definition ruas0 :: ruas where
  "ruas0 = \<lparr>ru_active = 0, ru_stopMap = (\<lambda>_. None), ru_legs = [], ru_results = 0, ru_ctx_done = False\<rparr>"

definition ru_count :: "uas_config \<Rightarrow> int \<Rightarrow> ruas \<Rightarrow> ruas" where
  "ru_count cfg d s = (if uas_MaxConcurrent cfg > 0 then s\<lparr>ru_active := ru_active s + d\<rparr> else s)"

definition ru_set :: "nat \<Rightarrow> rleg \<Rightarrow> ruas \<Rightarrow> ruas" where
  "ru_set i l s = s\<lparr>ru_legs := (ru_legs s)[i := l]\<rparr>"

definition ru_at :: "nat \<Rightarrow> rleg \<Rightarrow> ruas \<Rightarrow> bool" where
  "ru_at i l s \<longleftrightarrow> i < length (ru_legs s) \<and> ru_legs s ! i = l"

definition ru_busy :: "uas_config \<Rightarrow> ruas \<Rightarrow> bool" where
  "ru_busy cfg s \<longleftrightarrow> uas_MaxConcurrent cfg > 0 \<and> ru_active s \<ge> uas_MaxConcurrent cfg"

text \<open>\<open>handleBye\<close>: the reply is always 200; \<open>signal\<close> closes the channel once.\<close>

definition handleBye :: "string \<Rightarrow> ruas \<Rightarrow> ruas" where
  "handleBye callID s = (case ru_stopMap s callID of
       None \<Rightarrow> s
     | Some i \<Rightarrow> (if i < length (ru_legs s) then
          (case ru_legs s ! i of RRunning c _ \<Rightarrow> ru_set i (RRunning c True) s | _ \<Rightarrow> s) else s))"

inductive ruas_step :: "(ruas_invite \<Rightarrow> sip_reply list \<times> (string \<times> int) option) \<Rightarrow> uas_config \<Rightarrow> ruas \<Rightarrow> ruas \<Rightarrow> bool"
  for handler cfg where
  r_busy: "ru_busy cfg s \<Longrightarrow> ruas_step handler cfg s (s\<lparr>ru_legs := ru_legs s @ [ROver]\<rparr>)"
| r_admit: "\<not> ru_busy cfg s \<Longrightarrow> ruas_step handler cfg s (ru_count cfg 1 (s\<lparr>ru_legs := ru_legs s @ [RAdmitted req]\<rparr>))"
| r_refuse: "ru_at i (RAdmitted req) s \<Longrightarrow> handler req = (replies, None) \<Longrightarrow> ruas_step handler cfg s (ru_set i RReleasing s)"
| r_start: "ru_at i (RAdmitted req) s \<Longrightarrow> handler req = (replies, Some remote) \<Longrightarrow>
    ruas_step handler cfg s
      (ru_set i (if inv_respond_ok req then RRunning (inv_callID req) False else RDeleting (inv_callID req))
        (s\<lparr>ru_stopMap := (ru_stopMap s)(inv_callID req \<mapsto> i)\<rparr>))"
| r_finish: "ru_at i (RRunning callID signalled) s \<Longrightarrow> signalled \<or> ru_ctx_done s \<or> uas_CallDuration cfg > 0 \<Longrightarrow>
    ruas_step handler cfg s (ru_set i (RDeleting callID) (s\<lparr>ru_results := ru_results s + 1\<rparr>))"
| r_delete: "ru_at i (RDeleting callID) s \<Longrightarrow>
    ruas_step handler cfg s (ru_set i RReleasing (s\<lparr>ru_stopMap := (ru_stopMap s)(callID := None)\<rparr>))"
| r_release: "ru_at i RReleasing s \<Longrightarrow> ruas_step handler cfg s (ru_set i ROver (ru_count cfg (- 1) s))"
| r_bye: "ruas_step handler cfg s (handleBye callID s)"
| r_stop: "ruas_step handler cfg s (s\<lparr>ru_ctx_done := True\<rparr>)"

section \<open>Counting the legs\<close>

fun rlive :: "rleg \<Rightarrow> bool" where
  "rlive ROver = False"
| "rlive _ = True"

definition rlive_legs :: "ruas \<Rightarrow> nat" where
  "rlive_legs s = length (filter rlive (ru_legs s))"

lemma ru_fields [simp]:
  "ru_legs (ru_count cfg d s) = ru_legs s" "ru_legs (ru_set i l s) = (ru_legs s)[i := l]"
  "ru_active (ru_set i l s) = ru_active s" "ru_stopMap (ru_set i l s) = ru_stopMap s" "ru_stopMap (ru_count cfg d s) = ru_stopMap s"
  "ru_active (ru_count cfg d s) = ru_active s + (if uas_MaxConcurrent cfg > 0 then d else 0)"
  "ru_ctx_done (ru_set i l s) = ru_ctx_done s" "ru_ctx_done (ru_count cfg d s) = ru_ctx_done s"
  "ru_results (ru_set i l s) = ru_results s" "ru_results (ru_count cfg d s) = ru_results s"
  by (simp_all add: ru_count_def ru_set_def)

lemma rlive_update: "ru_at i l s \<Longrightarrow>
    length (filter rlive ((ru_legs s)[i := l'])) + one (rlive l) = length (filter rlive (ru_legs s)) + one (rlive l')"
  using length_filter_update [of i "ru_legs s" rlive l'] by (simp add: ru_at_def)

text \<open>A BYE sets at most the signal of one leg in a call.\<close>

lemma handleBye_cases:
  "handleBye callID s = s \<or> (\<exists>i c b. ru_stopMap s callID = Some i \<and> ru_at i (RRunning c b) s \<and> handleBye callID s = ru_set i (RRunning c True) s)"
  by (auto simp: handleBye_def ru_at_def split: option.split rleg.split)

lemma handleBye_fields: "ru_active (handleBye callID s) = ru_active s \<and> ru_stopMap (handleBye callID s) = ru_stopMap s
    \<and> ru_ctx_done (handleBye callID s) = ru_ctx_done s \<and> length (filter rlive (ru_legs (handleBye callID s))) = length (filter rlive (ru_legs s))"
proof -
  consider "handleBye callID s = s" | i c b where "ru_at i (RRunning c b) s" "handleBye callID s = ru_set i (RRunning c True) s"
    using handleBye_cases by blast
  then show ?thesis
  proof cases
    case 2
    with rlive_update [OF 2(1), of "RRunning c True"] show ?thesis by simp
  qed simp
qed

lemma ruas_counted: "ruas_step handler cfg s s' \<Longrightarrow> 0 < uas_MaxConcurrent cfg \<Longrightarrow>
    ru_active s' - ru_active s = int (rlive_legs s') - int (rlive_legs s)
    \<and> (ru_active s < ru_active s' \<longrightarrow> ru_active s' \<le> uas_MaxConcurrent cfg)"
proof (induction rule: ruas_step.induct)
  case (r_refuse i req s replies)
  with rlive_update [OF r_refuse(1), of RReleasing] show ?case by (auto simp: rlive_legs_def)
next
  case (r_start i req s replies remote)
  with rlive_update [OF r_start(1), of "RRunning (inv_callID req) False"] rlive_update [OF r_start(1), of "RDeleting (inv_callID req)"]
  show ?case by (auto simp: rlive_legs_def)
next
  case (r_finish i callID signalled s)
  with rlive_update [OF r_finish(1), of "RDeleting callID"] show ?case by (auto simp: rlive_legs_def)
next
  case (r_delete i callID s)
  with rlive_update [OF r_delete(1), of RReleasing] show ?case by (auto simp: rlive_legs_def)
next
  case (r_release i s)
  with rlive_update [OF r_release(1), of ROver] show ?case by (auto simp: rlive_legs_def)
next
  case (r_bye s callID)
  with handleBye_fields [of callID s] show ?case by (auto simp: rlive_legs_def)
qed (auto simp: rlive_legs_def ru_busy_def)

interpretation registered: limited_steps "ruas_step handler cfg" ruas0 ru_active rlive_legs "uas_MaxConcurrent cfg"
  for handler cfg
  by unfold_locales (use ruas_counted [of handler cfg] in \<open>auto simp: ruas0_def rlive_legs_def\<close>)

text \<open>C15: The registered server never runs more legs than its limit, and its counter is exact, whatever
  INVITEs, BYEs, timeouts and shutdown interleave.\<close>
theorem ruas_capacity:
  assumes "(ruas_step handler cfg)\<^sup>*\<^sup>* ruas0 s" "0 < uas_MaxConcurrent cfg"
  shows "ru_active s = int (rlive_legs s) \<and> int (rlive_legs s) \<le> uas_MaxConcurrent cfg"
  using assms by (rule registered.capacity)

section \<open>The map of stop signals\<close>

text \<open>The Call-ID of a leg that has registered its stop signal and not yet deleted it.\<close>

definition leg_id :: "ruas \<Rightarrow> nat \<Rightarrow> string option" where
  "leg_id s i = (if i < length (ru_legs s) then
     (case ru_legs s ! i of RRunning c _ \<Rightarrow> Some c | RDeleting c \<Rightarrow> Some c | _ \<Rightarrow> None) else None)"

definition distinct_ids :: "ruas \<Rightarrow> bool" where
  "distinct_ids s \<longleftrightarrow> (\<forall>i j c. leg_id s i = Some c \<longrightarrow> leg_id s j = Some c \<longrightarrow> i = j)"

lemma leg_id_set: "ru_at i l s \<Longrightarrow> leg_id (ru_set i l' s) k =
    (if k = i then (case l' of RRunning c _ \<Rightarrow> Some c | RDeleting c \<Rightarrow> Some c | _ \<Rightarrow> None) else leg_id s k)"
  by (simp add: leg_id_def ru_at_def nth_list_update)

lemma leg_id_at: "ru_at i l s \<Longrightarrow> leg_id s i = (case l of RRunning c _ \<Rightarrow> Some c | RDeleting c \<Rightarrow> Some c | _ \<Rightarrow> None)"
  by (simp add: leg_id_def ru_at_def)

lemma leg_id_fields [simp]:
  "leg_id (ru_count cfg d s) = leg_id s" "leg_id (s\<lparr>ru_stopMap := m\<rparr>) = leg_id s" "leg_id (s\<lparr>ru_results := n\<rparr>) = leg_id s"
  "leg_id (s\<lparr>ru_ctx_done := b\<rparr>) = leg_id s"
  by (simp_all add: leg_id_def fun_eq_iff)

lemma leg_id_append: "leg_id (s\<lparr>ru_legs := ru_legs s @ [l]\<rparr>) k =
    (if k = length (ru_legs s) then (case l of RRunning c _ \<Rightarrow> Some c | RDeleting c \<Rightarrow> Some c | _ \<Rightarrow> None) else leg_id s k)"
  by (simp add: leg_id_def nth_append)

lemma leg_id_end [simp]: "leg_id s (length (ru_legs s)) = None"
  by (simp add: leg_id_def)

lemma ru_at_fields [simp]: "ru_at i l (s\<lparr>ru_stopMap := m\<rparr>) = ru_at i l s" "ru_at i l (s\<lparr>ru_results := n\<rparr>) = ru_at i l s"
  "ru_at i l (ru_count cfg d s) = ru_at i l s"
  by (simp_all add: ru_at_def)

lemma leg_id_bye: "leg_id (handleBye callID s) = leg_id s"
proof -
  consider "handleBye callID s = s" | i c b where "ru_at i (RRunning c b) s" "handleBye callID s = ru_set i (RRunning c True) s"
    using handleBye_cases by blast
  then show ?thesis
  proof cases
    case 2
    with leg_id_set [OF 2(1)] leg_id_at [OF 2(1)] show ?thesis by (auto simp: fun_eq_iff)
  qed simp
qed

text \<open>An entry of the map always points to a leg with that Call-ID.\<close>

definition map_sound :: "ruas \<Rightarrow> bool" where
  "map_sound s \<longleftrightarrow> (\<forall>c i. ru_stopMap s c = Some i \<longrightarrow> leg_id s i = Some c)"

text \<open>Every such leg has its entry.\<close>

definition map_complete :: "ruas \<Rightarrow> bool" where
  "map_complete s \<longleftrightarrow> (\<forall>c i. leg_id s i = Some c \<longrightarrow> ru_stopMap s c = Some i)"

lemma map_sound_step: "ruas_step handler cfg s s' \<Longrightarrow> map_sound s \<Longrightarrow> map_sound s'"
proof (induction rule: ruas_step.induct)
  case (r_refuse i req s replies)
  with leg_id_set [OF r_refuse(1)] leg_id_at [OF r_refuse(1)] show ?case by (force simp: map_sound_def)
next
  case (r_start i req s replies remote)
  with leg_id_set [of i "RAdmitted req" "s\<lparr>ru_stopMap := (ru_stopMap s)(inv_callID req \<mapsto> i)\<rparr>"] leg_id_at [OF r_start(1)]
  show ?case by (auto simp: map_sound_def)
next
  case (r_finish i callID signalled s)
  with leg_id_set [of i "RRunning callID signalled" "s\<lparr>ru_results := ru_results s + 1\<rparr>"] leg_id_at [OF r_finish(1)]
  show ?case by (auto simp: map_sound_def)
next
  case (r_delete i callID s)
  with leg_id_set [of i "RDeleting callID" "s\<lparr>ru_stopMap := (ru_stopMap s)(callID := None)\<rparr>"] leg_id_at [OF r_delete(1)]
  show ?case by (force simp: map_sound_def)
next
  case (r_release i s)
  with leg_id_set [of i RReleasing "ru_count cfg (- 1) s"] leg_id_at [OF r_release(1)] show ?case by (force simp: map_sound_def)
next
  case (r_bye s callID)
  with handleBye_fields [of callID s] show ?case by (simp add: map_sound_def leg_id_bye)
next
  case (r_busy s)
  then show ?case by (fastforce simp: map_sound_def leg_id_append)
next
  case (r_admit s req)
  then show ?case by (fastforce simp: map_sound_def leg_id_append)
qed (simp add: map_sound_def)

lemma map_complete_step:
  "ruas_step handler cfg s s' \<Longrightarrow> distinct_ids s \<Longrightarrow> distinct_ids s' \<Longrightarrow> map_complete s \<Longrightarrow> map_complete s'"
proof (induction rule: ruas_step.induct)
  case (r_refuse i req s replies)
  with leg_id_set [OF r_refuse(1)] show ?case by (auto simp: map_complete_def)
next
  case (r_start i req s replies remote)
  let ?s = "s\<lparr>ru_stopMap := (ru_stopMap s)(inv_callID req \<mapsto> i)\<rparr>"
  let ?s' = "ru_set i (if inv_respond_ok req then RRunning (inv_callID req) False else RDeleting (inv_callID req)) ?s"
  have ids: "leg_id ?s' k = (if k = i then Some (inv_callID req) else leg_id s k)" for k
    using leg_id_set [of i "RAdmitted req" ?s] r_start(1) by simp
  then have "leg_id s k \<noteq> Some (inv_callID req)" if "k \<noteq> i" for k
    using r_start.prems(2) that unfolding distinct_ids_def by metis
  with ids r_start.prems(3) show ?case by (auto simp: map_complete_def)
next
  case (r_finish i callID signalled s)
  with leg_id_set [of i "RRunning callID signalled" "s\<lparr>ru_results := ru_results s + 1\<rparr>"] leg_id_at [OF r_finish(1)]
  show ?case by (auto simp: map_complete_def)
next
  case (r_delete i callID s)
  have "leg_id s i = Some callID" using leg_id_at [OF r_delete(1)] by simp
  then have "leg_id s k \<noteq> Some callID" if "k \<noteq> i" for k
    using r_delete.prems(1) that unfolding distinct_ids_def by metis
  with r_delete.prems(3) leg_id_set [of i "RDeleting callID" "s\<lparr>ru_stopMap := (ru_stopMap s)(callID := None)\<rparr>"] r_delete(1)
  show ?case by (auto simp: map_complete_def)
next
  case (r_release i s)
  with leg_id_set [of i RReleasing "ru_count cfg (- 1) s"] show ?case by (auto simp: map_complete_def)
next
  case (r_bye s callID)
  with handleBye_fields [of callID s] show ?case by (simp add: map_complete_def leg_id_bye)
qed (auto simp: map_complete_def leg_id_append)

text \<open>Runs in which no two legs that are in a call have the same Call-ID.\<close>

definition distinct_run :: "(ruas_invite \<Rightarrow> sip_reply list \<times> (string \<times> int) option) \<Rightarrow> uas_config \<Rightarrow> ruas \<Rightarrow> ruas \<Rightarrow> bool" where
  "distinct_run handler cfg = (\<lambda>s s'. ruas_step handler cfg s s' \<and> distinct_ids s')\<^sup>*\<^sup>*"

lemma distinct_run_complete: "distinct_run handler cfg ruas0 s \<Longrightarrow> map_complete s \<and> distinct_ids s"
  unfolding distinct_run_def
proof (induction rule: rtranclp_induct)
  case base
  show ?case by (simp add: map_complete_def distinct_ids_def leg_id_def ruas0_def)
next
  case (step s1 s2)
  with map_complete_step [of handler cfg s1 s2] show ?case by blast
qed

text \<open>C4: While the calls in progress have different Call-IDs, a BYE that names a running leg closes the stop
  signal of exactly this leg, whereupon the leg can end; other legs are not touched, and a second
  BYE for the same leg changes nothing more (and closes no channel twice).\<close>
theorem bye_stops_its_leg:
  assumes "distinct_run handler cfg ruas0 s" "ru_at i (RRunning callID b) s"
  shows "handleBye callID s = ru_set i (RRunning callID True) s
    \<and> handleBye callID (handleBye callID s) = handleBye callID s
    \<and> ruas_step handler cfg (handleBye callID s)
        (ru_set i (RDeleting callID) ((handleBye callID s)\<lparr>ru_results := ru_results s + 1\<rparr>))"
proof -
  have "ru_stopMap s callID = Some i"
    using distinct_run_complete [OF assms(1)] leg_id_at [OF assms(2)] by (simp add: map_complete_def)
  with assms(2) have b: "handleBye callID s = ru_set i (RRunning callID True) s"
    by (simp add: handleBye_def ru_at_def)
  have at: "ru_at i (RRunning callID True) (ru_set i (RRunning callID True) s)"
    using assms(2) by (simp add: ru_at_def)
  have "handleBye callID (ru_set i (RRunning callID True) s) = ru_set i (RRunning callID True) s"
    using \<open>ru_stopMap s callID = Some i\<close> assms(2) by (simp add: handleBye_def ru_at_def ru_set_def)
  with b r_finish [OF at, of cfg handler] show ?thesis by simp
qed

section \<open>A re-INVITE\<close>

text \<open>A leg that no entry of the map points to runs on until the server is stopped.\<close>

definition orphan :: "nat \<Rightarrow> string \<Rightarrow> ruas \<Rightarrow> bool" where
  "orphan i callID s \<longleftrightarrow> ru_at i (RRunning callID False) s \<and> (\<forall>c. ru_stopMap s c \<noteq> Some i)"

lemma ru_at_set: "ru_at k l s \<Longrightarrow> ru_at i l' (ru_set k l2 s) = (if i = k then l' = l2 else ru_at i l' s)"
  by (auto simp: ru_at_def nth_list_update)

lemma ru_at_other: "i \<noteq> k \<Longrightarrow> ru_at i l (ru_set k l2 s) = ru_at i l s"
  by (simp add: ru_at_def)

lemma ru_at_unique: "ru_at i l s \<Longrightarrow> ru_at i l' s \<Longrightarrow> l = l'"
  by (simp add: ru_at_def)

lemma orphan_step:
  assumes "uas_CallDuration cfg \<le> 0"
  shows "ruas_step handler cfg s s' \<Longrightarrow> \<not> ru_ctx_done s \<Longrightarrow> orphan i callID s \<Longrightarrow> orphan i callID s'"
proof (induction rule: ruas_step.induct)
  case (r_bye s c)
  from handleBye_cases [of c s] handleBye_fields [of c s] r_bye(2) show ?case by (auto simp: orphan_def ru_at_set)
next
  case (r_finish k c signalled s)
  from r_finish(2) assms r_finish(3) have "signalled" by simp
  with r_finish(1,4) have "k \<noteq> i" by (auto simp: orphan_def dest: ru_at_unique)
  with r_finish(1,4) show ?case by (auto simp: orphan_def ru_at_other)
next
  case (r_start k req s replies remote)
  then have "k \<noteq> i" by (auto simp: orphan_def dest: ru_at_unique)
  with r_start show ?case by (auto simp: orphan_def ru_at_other)
next
  case (r_refuse k req s replies)
  then have "k \<noteq> i" by (auto simp: orphan_def dest: ru_at_unique)
  with r_refuse show ?case by (auto simp: orphan_def ru_at_other)
next
  case (r_delete k c s)
  then have "k \<noteq> i" by (auto simp: orphan_def dest: ru_at_unique)
  with r_delete show ?case by (auto simp: orphan_def ru_at_other)
next
  case (r_release k s)
  then have "k \<noteq> i" by (auto simp: orphan_def dest: ru_at_unique)
  with r_release show ?case by (auto simp: orphan_def ru_at_other)
qed (auto simp: orphan_def ru_at_def nth_append)

lemma ctx_step: "ruas_step handler cfg s s' \<Longrightarrow> ru_ctx_done s \<Longrightarrow> ru_ctx_done s'"
  by (induction rule: ruas_step.induct) (simp_all add: handleBye_fields)

lemma orphan_reach:
  assumes "uas_CallDuration cfg \<le> 0"
  shows "(ruas_step handler cfg)\<^sup>*\<^sup>* s s' \<Longrightarrow> orphan i callID s \<Longrightarrow> \<not> ru_ctx_done s' \<Longrightarrow> orphan i callID s'"
proof (induction rule: rtranclp_induct)
  case (step s1 s2)
  from step(2,5) ctx_step have "\<not> ru_ctx_done s1" by blast
  with step orphan_step [OF assms step(2)] show ?case by blast
qed

text \<open>
  A re-INVITE (the peer holds the call, or refreshes the session) goes through the same handler as
  a new call: when it is answered, a second leg runs under the Call-ID and takes over its entry of
  the map. Without a call duration the first leg then runs on, and keeps its place, its socket and
  its sender, until the whole server is stopped: no BYE reaches it, neither with this Call-ID nor
  with another one.
\<close>
theorem reinvite_orphans_leg:
  assumes "uas_CallDuration cfg \<le> 0" "(ruas_step handler cfg)\<^sup>*\<^sup>* ruas0 s"
    and "ru_at i (RRunning callID False) s" "ru_at j (RAdmitted req) s" "inv_callID req = callID"
    and "handler req = (replies, Some remote)" "inv_respond_ok req"
  shows "\<exists>s1. ruas_step handler cfg s s1 \<and> ru_at j (RRunning callID False) s1
    \<and> (\<forall>s'. (ruas_step handler cfg)\<^sup>*\<^sup>* s1 s' \<longrightarrow> \<not> ru_ctx_done s' \<longrightarrow> ru_at i (RRunning callID False) s')"
proof -
  let ?s1 = "ru_set j (RRunning callID False) (s\<lparr>ru_stopMap := (ru_stopMap s)(callID \<mapsto> j)\<rparr>)"
  have ij: "i \<noteq> j" using ru_at_unique [of i] assms(3,4) by blast
  have step: "ruas_step handler cfg s ?s1"
    using r_start [where handler = handler and cfg = cfg and s = s and i = j and req = req] assms(4-7) by simp
  have "map_sound ruas0" by (simp add: map_sound_def ruas0_def)
  with assms(2) have "map_sound s" by (induction rule: rtranclp_induct) (auto dest: map_sound_step)
  then have "ru_stopMap s c = Some i \<Longrightarrow> c = callID" for c
    using leg_id_at [OF assms(3)] by (auto simp: map_sound_def)
  with ij assms(3) have "orphan i callID ?s1" by (auto simp: orphan_def ru_at_other)
  then have "\<forall>s'. (ruas_step handler cfg)\<^sup>*\<^sup>* ?s1 s' \<longrightarrow> \<not> ru_ctx_done s' \<longrightarrow> ru_at i (RRunning callID False) s'"
    using orphan_reach [OF assms(1)] by (auto simp: orphan_def)
  moreover have "ru_at j (RRunning callID False) ?s1" using assms(4) by (simp add: ru_at_def)
  ultimately show ?thesis using step by blast
qed

section \<open>Shutdown\<close>

fun leg_left :: "rleg \<Rightarrow> nat" where
  "leg_left (RAdmitted _) = 4" | "leg_left (RRunning _ _) = 3" | "leg_left (RDeleting _) = 2"
| "leg_left RReleasing = 1" | "leg_left ROver = 0"

definition legs_left :: "ruas \<Rightarrow> nat" where
  "legs_left s = sum_list (map leg_left (ru_legs s))"

lemma legs_left_set: "ru_at i l s \<Longrightarrow> sum_list (map leg_left ((ru_legs s)[i := l'])) + leg_left l = legs_left s + leg_left l'"
  using sum_list_update [of i "ru_legs s" leg_left l'] by (simp add: ru_at_def legs_left_def)

lemma leg_moves:
  assumes "ru_ctx_done s" "ru_at i l s" "l \<noteq> ROver"
  shows "\<exists>s'. ruas_step handler cfg s s' \<and> legs_left s' < legs_left s \<and> ru_ctx_done s'"
proof (cases l)
  case (RAdmitted req)
  with assms(2) have at: "ru_at i (RAdmitted req) s" by simp
  obtain replies x where h: "handler req = (replies, x)" by (cases "handler req")
  show ?thesis
  proof (cases x)
    case None
    with r_refuse [OF at, of handler replies cfg] h legs_left_set [OF at, of RReleasing] assms(1) show ?thesis
      by (intro exI [of _ "ru_set i RReleasing s"]) (simp add: legs_left_def)
  next
    case (Some remote)
    let ?s = "ru_set i (if inv_respond_ok req then RRunning (inv_callID req) False else RDeleting (inv_callID req))
        (s\<lparr>ru_stopMap := (ru_stopMap s)(inv_callID req \<mapsto> i)\<rparr>)"
    have "ruas_step handler cfg s ?s"
      using r_start [where handler = handler and cfg = cfg and s = s and i = i and req = req] at h Some by blast
    with legs_left_set [OF at, of "RRunning (inv_callID req) False"]
      legs_left_set [OF at, of "RDeleting (inv_callID req)"] assms(1)
    show ?thesis by (intro exI [of _ ?s]) (auto simp: legs_left_def)
  qed
next
  case (RRunning c b)
  with assms(2) have at: "ru_at i (RRunning c b) s" by simp
  from r_finish [OF at, of cfg handler] legs_left_set [OF at, of "RDeleting c"] assms(1) show ?thesis
    by (intro exI [of _ "ru_set i (RDeleting c) (s\<lparr>ru_results := ru_results s + 1\<rparr>)"]) (simp add: legs_left_def)
next
  case (RDeleting c)
  with assms(2) have at: "ru_at i (RDeleting c) s" by simp
  from r_delete [OF at, of handler cfg] legs_left_set [OF at, of RReleasing] assms(1) show ?thesis
    by (intro exI [of _ "ru_set i RReleasing (s\<lparr>ru_stopMap := (ru_stopMap s)(c := None)\<rparr>)"]) (simp add: legs_left_def)
next
  case RReleasing
  with assms(2) have at: "ru_at i RReleasing s" by simp
  from r_release [OF at, of handler cfg] legs_left_set [OF at, of ROver] assms(1) show ?thesis
    by (intro exI [of _ "ru_set i ROver (ru_count cfg (- 1) s)"]) (simp add: legs_left_def)
qed (use assms(3) in simp)

interpretation draining: draining_steps "ruas_step handler cfg" ru_ctx_done legs_left
    "\<lambda>s. \<forall>l \<in> set (ru_legs s). l = ROver" for handler cfg
proof unfold_locales
  fix s :: ruas
  assume "ru_ctx_done s" "\<not> (\<forall>l \<in> set (ru_legs s). l = ROver)"
  moreover from this(2) obtain i l where "ru_at i l s" "l \<noteq> ROver" by (auto simp: ru_at_def in_set_conv_nth)
  ultimately show "\<exists>s'. ruas_step handler cfg s s' \<and> legs_left s' < legs_left s" using leg_moves by blast
qed (rule ctx_step)

text \<open>C16: Stopping the server ends every leg, orphaned or not: once the context is cancelled, steps of the
  handlers alone lead to a state where all legs are over, and with a limit the counter is back at zero.\<close>
theorem shutdown_drains:
  assumes "(ruas_step handler cfg)\<^sup>*\<^sup>* ruas0 s" "ru_ctx_done s"
  shows "\<exists>s'. (ruas_step handler cfg)\<^sup>*\<^sup>* s s' \<and> (\<forall>l \<in> set (ru_legs s'). l = ROver)
    \<and> (0 < uas_MaxConcurrent cfg \<longrightarrow> ru_active s' = 0)"
proof -
  obtain s' where s': "(ruas_step handler cfg)\<^sup>*\<^sup>* s s'" "\<forall>l \<in> set (ru_legs s'). l = ROver"
    using draining.drains [OF assms(2), of handler cfg] by blast
  have "filter rlive (ru_legs s') = []" using s'(2) by (auto simp: filter_empty_conv)
  with registered.capacity [OF rtranclp_trans [OF assms(1) s'(1)]] s' show ?thesis
    by (auto simp: rlive_legs_def)
qed

section \<open>Refresh timer and Contact port\<close>

text \<open>\<open>autoRefresh\<close>: the interval of the ticker in seconds.\<close>

definition refresh_interval :: "int \<Rightarrow> int" where
  "refresh_interval expires =
     (let halfSec = expires sdiv 2;
          halfSec = (if halfSec < 5 then 5 else halfSec);
          capSec = expires - 5;
          capSec = (if capSec < 1 then 1 else capSec)
      in if halfSec > capSec then capSec else halfSec)"

text \<open>The ticker is valid for every configured lifetime, the refresh comes before a lifetime of more than a
  second is over, at least 5 seconds before the end of one of more than 6, and at half time from 10 seconds on.\<close>
theorem refresh_before_expiry:
  "1 \<le> refresh_interval e \<and> (1 < e \<longrightarrow> refresh_interval e < e) \<and> (6 \<le> e \<longrightarrow> refresh_interval e \<le> e - 5)
    \<and> (10 \<le> e \<longrightarrow> refresh_interval e = e div 2)"
proof -
  have "0 \<le> e \<Longrightarrow> e sdiv 2 = e div 2" by (auto simp: signed_divide_int_def sgn_if)
  then show ?thesis by (auto simp: refresh_interval_def Let_def)
qed

text \<open>\<open>net.SplitHostPort\<close> of the standard library: the port, or nothing for an error.\<close>

definition split_port :: "string \<Rightarrow> string option" where
  "split_port hp =
     (if CHR '':'' \<notin> set hp then None
      else
        let port = rev (takeWhile (\<lambda>c. c \<noteq> CHR '':'') (rev hp));
            i = length hp - length port - 1
        in if hp ! 0 = CHR ''['' then
             (if CHR '']'' \<notin> set hp then None
              else let e = length (takeWhile (\<lambda>c. c \<noteq> CHR '']'') hp) in
                if e + 1 \<noteq> i then None
                else if CHR ''['' \<in> set (drop 1 hp) \<or> CHR '']'' \<in> set (drop (e + 1) hp) then None
                else Some port)
           else if CHR '':'' \<in> set (take i hp) then None
           else if CHR ''['' \<in> set hp \<or> CHR '']'' \<in> set hp then None
           else Some port)"

definition listenPortFromAddr :: "string \<Rightarrow> int" where
  "listenPortFromAddr addr = (case split_port addr of
       None \<Rightarrow> 5060
     | Some portStr \<Rightarrow> (case Atoi portStr of None \<Rightarrow> 5060 | Some port \<Rightarrow> if port \<le> 0 then 5060 else port))"

text \<open>A listen address made of a host without colons and brackets (or of a bracketed IPv6 address) and a
  port gives back that port for the Contact; whatever the address, the port is positive.\<close>
theorem listen_port:
  assumes "set host \<inter> {CHR ''['', CHR '']''} = {}" "0 < p" "p < 2 ^ 63"
  shows "(CHR '':'' \<notin> set host \<longrightarrow> listenPortFromAddr (host @ '':'' @ show_nat p) = int p)
    \<and> listenPortFromAddr (''['' @ host @ '']:'' @ show_nat p) = int p \<and> 0 < listenPortFromAddr addr"
proof -
  let ?p = "show_nat p"
  have d: "(of_char c :: nat) < 58" if "c \<in> set ?p" for c
    using show_nat_digits [OF that] by (auto simp: digit_char_def)
  have n: "CHR '':'' \<notin> set ?p" "CHR ''['' \<notin> set ?p" "CHR '']'' \<notin> set ?p"
    using d [of "CHR '':''"] d [of "CHR ''[''"] d [of "CHR '']''"] by auto
  have port: "rev (takeWhile (\<lambda>c. c \<noteq> CHR '':'') (rev (h @ '':'' @ ?p))) = ?p" for h
    using n(1) by (simp add: takeWhile_append takeWhile_eq_all_conv)
  have atoi: "Atoi ?p = Some (int p)" using assms(3) by (rule Atoi_show_nat)
  have "split_port (host @ '':'' @ ?p) = Some ?p" if h: "CHR '':'' \<notin> set host"
  proof -
    have "(host @ '':'' @ ?p) ! 0 \<noteq> CHR ''[''" using assms(1) by (cases host) auto
    then show ?thesis
      using h assms(1) n port [of host] by (auto simp: split_port_def Let_def)
  qed
  moreover have "split_port (''['' @ host @ '']:'' @ ?p) = Some ?p"
  proof -
    have "takeWhile (\<lambda>c. c \<noteq> CHR '']'') (''['' @ host @ '']:'' @ ?p) = ''['' @ host"
      using assms(1) by (auto simp: takeWhile_append takeWhile_eq_all_conv)
    then show ?thesis
      using assms(1) n port [of "''['' @ host @ '']''"] by (auto simp: split_port_def Let_def)
  qed
  ultimately show ?thesis using atoi assms(2) by (auto simp: listenPortFromAddr_def split: option.split)
qed

section \<open>Witnesses\<close>

definition sample_handler :: "ruas_invite \<Rightarrow> sip_reply list \<times> (string \<times> int) option" where
  "sample_handler req = ([(100, []), (200, [])], Some (''10.0.0.7'', 20000))"

definition two_uas :: uas_config where
  "two_uas = sample_uas\<lparr>uas_MaxConcurrent := 2\<rparr>"

definition same_invite :: ruas_invite where
  "same_invite = \<lparr>inv_body = [], inv_port = 30000, inv_respond_ok = True, inv_bind_ok = True, inv_callID = ''x''\<rparr>"

text \<open>One running leg, then the re-INVITE admitted beside it.\<close>

definition ruas1 :: ruas where
  "ruas1 = \<lparr>ru_active = 1, ru_stopMap = [''x'' \<mapsto> 0], ru_legs = [RRunning ''x'' False], ru_results = 0, ru_ctx_done = False\<rparr>"

definition ruas2 :: ruas where
  "ruas2 = \<lparr>ru_active = 2, ru_stopMap = [''x'' \<mapsto> 0], ru_legs = [RRunning ''x'' False, RAdmitted same_invite],
     ru_results = 0, ru_ctx_done = False\<rparr>"

lemma two_limits: "uas_MaxConcurrent two_uas = 2" "uas_CallDuration two_uas \<le> 0"
  by (simp_all add: two_uas_def sample_uas_def)

lemma ruas1_steps:
  "\<exists>s. ruas_step sample_handler two_uas ruas0 s \<and> distinct_ids s \<and> ruas_step sample_handler two_uas s ruas1 \<and> distinct_ids ruas1"
proof -
  let ?s = "ru_count two_uas 1 (ruas0\<lparr>ru_legs := ru_legs ruas0 @ [RAdmitted same_invite]\<rparr>)"
  have "ruas_step sample_handler two_uas ruas0 ?s"
    by (rule r_admit) (simp add: ru_busy_def ruas0_def two_limits)
  moreover have "ruas_step sample_handler two_uas ?s ruas1"
  proof -
    have "ru_at 0 (RAdmitted same_invite) ?s" by (simp add: ru_at_def ruas0_def)
    from r_start [where handler = sample_handler and cfg = two_uas, OF this, of "[(100, []), (200, [])]" "(''10.0.0.7'', 20000)"]
    show ?thesis by (simp add: sample_handler_def ruas1_def ru_set_def ru_count_def ruas0_def two_limits same_invite_def fun_upd_def)
  qed
  moreover have "distinct_ids ?s" by (simp add: distinct_ids_def leg_id_def ruas0_def)
  moreover have "distinct_ids ruas1" by (simp add: distinct_ids_def leg_id_def ruas1_def)
  ultimately show ?thesis by blast
qed

lemma ruas1_reached: "(ruas_step sample_handler two_uas)\<^sup>*\<^sup>* ruas0 ruas1" "distinct_run sample_handler two_uas ruas0 ruas1"
proof -
  from ruas1_steps obtain s where s: "ruas_step sample_handler two_uas ruas0 s" "distinct_ids s"
    "ruas_step sample_handler two_uas s ruas1" "distinct_ids ruas1" by blast
  show "(ruas_step sample_handler two_uas)\<^sup>*\<^sup>* ruas0 ruas1"
    by (rule rtranclp.rtrancl_into_rtrancl [OF r_into_rtranclp [of "ruas_step sample_handler two_uas", OF s(1)] s(3)])
  let ?R = "\<lambda>s s'. ruas_step sample_handler two_uas s s' \<and> distinct_ids s'"
  have "?R ruas0 s" "?R s ruas1" using s by simp_all
  then show "distinct_run sample_handler two_uas ruas0 ruas1"
    unfolding distinct_run_def by (rule converse_rtranclp_into_rtranclp [OF _ r_into_rtranclp])
qed

lemma ruas2_reached: "(ruas_step sample_handler two_uas)\<^sup>*\<^sup>* ruas0 ruas2"
proof -
  have "\<not> ru_busy two_uas ruas1" by (simp add: ru_busy_def ruas1_def two_limits)
  from r_admit [OF this, of sample_handler same_invite] have "ruas_step sample_handler two_uas ruas1 ruas2"
    by (simp add: ruas1_def ruas2_def ru_count_def two_limits)
  with ruas1_reached(1) show ?thesis by simp
qed

theorem ruas_capacity_witness: "ru_active ruas2 = 2 \<and> int (rlive_legs ruas2) \<le> 2"
  using ruas_capacity [OF ruas2_reached] by (simp add: two_limits ruas2_def)

theorem bye_stops_its_leg_witness: "handleBye ''x'' ruas1 = ru_set 0 (RRunning ''x'' True) ruas1"
  using bye_stops_its_leg [OF ruas1_reached(2), of 0 "''x''" False] by (simp add: ru_at_def ruas1_def)

theorem reinvite_orphans_leg_witness:
  "\<exists>s1. ruas_step sample_handler two_uas ruas2 s1 \<and> ru_at 1 (RRunning ''x'' False) s1
    \<and> (\<forall>s'. (ruas_step sample_handler two_uas)\<^sup>*\<^sup>* s1 s' \<longrightarrow> \<not> ru_ctx_done s' \<longrightarrow> ru_at 0 (RRunning ''x'' False) s')"
proof -
  have "ru_at 0 (RRunning ''x'' False) ruas2" "ru_at 1 (RAdmitted same_invite) ruas2" "inv_callID same_invite = ''x''"
    "sample_handler same_invite = ([(100, []), (200, [])], Some (''10.0.0.7'', 20000))" "inv_respond_ok same_invite"
    by (simp_all add: ru_at_def ruas2_def same_invite_def sample_handler_def)
  from reinvite_orphans_leg [OF two_limits(2) ruas2_reached this] show ?thesis .
qed

theorem shutdown_drains_witness:
  "\<exists>s'. (ruas_step sample_handler two_uas)\<^sup>*\<^sup>* (ruas2\<lparr>ru_ctx_done := True\<rparr>) s' \<and> (\<forall>l \<in> set (ru_legs s'). l = ROver) \<and> ru_active s' = 0"
proof -
  have "ruas_step sample_handler two_uas ruas2 (ruas2\<lparr>ru_ctx_done := True\<rparr>)" by (rule r_stop)
  with ruas2_reached have "(ruas_step sample_handler two_uas)\<^sup>*\<^sup>* ruas0 (ruas2\<lparr>ru_ctx_done := True\<rparr>)" by simp
  from shutdown_drains [OF this] two_limits show ?thesis by simp
qed

theorem refresh_before_expiry_witness: "refresh_interval 3600 = 1800"
  using refresh_before_expiry [of 3600] by simp

theorem listen_port_witness: "listenPortFromAddr (''0.0.0.0'' @ '':'' @ show_nat 5060) = 5060"
  using listen_port [of "''0.0.0.0''" 5060] by simp

end
