(* ===== verification/Register.thy ===== *)
theory Register
  imports Client
begin

text \<open>
  Registration (\<open>sip/register.go\<close>, \<open>sendRegister\<close> of \<open>sip/registered_uas.go\<close>): the REGISTER request, the
  exchange with its one digest round, and the life of a registration from \<open>Register\<close> over any series of
  \<open>Refresh\<close> to \<open>Unregister\<close>. Times are nanoseconds. sipgo completes, sends and authenticates the
  requests: the final status of the first request and of the authenticated one are arguments.
\<close>

section \<open>The request\<close>

record register_config =
  rg_Registrar :: string
  rg_AOR :: string
  rg_Username :: string
  rg_Password :: string
  rg_Expires :: int
  rg_LocalIP :: string
  rg_Transport :: string
  rg_TLSConfig :: "tls_config option"

text \<open>What the code uses of sipgo: URI parsing, tags, and how the Expires header prints a number.\<close>

record sip_lib =
  ParseUri :: "string \<Rightarrow> uri option"
  GenerateTag :: string
  PrintExpires :: "int \<Rightarrow> string"

definition aor_addr :: "uri \<Rightarrow> string option \<Rightarrow> name_addr" where
  "aor_addr u t = \<lparr>Address = \<lparr>Scheme = Scheme u, User = User u, Host = Host u, Port = Port u, UriParams = []\<rparr>,
     DisplayName = [], tag = t\<rparr>"

definition register_contact :: "string \<Rightarrow> string \<Rightarrow> int \<Rightarrow> (string \<times> string) list \<Rightarrow> name_addr" where
  "register_contact user host port params =
     \<lparr>Address = \<lparr>Scheme = [], User = user, Host = host, Port = port, UriParams = params\<rparr>, DisplayName = [], tag = None\<rparr>"

definition buildRegisterRequest :: "sip_lib \<Rightarrow> uri \<Rightarrow> register_config \<Rightarrow> string \<Rightarrow> request option" where
  "buildRegisterRequest lib registrar cfg localIP =
     map_option (\<lambda>aor.
       let contactUser = (if rg_Username cfg = [] \<and> User aor \<noteq> [] then User aor else rg_Username cfg);
           req = (NewRequest REGISTER registrar)\<lparr>req_From := Some (aor_addr aor (Some (GenerateTag lib))),
             req_To := Some (aor_addr aor None), req_Contact := Some (register_contact contactUser localIP 0 [(''ob'', [])])\<rparr>
       in AppendHeader ''Expires'' (PrintExpires lib (rg_Expires cfg)) req)
       (ParseUri lib (rg_AOR cfg))"

section \<open>The exchange\<close>

datatype register_error =
    ClientError client_error | RegistrarBad | AORBad | RegisterSendFailed | DigestFailed | RegisterStatus int

text \<open>The status of the first final response and of the one after digest authentication, if they arrive.\<close>

record register_net =
  rn_answer :: "int option"
  rn_auth :: "int option"

definition register_exchange :: "register_net \<Rightarrow> register_error + int" where
  "register_exchange net = (case rn_answer net of
       None \<Rightarrow> Inl RegisterSendFailed
     | Some status \<Rightarrow>
         if status = 401 \<or> status = 407 then
           (case rn_auth net of None \<Rightarrow> Inl DigestFailed | Some status' \<Rightarrow> Inr status')
         else Inr status)"

text \<open>URI and request, then the exchange: what \<open>Register\<close>, \<open>Refresh\<close> and \<open>Unregister\<close> have in common.\<close>

definition register_transaction :: "sip_lib \<Rightarrow> register_config \<Rightarrow> string \<Rightarrow> register_net \<Rightarrow> register_error + request \<times> int" where
  "register_transaction lib cfg localIP net = (case ParseUri lib (rg_Registrar cfg) of
       None \<Rightarrow> Inl RegistrarBad
     | Some registrar \<Rightarrow> (case buildRegisterRequest lib registrar cfg localIP of
         None \<Rightarrow> Inl AORBad
       | Some req \<Rightarrow> map_sum id (Pair req) (register_exchange net)))"

section \<open>A registration\<close>

record registration =
  reg_cfg :: register_config
  reg_ExpiresAt :: int
  reg_open :: bool

text \<open>
  \<open>Register\<close>: the error or the registration, and whether its client is open when it returns.
  \<open>now\<close> is the time at which the answer has arrived. \<open>Unregister\<close> closes the client only after the
  exchange delivered a final response.
\<close>

definition register_defaults :: "register_config \<Rightarrow> register_config" where
  "register_defaults cfg = (if rg_Expires cfg = 0 then cfg\<lparr>rg_Expires := 3600\<rparr> else cfg)"

definition register_transport :: "register_config \<Rightarrow> string" where
  "register_transport cfg = (if rg_Transport cfg = [] then ''udp'' else rg_Transport cfg)"

definition register_tls :: "register_config \<Rightarrow> tls_config option" where
  "register_tls cfg = (case rg_TLSConfig cfg of
       Some tls \<Rightarrow> Some tls
     | None \<Rightarrow> if register_transport cfg = ''tls''
         then Some \<lparr>CertFile = [], KeyFile = [], CAFile = [], InsecureSkipVerify = True, ServerName = []\<rparr> else None)"

text \<open>\<open>time.Duration(cfg.Expires) * time.Second\<close> is a product of \<open>int64\<close> values.\<close>

definition lifetime :: "register_config \<Rightarrow> int" where
  "lifetime cfg = i64 (rg_Expires cfg * 1000000000)"

definition Register :: "sip_lib \<Rightarrow> ('cert, 'pool) tls_files \<Rightarrow> sipgo_outcomes \<Rightarrow> string option \<Rightarrow> register_config
    \<Rightarrow> register_net \<Rightarrow> int \<Rightarrow> (register_error + registration) \<times> bool" where
  "Register lib files so route cfg0 net now =
     (let cfg = register_defaults cfg0; localIP = resolveLocalIP (rg_LocalIP cfg) route
      in case fst (NewClientWithTransport files so localIP (register_transport cfg) (register_tls cfg)) of
           Inl e \<Rightarrow> (Inl (ClientError e), False)
         | Inr _ \<Rightarrow> (case register_transaction lib cfg localIP net of
             Inl e \<Rightarrow> (Inl e, False)
           | Inr (_, status) \<Rightarrow>
               if status \<noteq> 200 then (Inl (RegisterStatus status), False)
               else (Inr \<lparr>reg_cfg = cfg, reg_ExpiresAt = now + lifetime cfg, reg_open = True\<rparr>, True)))"

definition Refresh :: "sip_lib \<Rightarrow> string option \<Rightarrow> register_net \<Rightarrow> int \<Rightarrow> registration \<Rightarrow> register_error option \<times> registration" where
  "Refresh lib route net now r =
     (case register_transaction lib (reg_cfg r) (resolveLocalIP (rg_LocalIP (reg_cfg r)) route) net of
        Inl e \<Rightarrow> (Some e, r)
      | Inr (_, status) \<Rightarrow>
          if status \<noteq> 200 then (Some (RegisterStatus status), r)
          else (None, r\<lparr>reg_ExpiresAt := now + lifetime (reg_cfg r)\<rparr>))"

definition Unregister :: "sip_lib \<Rightarrow> string option \<Rightarrow> register_net \<Rightarrow> registration \<Rightarrow> register_error option \<times> registration" where
  "Unregister lib route net r =
     (case register_transaction lib ((reg_cfg r)\<lparr>rg_Expires := 0\<rparr>) (resolveLocalIP (rg_LocalIP (reg_cfg r)) route) net of
        Inl e \<Rightarrow> (Some e, r)
      | Inr (_, status) \<Rightarrow>
          (if status \<noteq> 200 then Some (RegisterStatus status) else None, r\<lparr>reg_open := False\<rparr>))"

section \<open>Properties\<close>

lemma register_transaction_Inr:
  "register_transaction lib cfg localIP net = Inr (req, status) \<longleftrightarrow>
     (\<exists>registrar. ParseUri lib (rg_Registrar cfg) = Some registrar \<and> buildRegisterRequest lib registrar cfg localIP = Some req
        \<and> register_exchange net = Inr status)"
  by (cases "register_exchange net") (auto simp: register_transaction_def split: option.splits)

text \<open>
  The account shows in both From and To, From carries the fresh tag and To none; the Contact has the
  user of the authentication or else of the account, at the local address; the request goes to the
  registrar and asks for the configured lifetime.
\<close>
theorem register_request:
  assumes "ParseUri lib (rg_AOR cfg) = Some aor" "buildRegisterRequest lib registrar cfg localIP = Some req"
  shows "Method req = REGISTER \<and> Recipient req = registrar
    \<and> (\<exists>from to contact. req_From req = Some from \<and> req_To req = Some to \<and> req_Contact req = Some contact
        \<and> Address from = Address to \<and> User (Address from) = User aor \<and> Host (Address from) = Host aor
        \<and> Port (Address from) = Port aor \<and> Scheme (Address from) = Scheme aor
        \<and> tag from = Some (GenerateTag lib) \<and> tag to = None
        \<and> User (Address contact) = (if rg_Username cfg = [] then User aor else rg_Username cfg) \<and> Host (Address contact) = localIP)
    \<and> header_value ''Expires'' (req_Headers req) = Some (PrintExpires lib (rg_Expires cfg))"
  using assms by (auto simp: buildRegisterRequest_def aor_addr_def register_contact_def Let_def NewRequest_def AppendHeader_def)

text \<open>
  \<open>Register\<close> holds its client exactly when it returns a registration. \<open>Unregister\<close> closes the client
  exactly when the registrar gave a final answer, whatever it says; on every other error the client
  stays open, although the handle is given up.
\<close>
theorem register_client_release:
  shows "(case Register lib files so route cfg net now of (Inl e, held) \<Rightarrow> \<not> held | (Inr r, held) \<Rightarrow> held \<and> reg_open r)
    \<and> (case Unregister lib route net' r of (err, r') \<Rightarrow>
         (reg_open r' \<longleftrightarrow> reg_open r \<and> err \<noteq> None \<and> (\<forall>status. err \<noteq> Some (RegisterStatus status)))
         \<and> reg_cfg r' = reg_cfg r \<and> reg_ExpiresAt r' = reg_ExpiresAt r)"
proof (rule conjI)
  show "case Register lib files so route cfg net now of (Inl e, held) \<Rightarrow> \<not> held | (Inr r, held) \<Rightarrow> held \<and> reg_open r"
    by (simp add: Register_def Let_def split: sum.split prod.split)
  have "register_exchange n = Inl e \<Longrightarrow> e \<in> {RegisterSendFailed, DigestFailed}" for n e
    by (auto simp: register_exchange_def split: option.splits if_splits)
  then have "register_transaction lib c ip n = Inl e \<Longrightarrow> e \<in> {RegistrarBad, AORBad, RegisterSendFailed, DigestFailed}" for c ip n e
    by (cases "register_exchange n") (auto simp: register_transaction_def split: option.splits)
  then have e: "register_transaction lib c ip n = Inl e \<Longrightarrow> (\<forall>status. e \<noteq> RegisterStatus status)" for c ip n e by fastforce
  show "case Unregister lib route net' r of (err, r') \<Rightarrow>
         (reg_open r' \<longleftrightarrow> reg_open r \<and> err \<noteq> None \<and> (\<forall>status. err \<noteq> Some (RegisterStatus status)))
         \<and> reg_cfg r' = reg_cfg r \<and> reg_ExpiresAt r' = reg_ExpiresAt r"
    using e [of "(reg_cfg r)\<lparr>rg_Expires := 0\<rparr>" "resolveLocalIP (rg_LocalIP (reg_cfg r)) route" net']
    by (cases "register_transaction lib ((reg_cfg r)\<lparr>rg_Expires := 0\<rparr>) (resolveLocalIP (rg_LocalIP (reg_cfg r)) route) net'")
      (auto simp: Unregister_def split: if_splits)
qed

text \<open>The refreshes of a script: the network of each and the time its answer arrived.\<close>

definition refresh_all :: "sip_lib \<Rightarrow> string option \<Rightarrow> (register_net \<times> int) list \<Rightarrow> registration \<Rightarrow> registration" where
  "refresh_all lib route nets r = fold (\<lambda>(net, now) r. snd (Refresh lib route net now r)) nets r"

text \<open>The abstract registrar renews a binding when it answers a REGISTER with 200, at once or, after it
  has asked for authentication as a server (401) or as a proxy (407), the authenticated one.\<close>

definition accepted :: "register_net \<Rightarrow> bool" where
  "accepted net \<longleftrightarrow> rn_answer net = Some 200
     \<or> (rn_answer net = Some 401 \<or> rn_answer net = Some 407) \<and> rn_auth net = Some 200"

definition last_accepted :: "int \<Rightarrow> (register_net \<times> int) list \<Rightarrow> int" where
  "last_accepted start nets = fold (\<lambda>(net, now) t. if accepted net then now else t) nets start"

lemma exchange_accepted: "register_exchange net = Inr 200 \<longleftrightarrow> accepted net"
  by (auto simp: register_exchange_def accepted_def split: option.splits)

lemma refresh_cases:
  assumes "ParseUri lib (rg_Registrar (reg_cfg r)) \<noteq> None" "ParseUri lib (rg_AOR (reg_cfg r)) \<noteq> None"
  shows "snd (Refresh lib route net now r) = (if accepted net then r\<lparr>reg_ExpiresAt := now + lifetime (reg_cfg r)\<rparr> else r)"
  using assms by (cases "register_exchange net")
    (auto simp: Refresh_def register_transaction_def buildRegisterRequest_def exchange_accepted [symmetric] Let_def)

lemma refresh_all_from:
  assumes "ParseUri lib (rg_Registrar (reg_cfg r)) \<noteq> None" "ParseUri lib (rg_AOR (reg_cfg r)) \<noteq> None"
    "reg_ExpiresAt r = t + lifetime (reg_cfg r)"
  shows "refresh_all lib route nets r = r\<lparr>reg_ExpiresAt := last_accepted t nets + lifetime (reg_cfg r)\<rparr>"
  using assms
proof (induction nets arbitrary: r t)
  case Nil
  then show ?case by (simp add: refresh_all_def last_accepted_def)
next
  case (Cons n nets)
  obtain net now where n: "n = (net, now)" by (cases n)
  let ?r = "snd (Refresh lib route net now r)"
  note c = refresh_cases [OF Cons.prems(1,2), of route net now]
  have "refresh_all lib route nets ?r = ?r\<lparr>reg_ExpiresAt := last_accepted (if accepted net then now else t) nets + lifetime (reg_cfg ?r)\<rparr>"
    by (rule Cons.IH) (use Cons.prems in \<open>simp_all add: c\<close>)
  then show ?case by (simp add: refresh_all_def last_accepted_def n c)
qed

text \<open>C35: 
  Simulation of the registrar's binding: after \<open>Register\<close> and any series of refreshes, accepted or
  not, \<open>ExpiresAt\<close> is the time of the last accepted REGISTER, after a challenge as server or proxy
  too, plus the lifetime, which is an hour when none was configured. The lifetime is exact up to
  9223372036 seconds in size, and wraps as an \<open>int64\<close> of nanoseconds beyond. A failed refresh changes nothing,
  so it may be repeated. \<open>Unregister\<close> asks for lifetime 0 and leaves the configuration as it is.
\<close>
theorem registration_lifetime:
  assumes "Register lib files so route cfg net now = (Inr r, held)"
    and "seconds = (if rg_Expires cfg = 0 then 3600 else rg_Expires cfg)"
  shows "reg_ExpiresAt (refresh_all lib route nets r) = last_accepted now nets + i64 (seconds * 1000000000)
    \<and> (\<bar>seconds\<bar> \<le> 9223372036 \<longrightarrow>
        reg_ExpiresAt (refresh_all lib route nets r) = last_accepted now nets + seconds * 1000000000)
    \<and> accepted net \<and> reg_open (refresh_all lib route nets r)
    \<and> (\<forall>registrar ip. \<exists>req. buildRegisterRequest lib registrar ((reg_cfg r)\<lparr>rg_Expires := 0\<rparr>) ip = Some req
        \<and> header_value ''Expires'' (req_Headers req) = Some (PrintExpires lib 0))"
proof -
  obtain req where t: "register_transaction lib (register_defaults cfg) (resolveLocalIP (rg_LocalIP (register_defaults cfg)) route) net = Inr (req, 200)"
    and r: "r = \<lparr>reg_cfg = register_defaults cfg, reg_ExpiresAt = now + lifetime (register_defaults cfg), reg_open = True\<rparr>"
    using assms(1) by (auto simp: Register_def Let_def split: sum.splits if_splits)
  from t have p: "ParseUri lib (rg_Registrar (reg_cfg r)) \<noteq> None" "ParseUri lib (rg_AOR (reg_cfg r)) \<noteq> None" "accepted net"
    by (auto simp: register_transaction_Inr buildRegisterRequest_def exchange_accepted r)
  have life: "lifetime (reg_cfg r) = i64 (seconds * 1000000000)"
    by (simp add: r lifetime_def register_defaults_def assms(2))
  have all: "refresh_all lib route nets r = r\<lparr>reg_ExpiresAt := last_accepted now nets + i64 (seconds * 1000000000)\<rparr>"
    using refresh_all_from [OF p(1,2), of now route nets] life by (simp add: r)
  obtain aor where "ParseUri lib (rg_AOR (reg_cfg r)) = Some aor" using p(2) by blast
  then have unreg: "\<exists>req. buildRegisterRequest lib registrar ((reg_cfg r)\<lparr>rg_Expires := 0\<rparr>) ip = Some req
      \<and> header_value ''Expires'' (req_Headers req) = Some (PrintExpires lib 0)" for registrar ip
    by (simp add: buildRegisterRequest_def Let_def NewRequest_def AppendHeader_def)
  have "\<bar>seconds\<bar> \<le> 9223372036 \<Longrightarrow> i64 (seconds * 1000000000) = seconds * 1000000000"
    by (auto intro!: i64_id)
  moreover have "reg_open r" by (simp add: r)
  ultimately show ?thesis using p(3) unreg unfolding all by simp
qed

text \<open>A script may ask for \<open>expires: 1e10\<close>: the registration that the registrar accepts has then expired
  before it was made, by its own account.\<close>
theorem huge_lifetime_wraps: "rg_Expires cfg = 10000000000 \<Longrightarrow> lifetime cfg = - 8446744073709551616"
  by (simp add: lifetime_def i64_def signed_take_bit_int_eq_self_iff signed_take_bit_eq_take_bit_minus take_bit_eq_mod)

theorem huge_lifetime_wraps_witness:
  "lifetime (\<lparr>rg_Registrar = [], rg_AOR = [], rg_Username = [], rg_Password = [], rg_Expires = 10000000000,
     rg_LocalIP = [], rg_Transport = [], rg_TLSConfig = None\<rparr>) < 0"
  using huge_lifetime_wraps [of "\<lparr>rg_Registrar = [], rg_AOR = [], rg_Username = [], rg_Password = [], rg_Expires = 10000000000,
     rg_LocalIP = [], rg_Transport = [], rg_TLSConfig = None\<rparr>"] by simp

section \<open>Witnesses\<close>

definition account_uri :: uri where
  "account_uri = \<lparr>Scheme = ''sip'', User = ''alice'', Host = ''pbx'', Port = 0, UriParams = []\<rparr>"

definition sample_lib :: sip_lib where
  "sample_lib = \<lparr>ParseUri = (\<lambda>s. if s = [] then None else Some account_uri), GenerateTag = ''t'', PrintExpires = show_int\<rparr>"

definition sample_account :: register_config where
  "sample_account = \<lparr>rg_Registrar = ''sip:pbx'', rg_AOR = ''sip:alice@pbx'', rg_Username = [], rg_Password = ''p'', rg_Expires = 60,
     rg_LocalIP = ''10.0.0.7'', rg_Transport = [], rg_TLSConfig = None\<rparr>"

definition no_files :: "(unit, unit) tls_files" where
  "no_files = \<lparr>LoadX509KeyPair = (\<lambda>_ _. None), ReadFile = (\<lambda>_. None), CertsFromPEM = (\<lambda>_. None)\<rparr>"

definition sipgo_up :: sipgo_outcomes where
  "sipgo_up = \<lparr>so_ua = True, so_client = True, so_server = True\<rparr>"

definition challenged :: register_net where
  "challenged = \<lparr>rn_answer = Some 401, rn_auth = Some 200\<rparr>"

theorem register_request_witness:
  "\<exists>req. buildRegisterRequest sample_lib account_uri sample_account ''10.0.0.7'' = Some req \<and> Recipient req = account_uri"
proof -
  have u: "ParseUri sample_lib (rg_AOR sample_account) = Some account_uri" by (simp add: sample_lib_def sample_account_def)
  then obtain req where r: "buildRegisterRequest sample_lib account_uri sample_account ''10.0.0.7'' = Some req"
    by (simp add: buildRegisterRequest_def)
  from register_request [OF u r] r show ?thesis by blast
qed

theorem registration_lifetime_witness:
  "\<exists>r. Register sample_lib no_files sipgo_up None sample_account challenged 5 = (Inr r, True)
     \<and> reg_ExpiresAt (refresh_all sample_lib None [(challenged, 30), (\<lparr>rn_answer = None, rn_auth = None\<rparr>, 40)] r) = 30 + 60000000000"
proof -
  obtain r where r: "Register sample_lib no_files sipgo_up None sample_account challenged 5 = (Inr r, True)"
    by (simp add: Register_def register_defaults_def register_transaction_def buildRegisterRequest_def NewClientWithTransport_def
        register_transport_def register_exchange_def sample_lib_def sample_account_def sipgo_up_def challenged_def Let_def)
  have "60 = (if rg_Expires sample_account = 0 then 3600 else rg_Expires sample_account)" by (simp add: sample_account_def)
  from registration_lifetime [OF r this, of "[(challenged, 30), (\<lparr>rn_answer = None, rn_auth = None\<rparr>, 40)]"] r show ?thesis
    by (intro exI [of _ r]) (simp add: last_accepted_def accepted_def challenged_def)
qed

end
