(* ===== verification/Uas_Registration.thy ===== *)
theory Uas_Registration
  imports Registered_Uas Register
begin

text \<open>
  The registering half of \<open>sip/registered_uas.go\<close>: creation with every error exit, \<open>sendRegister\<close>, the
  refresh timer against the registrar's binding, and \<open>Stop\<close>. Times are seconds here.
\<close>

record ruas_config = uas_config +
  ru_Registrar :: string
  ru_AOR :: string
  ru_Username :: string
  ru_Password :: string
  ru_Expires :: int
  ru_ListenAddr :: string
  ru_Transport :: string
  ru_TLSConfig :: "tls_config option"

definition ruas_defaults :: "string option \<Rightarrow> ruas_config \<Rightarrow> ruas_config" where
  "ruas_defaults route cfg =
     (let cfg = (if uas_Codec cfg = [] then cfg\<lparr>uas_Codec := ''PCMU''\<rparr> else cfg);
          cfg = (if ru_Expires cfg = 0 then cfg\<lparr>ru_Expires := 3600\<rparr> else cfg);
          cfg = (if uas_LocalIP cfg = [] then cfg\<lparr>uas_LocalIP := resolveLocalIP [] route\<rparr> else cfg)
      in if ru_ListenAddr cfg = [] then cfg\<lparr>ru_ListenAddr := ''0.0.0.0:5060''\<rparr> else cfg)"

definition uas_register_request :: "sip_lib \<Rightarrow> ruas_config \<Rightarrow> uri \<Rightarrow> uri \<Rightarrow> int \<Rightarrow> request" where
  "uas_register_request lib cfg registrar aor expires =
     (let contactUser = (if ru_Username cfg = [] then User aor else ru_Username cfg)
      in AppendHeader ''Expires'' (PrintExpires lib expires)
        ((NewRequest REGISTER registrar)\<lparr>req_From := Some (aor_addr aor (Some (GenerateTag lib))),
           req_To := Some (aor_addr aor None),
           req_Contact := Some (register_contact contactUser (uas_LocalIP cfg) (listenPortFromAddr (ru_ListenAddr cfg)) [])\<rparr>))"

text \<open>\<open>sendRegister\<close>: the request that was sent, if any, and the error.\<close>

definition sendRegister :: "sip_lib \<Rightarrow> ruas_config \<Rightarrow> int \<Rightarrow> register_net \<Rightarrow> request option \<times> register_error option" where
  "sendRegister lib cfg expires net = (case ParseUri lib (ru_Registrar cfg) of
       None \<Rightarrow> (None, Some RegistrarBad)
     | Some registrar \<Rightarrow> (case ParseUri lib (ru_AOR cfg) of
         None \<Rightarrow> (None, Some AORBad)
       | Some aor \<Rightarrow> (Some (uas_register_request lib cfg registrar aor expires),
           case register_exchange net of
             Inl e \<Rightarrow> Some e
           | Inr status \<Rightarrow> if status \<noteq> 200 then Some (RegisterStatus status) else None)))"

section \<open>Creation and end\<close>

datatype ruas_error = RuasClient client_error | ListenFailed | InitialRegister register_error

text \<open>
  \<open>listen_failed\<close>: the listener reported an error within the 150 ms that the code waits. The booleans
  of the result say whether the user agent and the context (with it listener and refresh timer) live.
\<close>

definition NewRegisteredUAS :: "sip_lib \<Rightarrow> ('cert, 'pool) tls_files \<Rightarrow> sipgo_outcomes \<Rightarrow> string option \<Rightarrow> bool \<Rightarrow> register_net
    \<Rightarrow> ruas_config \<Rightarrow> (ruas_error + ruas_config) \<times> (bool \<times> bool)" where
  "NewRegisteredUAS lib files so route listen_failed net cfg0 =
     (let cfg = ruas_defaults route cfg0;
          tls = (if ru_Transport cfg = ''tls'' \<and> ru_TLSConfig cfg \<noteq> None
                 then (case buildTLSConfig files (ru_TLSConfig cfg) of Inl e \<Rightarrow> Some e | Inr _ \<Rightarrow> None) else None)
      in case tls of
           Some e \<Rightarrow> (Inl (RuasClient (TLSFailed e)), (False, False))
         | None \<Rightarrow>
             if \<not> so_ua so then (Inl (RuasClient UAFailed), (False, False))
             else if \<not> so_server so then (Inl (RuasClient ServerFailed), (False, False))
             else if \<not> so_client so then (Inl (RuasClient SipClientFailed), (False, False))
             else if listen_failed then (Inl ListenFailed, (False, False))
             else (case snd (sendRegister lib cfg (ru_Expires cfg) net) of
               Some e \<Rightarrow> (Inl (InitialRegister e), (False, False))
             | None \<Rightarrow> (Inr cfg, (True, True))))"

definition ruas_Unregister :: "sip_lib \<Rightarrow> register_net \<Rightarrow> ruas_config \<Rightarrow> request option \<times> register_error option" where
  "ruas_Unregister lib net cfg = sendRegister lib cfg 0 net"

text \<open>\<open>Stop\<close> ignores the outcome of the REGISTER and ends user agent and context.\<close>

definition ruas_Stop :: "sip_lib \<Rightarrow> register_net \<Rightarrow> ruas_config \<Rightarrow> request option \<times> (bool \<times> bool)" where
  "ruas_Stop lib net cfg = (fst (ruas_Unregister lib net cfg), (False, False))"

section \<open>The registrar's binding\<close>

text \<open>
  The registrar keeps a binding until its lifetime is over. \<open>autoRefresh\<close> registers anew at each tick;
  a tick is the time at which the registrar accepts the REGISTER, or does not.
\<close>

definition registrar :: "int \<Rightarrow> bool \<Rightarrow> int \<Rightarrow> int \<Rightarrow> int" where
  "registrar now ok expires expiry = (if ok then now + expires else expiry)"


section \<open>Properties\<close>

text \<open>
  Creation is all or nothing: an error leaves neither user agent nor listener, and a registered server
  has both, has REGISTERed its account with the configured lifetime (an hour by default) and
  announced the port it listens on. \<open>Stop\<close> sends the same request with lifetime 0 and ends both,
  whatever the registrar answers.
\<close>
theorem registered_server_lifecycle:
  "case NewRegisteredUAS lib files so route listen_failed net cfg of
     (Inl e, held) \<Rightarrow> held = (False, False)
   | (Inr cfg', held) \<Rightarrow> held = (True, True) \<and> \<not> listen_failed
       \<and> ru_Expires cfg' = (if ru_Expires cfg = 0 then 3600 else ru_Expires cfg)
       \<and> (\<exists>req stop contact. fst (sendRegister lib cfg' (ru_Expires cfg') net) = Some req
            \<and> header_value ''Expires'' (req_Headers req) = Some (PrintExpires lib (ru_Expires cfg'))
            \<and> req_Contact req = Some contact \<and> Port (Address contact) = listenPortFromAddr (ru_ListenAddr cfg')
            \<and> Host (Address contact) = uas_LocalIP cfg'
            \<and> ruas_Stop lib net' cfg' = (Some stop, (False, False))
            \<and> stop = req\<lparr>req_Headers := [(''Expires'', PrintExpires lib 0)]\<rparr>)"
proof -
  let ?cfg = "ruas_defaults route cfg"
  have exp: "ru_Expires ?cfg = (if ru_Expires cfg = 0 then 3600 else ru_Expires cfg)"
    by (simp add: ruas_defaults_def Let_def)
  have sent: "\<exists>reg aor. ParseUri lib (ru_Registrar ?cfg) = Some reg \<and> ParseUri lib (ru_AOR ?cfg) = Some aor"
    if "snd (sendRegister lib ?cfg e n) = None" for e n
    using that by (auto simp: sendRegister_def split: option.splits)
  have req: "\<exists>req stop contact. fst (sendRegister lib ?cfg e n) = Some req
      \<and> header_value ''Expires'' (req_Headers req) = Some (PrintExpires lib e)
      \<and> req_Contact req = Some contact \<and> Port (Address contact) = listenPortFromAddr (ru_ListenAddr ?cfg)
      \<and> Host (Address contact) = uas_LocalIP ?cfg
      \<and> ruas_Stop lib net' ?cfg = (Some stop, (False, False)) \<and> stop = req\<lparr>req_Headers := [(''Expires'', PrintExpires lib 0)]\<rparr>"
    if s: "snd (sendRegister lib ?cfg e n) = None" for e n
  proof -
    obtain reg aor where "ParseUri lib (ru_Registrar ?cfg) = Some reg" "ParseUri lib (ru_AOR ?cfg) = Some aor"
      using sent [OF s] by blast
    then show ?thesis
      by (simp add: ruas_Stop_def ruas_Unregister_def sendRegister_def uas_register_request_def register_contact_def
          Let_def AppendHeader_def NewRequest_def)
  qed
  show ?thesis
    using req [of "ru_Expires ?cfg" net] exp
    by (auto simp: NewRegisteredUAS_def Let_def split: option.split sum.split)
qed






end
