(* ===== verification/Go_Duration.thy ===== *)
theory Go_Duration
  imports Go_Strings Float64
begin

text \<open>
  \<open>time.ParseDuration\<close> of Go's standard library, which reads every duration of a script's options: a sign,
  then numbers with an optional fraction and a unit. Durations are nanoseconds in 64 bits; overflow
  is an error (the sum is 64 bits wide). \<open>ParseDuration\<close> returns nothing for an error.
\<close>

section \<open>Parsing\<close>

text \<open>\<open>leadingFraction\<close>: digits that no longer fit are ignored.\<close>

definition fraction_step :: "nat \<times> nat \<times> bool \<Rightarrow> char \<Rightarrow> nat \<times> nat \<times> bool" where
  "fraction_step s c = (case s of (x, sc, overflow) \<Rightarrow>
     if overflow then s
     else if x > (2 ^ 63 - 1) div 10 then (x, sc, True)
     else let y = x * 10 + (of_char c - 48) in if y > 2 ^ 63 then (x, sc, True) else (y, sc * 10, False))"

definition leadingFraction :: "string \<Rightarrow> nat \<times> nat" where
  "leadingFraction s = (case foldl fraction_step (0, 1, False) s of (x, sc, _) \<Rightarrow> (x, sc))"

definition unit_ns :: "string \<Rightarrow> nat option" where
  "unit_ns u =
     (if u = ''ns'' then Some 1
      else if u = ''us'' \<or> u = [char_of (0xC2 :: nat), char_of (0xB5 :: nat), CHR ''s''] \<or> u = [char_of (0xCE :: nat), char_of (0xBC :: nat), CHR ''s'']
      then Some 1000
      else if u = ''ms'' then Some 1000000
      else if u = ''s'' then Some 1000000000
      else if u = ''m'' then Some 60000000000
      else if u = ''h'' then Some 3600000000000
      else None)"

text \<open>One number with its unit: its value and the rest. The value of the leading digits overflows beyond \<open>2 ^ 63\<close>.\<close>

definition unit_char :: "char \<Rightarrow> bool" where
  "unit_char c \<longleftrightarrow> c \<noteq> CHR ''.'' \<and> \<not> is_digit c"

definition duration_part :: "string \<Rightarrow> (nat \<times> string) option" where
  "duration_part s =
     (let pre = takeWhile is_digit s; s1 = dropWhile is_digit s; v = nat (parse_digits pre);
          dot = (s1 \<noteq> [] \<and> hd s1 = CHR ''.'');
          post = (if dot then takeWhile is_digit (tl s1) else []);
          s2 = (if dot then dropWhile is_digit (tl s1) else s1);
          (f, sc) = leadingFraction post;
          u = takeWhile unit_char s2
      in if v > 2 ^ 63 \<or> (pre = [] \<and> post = []) \<or> u = [] then None
         else case unit_ns u of
           None \<Rightarrow> None
         | Some ns \<Rightarrow>
             if v > 2 ^ 63 div ns then None
             else
               let v = v * ns + (if f > 0 then nat (trunc64 (fmul (fint (int f)) (fdiv (fint (int ns)) (fint (int sc))))) else 0)
               in if v > 2 ^ 63 then None else Some (v, dropWhile unit_char s2))"

lemma duration_part_shorter:
  assumes "duration_part s = Some (v, rest)"
  shows "length rest < length s"
proof -
  let ?s1 = "dropWhile is_digit s"
  let ?s2 = "if ?s1 \<noteq> [] \<and> hd ?s1 = CHR ''.'' then dropWhile is_digit (tl ?s1) else ?s1"
  have "rest = dropWhile unit_char ?s2" "takeWhile unit_char ?s2 \<noteq> []"
    using assms by (auto simp: duration_part_def Let_def split: prod.splits option.splits if_splits)
  moreover have "length ?s2 \<le> length s"
    using length_dropWhile_le [of is_digit s] length_dropWhile_le [of is_digit "tl ?s1"] by auto
  moreover have "length (takeWhile unit_char ?s2) + length (dropWhile unit_char ?s2) = length ?s2"
    by (metis length_append takeWhile_dropWhile_id)
  ultimately show ?thesis by (cases "takeWhile unit_char ?s2") auto
qed

function duration_parts :: "string \<Rightarrow> nat \<Rightarrow> nat option" where
  "duration_parts s d =
     (if s = [] then Some d
      else case duration_part s of
        None \<Rightarrow> None
      | Some (v, rest) \<Rightarrow> 
          let d' = (d + v) mod 2 ^ 64 in if d' > 2 ^ 63 then None else duration_parts rest d')"
  by auto
termination by (relation "measure (length \<circ> fst)") (auto dest: duration_part_shorter)

declare duration_parts.simps [simp del]

definition ParseDuration :: "string \<Rightarrow> int option" where
  "ParseDuration s0 =
     (let neg = (s0 \<noteq> [] \<and> hd s0 = CHR ''-'');
          s = (if s0 \<noteq> [] \<and> (hd s0 = CHR ''-'' \<or> hd s0 = CHR ''+'') then tl s0 else s0)
      in if s = ''0'' then Some 0
         else if s = [] then None
         else case duration_parts s 0 of
           None \<Rightarrow> None
         | Some d \<Rightarrow> if neg then Some (- int d) else if d > 2 ^ 63 - 1 then None else Some (int d))"

section \<open>Reading what was printed\<close>

definition units :: "string list" where
  "units = [''ns'', ''us'', ''ms'', ''s'', ''m'', ''h'']"

definition unit_of :: "string \<Rightarrow> nat" where
  "unit_of u = (case unit_ns u of Some ns \<Rightarrow> ns | None \<Rightarrow> 0)"

definition show_duration :: "(nat \<times> string) list \<Rightarrow> string" where
  "show_duration parts = concat (map (\<lambda>(n, u). show_nat n @ u) parts)"

definition duration_of :: "(nat \<times> string) list \<Rightarrow> nat" where
  "duration_of parts = (\<Sum>(n, u) \<leftarrow> parts. n * unit_of u)"

lemma units_facts:
  assumes "u \<in> set units"
  shows "unit_ns u = Some (unit_of u)" "0 < unit_of u" "u \<noteq> []" "list_all unit_char u" "\<not> is_digit (hd u)" "hd u \<noteq> CHR ''.''"
  using assms by (auto simp: units_def unit_of_def unit_ns_def unit_char_def is_digit_def)

lemma show_nat_all_digits: "list_all is_digit (show_nat n)"
  using show_nat_digits [of _ n] digit_char_facts(1) by (auto simp: list_all_iff)

lemma takeWhile_cut: "list_all P xs \<Longrightarrow> ys = [] \<or> \<not> P (hd ys) \<Longrightarrow> takeWhile P (xs @ ys) = xs \<and> dropWhile P (xs @ ys) = ys"
  by (induction xs) (cases ys; auto)+

lemma duration_part_show:
  assumes "u \<in> set units" "n * unit_of u \<le> 2 ^ 63" "rest = [] \<or> is_digit (hd rest)"
  shows "duration_part (show_nat n @ u @ rest) = Some (n * unit_of u, rest)"
proof -
  note u = units_facts [OF assms(1)]
  have d: "takeWhile is_digit (show_nat n @ u @ rest) = show_nat n" "dropWhile is_digit (show_nat n @ u @ rest) = u @ rest"
    using takeWhile_cut [OF show_nat_all_digits, of "u @ rest" n] u(3,5) by auto
  have c: "takeWhile unit_char (u @ rest) = u" "dropWhile unit_char (u @ rest) = rest"
    using takeWhile_cut [OF u(4), of rest] assms(3) by (auto simp: unit_char_def)
  have "n \<le> n * unit_of u" using u(2) by simp
  then have n: "n \<le> 2 ^ 63" using assms(2) by linarith
  have "n \<le> 2 ^ 63 div unit_of u" using assms(2) u(2) by (simp add: less_eq_div_iff_mult_less_eq)
  moreover have "nat (parse_digits (show_nat n)) = n" by (simp add: parse_show_nat)
  moreover have "\<not> (u @ rest \<noteq> [] \<and> hd (u @ rest) = CHR ''.'')" using u(3,6) by simp
  ultimately show ?thesis
    using d c u(1,3) n assms(2) show_nat_nonempty [of n] by (simp add: duration_part_def Let_def leadingFraction_def)
qed

lemma show_duration_start: "show_duration parts = [] \<or> is_digit (hd (show_duration parts))"
proof (cases parts)
  case (Cons p ps)
  obtain n u where "p = (n, u)" by (cases p)
  with Cons show ?thesis using show_nat_all_digits [of n] show_nat_nonempty [of n]
    by (cases "show_nat n") (simp_all add: show_duration_def)
qed (simp add: show_duration_def)

lemma duration_parts_show:
  assumes "\<forall>(n, u) \<in> set parts. u \<in> set units" "d + duration_of parts \<le> 2 ^ 63"
  shows "duration_parts (show_duration parts) d = Some (d + duration_of parts)"
  using assms
proof (induction parts arbitrary: d)
  case Nil
  then show ?case by (simp add: show_duration_def duration_of_def duration_parts.simps)
next
  case (Cons p ps)
  obtain n u where p: "p = (n, u)" by (cases p)
  have s: "show_duration (p # ps) = show_nat n @ u @ show_duration ps" by (simp add: show_duration_def p)
  have "n * unit_of u \<le> 2 ^ 63" "d + n * unit_of u \<le> 2 ^ 63" using Cons.prems(2) by (simp_all add: duration_of_def p)
  with duration_part_show [of u n "show_duration ps"] Cons.prems(1) show_duration_start [of ps]
  have "duration_part (show_duration (p # ps)) = Some (n * unit_of u, show_duration ps)" unfolding s by (simp add: p)
  moreover have "(d + n * unit_of u) mod 2 ^ 64 = d + n * unit_of u" using \<open>d + n * unit_of u \<le> 2 ^ 63\<close> by simp
  moreover have "show_duration (p # ps) \<noteq> []" using show_nat_nonempty [of n] by (simp add: s)
  moreover have "duration_parts (show_duration ps) (d + n * unit_of u) = Some (d + n * unit_of u + duration_of ps)"
    by (rule Cons.IH) (use Cons.prems in \<open>simp_all add: duration_of_def p\<close>)
  ultimately show ?case
    using \<open>d + n * unit_of u \<le> 2 ^ 63\<close> by (subst duration_parts.simps) (simp add: Let_def duration_of_def p)
qed

lemma ParseDuration_show:
  assumes "parts \<noteq> []" "\<forall>(n, u) \<in> set parts. u \<in> set units" "duration_of parts \<le> 2 ^ 63"
  shows "ParseDuration (CHR ''-'' # show_duration parts) = Some (- int (duration_of parts))"
    "duration_of parts < 2 ^ 63 \<Longrightarrow> ParseDuration (show_duration parts) = Some (int (duration_of parts))"
proof -
  have p: "duration_parts (show_duration parts) 0 = Some (duration_of parts)"
    using duration_parts_show [OF assms(2), of 0] assms(3) by simp
  obtain n u ps where c: "parts = (n, u) # ps" using assms(1) by (cases parts) auto
  then have u: "u \<in> set units" using assms(2) by auto
  have ne: "show_duration parts \<noteq> []" using show_nat_nonempty [of n] by (simp add: show_duration_def c)
  then have h: "is_digit (hd (show_duration parts))" using show_duration_start [of parts] by blast
  have "0 < length u" "0 < length (show_nat n)" using units_facts(3) [OF u] show_nat_nonempty by simp_all
  then have "2 \<le> length (show_nat n) + length u" by linarith
  then have "2 \<le> length (show_duration parts)" by (simp add: show_duration_def c)
  then have "show_duration parts \<noteq> ''0''" by (metis One_nat_def list.size(3,4) add_0 not_less_eq_eq numeral_2_eq_2 order_refl)
  then show "ParseDuration (CHR ''-'' # show_duration parts) = Some (- int (duration_of parts))"
    "duration_of parts < 2 ^ 63 \<Longrightarrow> ParseDuration (show_duration parts) = Some (int (duration_of parts))"
    using p ne h by (auto simp: ParseDuration_def Let_def is_digit_def)
qed

text \<open>What is parsed fits into 64 bits.\<close>

lemma duration_parts_range: "duration_parts s d = Some r \<Longrightarrow> d \<le> 2 ^ 63 \<Longrightarrow> r \<le> 2 ^ 63"
proof (induction s d rule: duration_parts.induct)
  case (1 s d)
  show ?case
  proof (cases "s = []")
    case True
    with 1 show ?thesis by (simp add: duration_parts.simps)
  next
    case False
    with 1(2) obtain v rest where p: "duration_part s = Some (v, rest)" "(d + v) mod 2 ^ 64 \<le> 2 ^ 63"
      "duration_parts rest ((d + v) mod 2 ^ 64) = Some r"
      by (subst (asm) duration_parts.simps) (auto simp: Let_def split: option.splits prod.splits if_splits)
    with 1(1) [OF False p(1)] show ?thesis by simp
  qed
qed

lemma ParseDuration_range: "ParseDuration s = Some d \<Longrightarrow> - (2 ^ 63) \<le> d \<and> d < 2 ^ 63"
  using duration_parts_range [of _ 0]
  by (fastforce simp: ParseDuration_def Let_def split: if_splits option.splits)

text \<open>
  Round trip: a duration printed as a series of whole numbers with units, such as 1h30m or 250ms,
  is read back as the sum, if that fits into 63 bits. A minus sign in front negates it: the parser
  accepts negative durations.
\<close>
theorem duration_roundtrip:
  assumes "parts \<noteq> []" "\<forall>(n, u) \<in> set parts. u \<in> set units" "duration_of parts < 2 ^ 63"
  shows "ParseDuration (show_duration parts) = Some (int (duration_of parts))
    \<and> ParseDuration (CHR ''-'' # show_duration parts) = Some (- int (duration_of parts))"
  using ParseDuration_show [OF assms(1,2)] assms(3) by simp

theorem duration_roundtrip_witness:
  "ParseDuration (show_duration [(1, ''h''), (30, ''m'')]) = Some 5400000000000"
  using duration_roundtrip [of "[(1, ''h''), (30, ''m'')]"] by (simp add: units_def duration_of_def unit_of_def unit_ns_def)

end
