(* ===== verification/K6_Config.thy ===== *)
theory K6_Config
  imports Conference Uas_Registration Go_Duration
begin

text \<open>
  The options of the JavaScript API (\<open>k6ext/sip.go\<close>, \<open>k6ext/conference.go\<close>, \<open>k6ext/healthcheck.go\<close>): how an
  object of a script becomes a configuration. An option of a wrong type is ignored, as is a
  duration that cannot be parsed. Shown: which configurations of a call scripts reach, and options
  that are read back as a given one of them.
\<close>

section \<open>Values of a script\<close>

text \<open>An object is a list of pairs, in the order in which Go iterates over the map. \<open>JInt\<close> stands for
  \<open>int64\<close>, \<open>int\<close> and \<open>int32\<close>; of its number only the 64 bits count that the value has.\<close>

datatype js =
    JString string
  | JBool bool
  | JInt int
  | JFloat float64
  | JArray "js list"
  | JObject "(string \<times> js) list"
  | JNull

type_synonym js_object = "(string \<times> js) list"

text \<open>Conversion of a float out of range gives, on the usual processors, the least integer.\<close>

definition toInt :: "js option \<Rightarrow> int" where
  "toInt v = (case v of
       Some (JInt n) \<Rightarrow> i64 n
     | Some (JFloat x) \<Rightarrow> (if - (2 ^ 63) \<le> trunc64 x \<and> trunc64 x < 2 ^ 63 then trunc64 x else - (2 ^ 63))
     | _ \<Rightarrow> 0)"

definition on_string :: "js_object \<Rightarrow> string \<Rightarrow> (string \<Rightarrow> 'a \<Rightarrow> 'a) \<Rightarrow> 'a \<Rightarrow> 'a" where
  "on_string opts k f cfg = (case map_of opts k of Some (JString v) \<Rightarrow> f v cfg | _ \<Rightarrow> cfg)"

definition on_text :: "js_object \<Rightarrow> string \<Rightarrow> (string \<Rightarrow> 'a \<Rightarrow> 'a) \<Rightarrow> 'a \<Rightarrow> 'a" where
  "on_text opts k f cfg = on_string opts k (\<lambda>v c. if v \<noteq> [] then f v c else c) cfg"

definition on_duration :: "js_object \<Rightarrow> string \<Rightarrow> (int \<Rightarrow> 'a \<Rightarrow> 'a) \<Rightarrow> 'a \<Rightarrow> 'a" where
  "on_duration opts k f cfg = on_string opts k (\<lambda>v c. case ParseDuration v of Some d \<Rightarrow> f d c | None \<Rightarrow> c) cfg"

definition on_bool :: "js_object \<Rightarrow> string \<Rightarrow> (bool \<Rightarrow> 'a \<Rightarrow> 'a) \<Rightarrow> 'a \<Rightarrow> 'a" where
  "on_bool opts k f cfg = (case map_of opts k of Some (JBool v) \<Rightarrow> f v cfg | _ \<Rightarrow> cfg)"

definition on_positive :: "js_object \<Rightarrow> string \<Rightarrow> (int \<Rightarrow> 'a \<Rightarrow> 'a) \<Rightarrow> 'a \<Rightarrow> 'a" where
  "on_positive opts k f cfg = (if toInt (map_of opts k) > 0 then f (toInt (map_of opts k)) cfg else cfg)"

definition on_object :: "js_object \<Rightarrow> string \<Rightarrow> (js_object \<Rightarrow> 'a \<Rightarrow> 'a) \<Rightarrow> 'a \<Rightarrow> 'a" where
  "on_object opts k f cfg = (case map_of opts k of Some (JObject v) \<Rightarrow> f v cfg | _ \<Rightarrow> cfg)"

definition strings_in :: "js list \<Rightarrow> string list" where
  "strings_in vs = concat (map (\<lambda>v. case v of JString s \<Rightarrow> [s] | _ \<Rightarrow> []) vs)"

definition on_strings :: "js_object \<Rightarrow> string \<Rightarrow> (string list \<Rightarrow> 'a \<Rightarrow> 'a) \<Rightarrow> 'a \<Rightarrow> 'a" where
  "on_strings opts k f cfg = (case map_of opts k of Some (JArray vs) \<Rightarrow> f (strings_in vs) cfg | _ \<Rightarrow> cfg)"

definition tls_config0 :: tls_config where
  "tls_config0 = \<lparr>CertFile = [], KeyFile = [], CAFile = [], InsecureSkipVerify = False, ServerName = []\<rparr>"

definition parse_tls :: "js_object \<Rightarrow> tls_config" where
  "parse_tls tls =
     on_string tls ''serverName'' (\<lambda>v c. c\<lparr>ServerName := v\<rparr>)
     (on_bool tls ''skipVerify'' (\<lambda>v c. c\<lparr>InsecureSkipVerify := v\<rparr>)
     (on_string tls ''ca'' (\<lambda>v c. c\<lparr>CAFile := v\<rparr>)
     (on_string tls ''key'' (\<lambda>v c. c\<lparr>KeyFile := v\<rparr>)
     (on_string tls ''cert'' (\<lambda>v c. c\<lparr>CertFile := v\<rparr>) tls_config0))))"

text \<open>The \<open>tls\<close> object, or without one the default for transport tls.\<close>

definition tls_option :: "js_object \<Rightarrow> string \<Rightarrow> tls_config option" where
  "tls_option opts transport = (case map_of opts ''tls'' of
       Some (JObject tls) \<Rightarrow> Some (parse_tls tls)
     | _ \<Rightarrow> if transport = ''tls'' then Some (tls_config0\<lparr>InsecureSkipVerify := True\<rparr>) else None)"

section \<open>Options of a call\<close>

definition headers_in :: "js_object \<Rightarrow> (string \<times> string) list" where
  "headers_in hs = concat (map (\<lambda>(k, v). case v of JString s \<Rightarrow> [(k, s)] | _ \<Rightarrow> []) hs)"

definition parse_audio :: "(string \<Rightarrow> 'a \<Rightarrow> 'a) \<Rightarrow> (string \<Rightarrow> 'a \<Rightarrow> 'a) \<Rightarrow> js_object \<Rightarrow> 'a \<Rightarrow> 'a" where
  "parse_audio set_file set_codec opts cfg =
     on_object opts ''audio'' (\<lambda>audio c. on_string audio ''codec'' set_codec (on_string audio ''file'' set_file c)) cfg"

definition parseCfg :: "js_object \<Rightarrow> call_config" where
  "parseCfg opts =
     (let cfg = call_config0\<lparr>cfg_LocalIP := ''0.0.0.0'', cfg_Codec := ''PCMU''\<rparr>;
          cfg = on_string opts ''target'' (\<lambda>v c. c\<lparr>cfg_Target := v\<rparr>) cfg;
          cfg = on_string opts ''aor'' (\<lambda>v c. c\<lparr>cfg_AOR := v\<rparr>) cfg;
          cfg = on_string opts ''displayName'' (\<lambda>v c. c\<lparr>cfg_DisplayName := v\<rparr>) cfg;
          cfg = on_duration opts ''duration'' (\<lambda>d c. c\<lparr>cfg_Duration := d\<rparr>) cfg;
          cfg = parse_audio (\<lambda>v c. c\<lparr>cfg_AudioFile := v\<rparr>) (\<lambda>v c. c\<lparr>cfg_Codec := v\<rparr>) opts cfg;
          cfg = on_strings opts ''dtmf'' (\<lambda>ds c. c\<lparr>cfg_DTMFSequence := cfg_DTMFSequence c @ ds\<rparr>) cfg;
          cfg = on_strings opts ''ivrExpect'' (\<lambda>ds c. c\<lparr>cfg_IVRExpect := cfg_IVRExpect c @ ds\<rparr>) cfg;
          cfg = on_duration opts ''dtmfInitialDelay'' (\<lambda>d c. c\<lparr>cfg_DTMFInitialDelay := d\<rparr>) cfg;
          cfg = on_duration opts ''dtmfInterDigitGap'' (\<lambda>d c. c\<lparr>cfg_DTMFInterDigitGap := d\<rparr>) cfg;
          cfg = on_text opts ''localIP'' (\<lambda>v c. c\<lparr>cfg_LocalIP := v\<rparr>) cfg;
          cfg = on_positive opts ''rtpPort'' (\<lambda>n c. c\<lparr>cfg_RTPPort := n\<rparr>) cfg;
          cfg = on_bool opts ''pesq'' (\<lambda>b c. c\<lparr>cfg_EnablePESQ := b\<rparr>) cfg;
          cfg = on_string opts ''username'' (\<lambda>v c. c\<lparr>cfg_Username := v\<rparr>) cfg;
          cfg = on_string opts ''password'' (\<lambda>v c. c\<lparr>cfg_Password := v\<rparr>) cfg;
          cfg = on_text opts ''transport'' (\<lambda>v c. c\<lparr>cfg_Transport := v\<rparr>) cfg;
          cfg = on_positive opts ''sipPort'' (\<lambda>n c. c\<lparr>cfg_SIPPort := n\<rparr>) cfg;
          cfg = cfg\<lparr>cfg_TLSConfig := tls_option opts (cfg_Transport cfg)\<rparr>;
          cfg = on_string opts ''audioMode'' (\<lambda>v c. c\<lparr>cfg_AudioMode := v\<rparr>) cfg;
          cfg = on_string opts ''pcapFile'' (\<lambda>v c. c\<lparr>cfg_PCAPFile := v\<rparr>) cfg;
          cfg = on_bool opts ''ipv6'' (\<lambda>b c. c\<lparr>cfg_IPv6 := b\<rparr>) cfg;
          cfg = on_bool opts ''srtp'' (\<lambda>b c. c\<lparr>cfg_SRTP := b\<rparr>) cfg;
          cfg = on_bool opts ''rtcp'' (\<lambda>b c. c\<lparr>cfg_RTCP := b\<rparr>) cfg;
          cfg = on_bool opts ''earlyMedia'' (\<lambda>b c. c\<lparr>cfg_EarlyMedia := b\<rparr>) cfg;
          cfg = on_duration opts ''cancelAfter'' (\<lambda>d c. c\<lparr>cfg_CancelAfter := d\<rparr>) cfg
      in on_object opts ''headers'' (\<lambda>hs c. c\<lparr>cfg_CustomHeaders := headers_in hs\<rparr>) cfg)"

section \<open>Which configurations scripts reach\<close>

definition in_64_bits :: "int \<Rightarrow> bool" where
  "in_64_bits d \<longleftrightarrow> - (2 ^ 63) \<le> d \<and> d < 2 ^ 63"

lemma toInt_range: "in_64_bits (toInt v)"
proof -
  have "in_64_bits (i64 n)" for n
    using signed_take_bit_int_greater_eq_minus_exp [of 63 n] signed_take_bit_int_less_exp [of 63 n]
    by (simp add: in_64_bits_def i64_def)
  then show ?thesis by (auto simp: toInt_def in_64_bits_def split: option.split js.split)
qed

text \<open>Steps of the reader keep what their setters keep.\<close>

lemma option_keeps:
  "(\<And>v c. P c \<Longrightarrow> P (f v c)) \<Longrightarrow> P cfg \<Longrightarrow> P (on_string opts k f cfg)"
  "(\<And>v c. v \<noteq> [] \<Longrightarrow> P c \<Longrightarrow> P (f v c)) \<Longrightarrow> P cfg \<Longrightarrow> P (on_text opts k f cfg)"
  "(\<And>d c. - (2 ^ 63) \<le> d \<Longrightarrow> d < 2 ^ 63 \<Longrightarrow> P c \<Longrightarrow> P (g d c)) \<Longrightarrow> P cfg \<Longrightarrow> P (on_duration opts k g cfg)"
  "(\<And>b c. P c \<Longrightarrow> P (h b c)) \<Longrightarrow> P cfg \<Longrightarrow> P (on_bool opts k h cfg)"
  "(\<And>n c. 0 < n \<Longrightarrow> in_64_bits n \<Longrightarrow> P c \<Longrightarrow> P (g n c)) \<Longrightarrow> P cfg \<Longrightarrow> P (on_positive opts k g cfg)"
  "(\<And>v c. P c \<Longrightarrow> P (j v c)) \<Longrightarrow> P cfg \<Longrightarrow> P (on_object opts k j cfg)"
  "(\<And>vs c. P c \<Longrightarrow> P (l vs c)) \<Longrightarrow> P cfg \<Longrightarrow> P (on_strings opts k l cfg)"
  "(\<And>v c. P c \<Longrightarrow> P (f v c)) \<Longrightarrow> (\<And>v c. P c \<Longrightarrow> P (f' v c)) \<Longrightarrow> P cfg \<Longrightarrow> P (parse_audio f f' opts cfg)"
  by (auto simp: on_string_def on_text_def on_duration_def on_bool_def on_positive_def on_object_def on_strings_def parse_audio_def
      toInt_range dest: ParseDuration_range split: option.split js.split)

definition reachable_base :: "call_config \<Rightarrow> bool" where
  "reachable_base cfg \<longleftrightarrow> cfg_Direction cfg = [] \<and> cfg_LocalIP cfg \<noteq> [] \<and> 0 \<le> cfg_RTPPort cfg \<and> 0 \<le> cfg_SIPPort cfg
     \<and> in_64_bits (cfg_RTPPort cfg) \<and> in_64_bits (cfg_SIPPort cfg) \<and> in_64_bits (cfg_Duration cfg) \<and> in_64_bits (cfg_DTMFInitialDelay cfg) \<and> in_64_bits (cfg_DTMFInterDigitGap cfg)
     \<and> in_64_bits (cfg_CancelAfter cfg)"

definition tls_or_none :: "call_config \<Rightarrow> bool" where
  "tls_or_none cfg \<longleftrightarrow> (cfg_TLSConfig cfg = None \<longrightarrow> cfg_Transport cfg \<noteq> ''tls'')"

lemmas base_keeps = option_keeps [where P = reachable_base]
lemmas tls_keeps = option_keeps [where P = tls_or_none]

lemma base_tls: "reachable_base c \<Longrightarrow> reachable_base (c\<lparr>cfg_TLSConfig := x\<rparr>)"
  by (simp add: reachable_base_def)

lemma tls_set: "tls_or_none (c\<lparr>cfg_TLSConfig := tls_option opts (cfg_Transport c)\<rparr>)"
  by (auto simp: tls_or_none_def tls_option_def split: option.splits js.splits)

lemma parseCfg_base: "reachable_base (parseCfg opts)"
  unfolding parseCfg_def Let_def
  by (intro base_keeps base_tls) (simp_all add: reachable_base_def in_64_bits_def call_config0_def)

lemma parseCfg_tls: "tls_or_none (parseCfg opts)"
  unfolding parseCfg_def Let_def
  by (intro tls_keeps tls_set) (simp_all add: tls_or_none_def)

section \<open>Options for a configuration\<close>

definition js_duration :: "int \<Rightarrow> js" where
  "js_duration d = JString (if d < 0 then CHR ''-'' # show_duration [(nat (- d), ''ns'')] else show_duration [(nat d, ''ns'')])"

definition js_tls :: "tls_config \<Rightarrow> js" where
  "js_tls t = JObject [(''cert'', JString (CertFile t)), (''key'', JString (KeyFile t)), (''ca'', JString (CAFile t)),
     (''skipVerify'', JBool (InsecureSkipVerify t)), (''serverName'', JString (ServerName t))]"

text \<open>\<open>num\<close> is the type of number that the JavaScript engine hands over.\<close>

definition options_of :: "(int \<Rightarrow> js) \<Rightarrow> call_config \<Rightarrow> js_object" where
  "options_of num cfg =
    [(''target'', JString (cfg_Target cfg)), (''aor'', JString (cfg_AOR cfg)), (''displayName'', JString (cfg_DisplayName cfg)),
     (''duration'', js_duration (cfg_Duration cfg)),
     (''audio'', JObject [(''file'', JString (cfg_AudioFile cfg)), (''codec'', JString (cfg_Codec cfg))]),
     (''dtmf'', JArray (map JString (cfg_DTMFSequence cfg))), (''ivrExpect'', JArray (map JString (cfg_IVRExpect cfg))),
     (''dtmfInitialDelay'', js_duration (cfg_DTMFInitialDelay cfg)), (''dtmfInterDigitGap'', js_duration (cfg_DTMFInterDigitGap cfg)),
     (''localIP'', JString (cfg_LocalIP cfg)), (''rtpPort'', num (cfg_RTPPort cfg)), (''pesq'', JBool (cfg_EnablePESQ cfg)),
     (''username'', JString (cfg_Username cfg)), (''password'', JString (cfg_Password cfg)),
     (''transport'', JString (cfg_Transport cfg)), (''sipPort'', num (cfg_SIPPort cfg)),
     (''tls'', case cfg_TLSConfig cfg of Some t \<Rightarrow> js_tls t | None \<Rightarrow> JNull),
     (''audioMode'', JString (cfg_AudioMode cfg)), (''pcapFile'', JString (cfg_PCAPFile cfg)), (''ipv6'', JBool (cfg_IPv6 cfg)),
     (''srtp'', JBool (cfg_SRTP cfg)), (''rtcp'', JBool (cfg_RTCP cfg)), (''earlyMedia'', JBool (cfg_EarlyMedia cfg)),
     (''cancelAfter'', js_duration (cfg_CancelAfter cfg)),
     (''headers'', JObject (map (\<lambda>(k, v). (k, JString v)) (cfg_CustomHeaders cfg)))]"

lemma on_js_duration:
  "map_of opts k = Some (js_duration d) \<Longrightarrow> in_64_bits d \<Longrightarrow> on_duration opts k f cfg = f d cfg"
  using ParseDuration_show [of "[(nat (- d), ''ns'')]"] ParseDuration_show(2) [of "[(nat d, ''ns'')]"]
  by (auto simp: on_duration_def on_string_def js_duration_def in_64_bits_def units_def duration_of_def unit_of_def unit_ns_def)

lemma strings_in_map: "strings_in (map JString ss) = ss"
  by (induction ss) (simp_all add: strings_in_def)

lemma headers_in_map: "headers_in (map (\<lambda>(k, v). (k, JString v)) hs) = hs"
  by (induction hs) (auto simp: headers_in_def)

lemma parse_js_tls: "map_of opts ''tls'' = Some (js_tls t) \<Longrightarrow> tls_option opts tr = Some t"
  by (simp add: tls_option_def js_tls_def parse_tls_def on_string_def on_bool_def tls_config0_def)

lemma on_option_simps:
  "map_of opts k = Some (JString v) \<Longrightarrow> on_string opts k f cfg = f v cfg"
  "map_of opts k = Some (JString v) \<Longrightarrow> on_text opts k f cfg = (if v \<noteq> [] then f v cfg else cfg)"
  "map_of opts k = Some (JBool b) \<Longrightarrow> on_bool opts k g cfg = g b cfg"
  "map_of opts k = Some v' \<Longrightarrow> toInt (Some v') = n \<Longrightarrow> on_positive opts k h cfg = (if n > 0 then h n cfg else cfg)"
  "map_of opts k = Some (JObject ob) \<Longrightarrow> on_object opts k j cfg = j ob cfg"
  "map_of opts k = Some (JArray (map JString ss)) \<Longrightarrow> on_strings opts k l cfg = l ss cfg"
  by (simp_all add: on_string_def on_text_def on_bool_def on_positive_def on_object_def on_strings_def strings_in_map)

lemma parse_options_of:
  assumes "reachable_base cfg" "tls_or_none cfg"
    and "toInt (Some (num (cfg_RTPPort cfg))) = cfg_RTPPort cfg" "toInt (Some (num (cfg_SIPPort cfg))) = cfg_SIPPort cfg"
  shows "parseCfg (options_of num cfg) = cfg"
proof -
  let ?o = "options_of num cfg"
  have lookups: "map_of ?o ''target'' = Some (JString (cfg_Target cfg))" "map_of ?o ''aor'' = Some (JString (cfg_AOR cfg))"
    "map_of ?o ''displayName'' = Some (JString (cfg_DisplayName cfg))" "map_of ?o ''duration'' = Some (js_duration (cfg_Duration cfg))"
    "map_of ?o ''audio'' = Some (JObject [(''file'', JString (cfg_AudioFile cfg)), (''codec'', JString (cfg_Codec cfg))])"
    "map_of ?o ''dtmf'' = Some (JArray (map JString (cfg_DTMFSequence cfg)))"
    "map_of ?o ''ivrExpect'' = Some (JArray (map JString (cfg_IVRExpect cfg)))"
    "map_of ?o ''dtmfInitialDelay'' = Some (js_duration (cfg_DTMFInitialDelay cfg))"
    "map_of ?o ''dtmfInterDigitGap'' = Some (js_duration (cfg_DTMFInterDigitGap cfg))"
    "map_of ?o ''localIP'' = Some (JString (cfg_LocalIP cfg))" "map_of ?o ''rtpPort'' = Some (num (cfg_RTPPort cfg))"
    "map_of ?o ''pesq'' = Some (JBool (cfg_EnablePESQ cfg))" "map_of ?o ''username'' = Some (JString (cfg_Username cfg))"
    "map_of ?o ''password'' = Some (JString (cfg_Password cfg))" "map_of ?o ''transport'' = Some (JString (cfg_Transport cfg))"
    "map_of ?o ''sipPort'' = Some (num (cfg_SIPPort cfg))"
    "map_of ?o ''tls'' = Some (case cfg_TLSConfig cfg of Some t \<Rightarrow> js_tls t | None \<Rightarrow> JNull)"
    "map_of ?o ''audioMode'' = Some (JString (cfg_AudioMode cfg))" "map_of ?o ''pcapFile'' = Some (JString (cfg_PCAPFile cfg))"
    "map_of ?o ''ipv6'' = Some (JBool (cfg_IPv6 cfg))" "map_of ?o ''srtp'' = Some (JBool (cfg_SRTP cfg))"
    "map_of ?o ''rtcp'' = Some (JBool (cfg_RTCP cfg))" "map_of ?o ''earlyMedia'' = Some (JBool (cfg_EarlyMedia cfg))"
    "map_of ?o ''cancelAfter'' = Some (js_duration (cfg_CancelAfter cfg))"
    "map_of ?o ''headers'' = Some (JObject (map (\<lambda>(k, v). (k, JString v)) (cfg_CustomHeaders cfg)))"
    by (simp_all add: options_of_def)
  have r: "cfg_Direction cfg = []" "cfg_LocalIP cfg \<noteq> []" "0 \<le> cfg_RTPPort cfg" "0 \<le> cfg_SIPPort cfg" "in_64_bits (cfg_Duration cfg)"
    "in_64_bits (cfg_DTMFInitialDelay cfg)" "in_64_bits (cfg_DTMFInterDigitGap cfg)" "in_64_bits (cfg_CancelAfter cfg)"
    using assms(1) by (simp_all add: reachable_base_def)
  have tls: "tls_option ?o (cfg_Transport cfg) = cfg_TLSConfig cfg"
    using assms(2) parse_js_tls [of ?o] lookups(17)
    by (cases "cfg_TLSConfig cfg") (simp_all add: tls_or_none_def tls_option_def)
  then have tls0: "cfg_Transport cfg = [] \<Longrightarrow> tls_option ?o [] = cfg_TLSConfig cfg" by metis
  show ?thesis
    using r tls0 assms(3,4)
    by (auto simp: parseCfg_def Let_def parse_audio_def on_option_simps lookups on_js_duration tls headers_in_map call_config0_def
        intro: call_config.equality)
qed

lemma toInt_numbers:
  "in_64_bits n \<Longrightarrow> toInt (Some (JInt n)) = n" "\<bar>n\<bar> < 2 ^ 53 \<Longrightarrow> toInt (Some (JFloat (fint n))) = n"
  by (auto simp: toInt_def in_64_bits_def trunc64_def fint_exact intro: i64_id)

lemma default_tls:
  assumes "map_of opts ''transport'' = Some (JString ''tls'')" "\<And>tls. map_of opts ''tls'' \<noteq> Some (JObject tls)"
  shows "cfg_TLSConfig (parseCfg opts) = Some (tls_config0\<lparr>InsecureSkipVerify := True\<rparr>)"
proof -
  have tls: "tls_option opts ''tls'' = Some (tls_config0\<lparr>InsecureSkipVerify := True\<rparr>)"
    using assms(2) by (auto simp: tls_option_def split: option.split js.split)
  have port: "cfg_Transport (on_positive opts k (\<lambda>n c. c\<lparr>cfg_SIPPort := n\<rparr>) c) = cfg_Transport c" for k c
    by (simp add: on_positive_def)
  show ?thesis
    unfolding parseCfg_def Let_def
    by (intro option_keeps [where P = "\<lambda>c. cfg_TLSConfig c = Some (tls_config0\<lparr>InsecureSkipVerify := True\<rparr>)"])
      (simp_all add: port on_option_simps(2) [OF assms(1)] tls)
qed

text \<open>C39: 
  Exactly the configurations without a direction, with a local address, with ports that are not
  negative, with ports and durations of 64 bits and with TLS parameters when the transport is tls are what
  scripts reach. The reader yields nothing else, and each of them is read back from the options that
  name each field by its own key, with the ports as integers or, below \<open>2 ^ 53\<close>, as floating-point
  numbers. Transport tls without a \<open>tls\<close> object means TLS parameters that are empty but for skipping
  the verification.
\<close>
theorem script_configurations:
  "reachable_base (parseCfg opts) \<and> tls_or_none (parseCfg opts)
    \<and> (reachable_base cfg \<and> tls_or_none cfg \<longrightarrow> parseCfg (options_of JInt cfg) = cfg
        \<and> (cfg_RTPPort cfg < 2 ^ 53 \<and> cfg_SIPPort cfg < 2 ^ 53 \<longrightarrow> parseCfg (options_of (\<lambda>n. JFloat (fint n)) cfg) = cfg))
    \<and> (map_of opts ''transport'' = Some (JString ''tls'') \<and> (\<forall>tls. map_of opts ''tls'' \<noteq> Some (JObject tls)) \<longrightarrow>
        cfg_TLSConfig (parseCfg opts) = Some \<lparr>CertFile = [], KeyFile = [], CAFile = [], InsecureSkipVerify = True, ServerName = []\<rparr>)"
proof -
  have ports: "0 \<le> cfg_RTPPort cfg \<and> 0 \<le> cfg_SIPPort cfg \<and> in_64_bits (cfg_RTPPort cfg) \<and> in_64_bits (cfg_SIPPort cfg)"
    if "reachable_base cfg" using that by (simp add: reachable_base_def)
  have ints: "parseCfg (options_of JInt cfg) = cfg" if "reachable_base cfg" "tls_or_none cfg"
    using parse_options_of [OF that] toInt_numbers(1) ports [OF that(1)] by blast
  have floats: "parseCfg (options_of (\<lambda>n. JFloat (fint n)) cfg) = cfg"
    if "reachable_base cfg" "tls_or_none cfg" "cfg_RTPPort cfg < 2 ^ 53" "cfg_SIPPort cfg < 2 ^ 53"
    by (rule parse_options_of [OF that(1,2)]) (use ports [OF that(1)] that(3,4) in \<open>simp_all add: toInt_numbers(2)\<close>)
  show ?thesis
    using parseCfg_base parseCfg_tls ints floats default_tls [of opts] by (simp add: tls_config0_def)
qed

theorem script_configurations_witness:
  "\<exists>cfg. cfg_Username cfg = ''u'' \<and> cfg_Password cfg = ''p'' \<and> cfg_RTPPort cfg = 20000
    \<and> parseCfg (options_of JInt cfg) = cfg \<and> parseCfg (options_of (\<lambda>n. JFloat (fint n)) cfg) = cfg
    \<and> map_option InsecureSkipVerify (cfg_TLSConfig (parseCfg [(''transport'', JString ''tls'')])) = Some True"
proof -
  let ?cfg = "call_config0\<lparr>cfg_LocalIP := ''10.0.0.7'', cfg_Username := ''u'', cfg_Password := ''p'', cfg_RTPPort := 20000\<rparr>"
  have "reachable_base ?cfg" "tls_or_none ?cfg" "cfg_RTPPort ?cfg < 2 ^ 53" "cfg_SIPPort ?cfg < 2 ^ 53"
    by (simp_all add: reachable_base_def tls_or_none_def in_64_bits_def call_config0_def)
  with script_configurations [of "[(''transport'', JString ''tls'')]" ?cfg]
  have "parseCfg (options_of JInt ?cfg) = ?cfg" "parseCfg (options_of (\<lambda>n. JFloat (fint n)) ?cfg) = ?cfg"
    "map_option InsecureSkipVerify (cfg_TLSConfig (parseCfg [(''transport'', JString ''tls'')])) = Some True"
    by simp_all
  then show ?thesis by (intro exI [of _ ?cfg]) simp
qed

end
