(* ===== verification/K6_Api.thy ===== *)
theory K6_Api
  imports K6_Config Health
begin

text \<open>
  The other functions of the JavaScript API (\<open>k6ext/sip.go\<close>, \<open>k6ext/conference.go\<close>, \<open>k6ext/call_handle.go\<close>): how
  their options are read, what a call returns to the script and which metric samples it emits.
\<close>

section \<open>Options\<close>

definition parse_register :: "js_object \<Rightarrow> register_config" where
  "parse_register opts =
     (let cfg = \<lparr>rg_Registrar = [], rg_AOR = [], rg_Username = [], rg_Password = [], rg_Expires = 0, rg_LocalIP = [], rg_Transport = [],
            rg_TLSConfig = None\<rparr>;
          cfg = on_string opts ''registrar'' (\<lambda>v c. c\<lparr>rg_Registrar := v\<rparr>) cfg;
          cfg = on_string opts ''aor'' (\<lambda>v c. c\<lparr>rg_AOR := v\<rparr>) cfg;
          cfg = on_string opts ''username'' (\<lambda>v c. c\<lparr>rg_Username := v\<rparr>) cfg;
          cfg = on_string opts ''password'' (\<lambda>v c. c\<lparr>rg_Password := v\<rparr>) cfg;
          cfg = on_positive opts ''expires'' (\<lambda>n c. c\<lparr>rg_Expires := n\<rparr>) cfg;
          cfg = on_string opts ''localIP'' (\<lambda>v c. c\<lparr>rg_LocalIP := v\<rparr>) cfg;
          cfg = on_text opts ''transport'' (\<lambda>v c. c\<lparr>rg_Transport := v\<rparr>) cfg
      in cfg\<lparr>rg_TLSConfig := tls_option opts (rg_Transport cfg)\<rparr>)"

definition conference_config0 :: conference_config where
  "conference_config0 = \<lparr>cc_BridgeURI = [], cc_AudioFile = [], cc_Codec = [], cc_LocalIP = [], cc_Duration = 0,
     cc_Username = [], cc_Password = []\<rparr>"

definition parse_conf_audio :: "js_object \<Rightarrow> conference_config \<Rightarrow> conference_config" where
  "parse_conf_audio = parse_audio (\<lambda>v c. c\<lparr>cc_AudioFile := v\<rparr>) (\<lambda>v c. c\<lparr>cc_Codec := v\<rparr>)"

definition parse_conference :: "js_object \<Rightarrow> conference_config" where
  "parse_conference opts =
     (let cfg = on_string opts ''bridgeURI'' (\<lambda>v c. c\<lparr>cc_BridgeURI := v\<rparr>) conference_config0;
          cfg = parse_conf_audio opts cfg;
          cfg = on_duration opts ''duration'' (\<lambda>d c. c\<lparr>cc_Duration := d\<rparr>) cfg
      in on_string opts ''localIP'' (\<lambda>v c. c\<lparr>cc_LocalIP := v\<rparr>) cfg)"

text \<open>The options of a participant; an undefined options argument is a nil map.\<close>

definition parse_participant :: "js_object option \<Rightarrow> conference_config option" where
  "parse_participant opts = map_option (\<lambda>opts.
     on_string opts ''localIP'' (\<lambda>v c. c\<lparr>cc_LocalIP := v\<rparr>) (parse_conf_audio opts conference_config0)) opts"

definition parse_ruas :: "js_object \<Rightarrow> ruas_config" where
  "parse_ruas opts =
     (let cfg = \<lparr>uas_LocalIP = [], uas_AudioFile = [], uas_Codec = ''PCMU'', uas_CallDuration = 0, uas_MaxConcurrent = 0, uas_EchoMode = False,
            ru_Registrar = [], ru_AOR = [], ru_Username = [], ru_Password = [], ru_Expires = 0, ru_ListenAddr = [], ru_Transport = [],
            ru_TLSConfig = None\<rparr>;
          cfg = on_string opts ''registrar'' (\<lambda>v c. c\<lparr>ru_Registrar := v\<rparr>) cfg;
          cfg = on_string opts ''aor'' (\<lambda>v c. c\<lparr>ru_AOR := v\<rparr>) cfg;
          cfg = on_string opts ''username'' (\<lambda>v c. c\<lparr>ru_Username := v\<rparr>) cfg;
          cfg = on_string opts ''password'' (\<lambda>v c. c\<lparr>ru_Password := v\<rparr>) cfg;
          cfg = on_positive opts ''expires'' (\<lambda>n c. c\<lparr>ru_Expires := n\<rparr>) cfg;
          cfg = on_text opts ''listenAddr'' (\<lambda>v c. c\<lparr>ru_ListenAddr := v\<rparr>) cfg;
          cfg = on_text opts ''localIP'' (\<lambda>v c. c\<lparr>uas_LocalIP := v\<rparr>) cfg;
          cfg = on_text opts ''transport'' (\<lambda>v c. c\<lparr>ru_Transport := v\<rparr>) cfg;
          cfg = on_positive opts ''maxConcurrent'' (\<lambda>n c. c\<lparr>uas_MaxConcurrent := n\<rparr>) cfg;
          cfg = on_bool opts ''echoMode'' (\<lambda>b c. c\<lparr>uas_EchoMode := b\<rparr>) cfg;
          cfg = parse_audio (\<lambda>v c. c\<lparr>uas_AudioFile := v\<rparr>) (\<lambda>v c. c\<lparr>uas_Codec := v\<rparr>) opts cfg;
          cfg = on_duration opts ''duration'' (\<lambda>d c. c\<lparr>uas_CallDuration := d\<rparr>) cfg
      in cfg\<lparr>ru_TLSConfig := tls_option opts (ru_Transport cfg)\<rparr>)"

section \<open>Metrics and results\<close>

datatype metric =
    CallSuccess | CallFailure | CallDuration
  | RTPPacketsSent | RTPPacketsReceived | RTPPacketsLost | RTPJitter
  | MOSScore
  | TransferSuccess | TransferDuration
  | RegisterSuccess
  | ConferenceLegs
  | OptionsSuccess | OptionsFailure | OptionsRTT
  | RTPBytesSent | RTPBytesReceived

type_synonym sample = "metric \<times> float64"

definition result_samples :: "int \<Rightarrow> call_result \<Rightarrow> sample list" where
  "result_samples elapsed r =
     [(CallSuccess, 1), (CallDuration, fint (elapsed sdiv 1000000)), (RTPPacketsSent, fint (res_PacketsSent r)),
      (RTPPacketsReceived, fint (res_PacketsReceived r)), (RTPPacketsLost, fint (res_PacketsLost r)), (RTPJitter, res_Jitter r),
      (MOSScore, res_MOS r), (RTPBytesSent, fint (res_BytesSent r)), (RTPBytesReceived, fint (res_BytesReceived r))]
     @ (if res_TransferOK r then [(TransferSuccess, 1)] else [])"

definition result_object :: "call_result \<Rightarrow> js_object" where
  "result_object r =
     [(''success'', JBool True), (''sent'', JInt (res_PacketsSent r)), (''received'', JInt (res_PacketsReceived r)),
      (''lost'', JInt (res_PacketsLost r)), (''loss_pct'', JFloat (res_PacketLossPct r)), (''jitter'', JFloat (res_Jitter r)),
      (''mos'', JFloat (res_MOS r)), (''silence_ratio'', JFloat (res_SilenceRatio r)), (''rtt_ms'', JFloat (res_RTTMs r)),
      (''rtcp_fraction_lost'', JInt (uint (res_RTCPFractionLost r))), (''rtcp_cumulative_lost'', JInt (uint (res_RTCPCumulativeLost r))),
      (''pesq_mos'', JFloat (res_PESQScore r)), (''ivr_ok'', JBool (res_IVRValid r)), (''transfer_ok'', JBool (res_TransferOK r)),
      (''recv_errors'', JInt (res_RecvErrors r)), (''recorder_drops'', JInt (res_RecorderDrops r))]"

text \<open>The text of an error is an argument.\<close>

definition emitAndReturn :: "string + call_result \<Rightarrow> int \<Rightarrow> sample list \<times> js_object" where
  "emitAndReturn result elapsed = (case result of
       Inl err \<Rightarrow> ([(CallFailure, 1)], [(''success'', JBool False), (''error'', JString err)])
     | Inr r \<Rightarrow> (result_samples elapsed r, result_object r))"

definition handle_result_object :: "call_result \<Rightarrow> js_object" where
  "handle_result_object r =
     [(''success'', JBool True), (''sent'', JInt (res_PacketsSent r)), (''received'', JInt (res_PacketsReceived r)),
      (''lost'', JInt (res_PacketsLost r)), (''jitter'', JFloat (res_Jitter r)), (''mos'', JFloat (res_MOS r)),
      (''pesq_mos'', JFloat (res_PESQScore r)), (''ivr_ok'', JBool (res_IVRValid r)), (''transfer_ok'', JBool (res_TransferOK r))]"

text \<open>
  \<open>sip.call()\<close>: \<open>run\<close> is the life of the handle between \<open>Dial\<close> and the end that \<open>WaitDone\<close> waits for, with
  nothing for a call that does not end. The handle of a cancelled call has ended already.
\<close>

definition sip_call :: "(dial_error \<Rightarrow> string) \<Rightarrow> (call \<Rightarrow> call option) \<Rightarrow> js_object \<Rightarrow> dial_env \<Rightarrow> int \<Rightarrow> (sample list \<times> js_object) option" where
  "sip_call Error run opts env elapsed =
     Option.bind (StartCall (parseCfg opts) env) (\<lambda>r. case r of
         Inl e \<Rightarrow> Some (emitAndReturn (Inl (Error e)) elapsed)
       | Inr h \<Rightarrow> map_option (\<lambda>h'. emitAndReturn (Inr (c_result h')) elapsed) (if c_done h then Some h else run h))"

section \<open>OPTIONS from a script\<close>

record options_config =
  oc_Target :: string
  oc_LocalIP :: string
  oc_Transport :: string
  oc_Timeout :: int
  oc_TLSConfig :: "tls_config option"

datatype send_options_error = OptionsClient client_error | OptionsFailed options_error

text \<open>\<open>SendOptions\<close>: a client of its own, closed on every way out; then the request as the health checker sends it.\<close>

definition options_defaults :: "options_config \<Rightarrow> options_config" where
  "options_defaults cfg =
     (let cfg = (if oc_Timeout cfg = 0 then cfg\<lparr>oc_Timeout := 5000000000\<rparr> else cfg);
          cfg = (if oc_Transport cfg = [] then cfg\<lparr>oc_Transport := ''udp''\<rparr> else cfg)
      in if oc_TLSConfig cfg = None \<and> oc_Transport cfg = ''tls''
         then cfg\<lparr>oc_TLSConfig := Some (tls_config0\<lparr>InsecureSkipVerify := True\<rparr>)\<rparr> else cfg)"

definition SendOptions :: "sip_lib \<Rightarrow> ('cert, 'pool) tls_files \<Rightarrow> sipgo_outcomes \<Rightarrow> string option \<Rightarrow> options_config \<Rightarrow> options_net
    \<Rightarrow> send_options_error + options_result" where
  "SendOptions lib files so route cfg0 net =
     (let cfg = options_defaults cfg0
      in case fst (NewClientWithTransport files so (resolveLocalIP (oc_LocalIP cfg) route) (oc_Transport cfg) (oc_TLSConfig cfg)) of
           Inl e \<Rightarrow> Inl (OptionsClient e)
         | Inr _ \<Rightarrow> map_sum OptionsFailed id (sendOptionsWithClient (ParseUri lib (oc_Target cfg) \<noteq> None) net))"

definition parse_options :: "js_object \<Rightarrow> options_config" where
  "parse_options opts =
     (let cfg = \<lparr>oc_Target = [], oc_LocalIP = [], oc_Transport = [], oc_Timeout = 0, oc_TLSConfig = None\<rparr>;
          cfg = on_string opts ''target'' (\<lambda>v c. c\<lparr>oc_Target := v\<rparr>) cfg;
          cfg = on_string opts ''localIP'' (\<lambda>v c. c\<lparr>oc_LocalIP := v\<rparr>) cfg;
          cfg = on_text opts ''transport'' (\<lambda>v c. c\<lparr>oc_Transport := v\<rparr>) cfg;
          cfg = on_duration opts ''timeout'' (\<lambda>d c. c\<lparr>oc_Timeout := d\<rparr>) cfg
      in cfg\<lparr>oc_TLSConfig := (case map_of opts ''tls'' of
           Some (JObject tls) \<Rightarrow> Some (on_bool tls ''skipVerify'' (\<lambda>v c. c\<lparr>InsecureSkipVerify := v\<rparr>) tls_config0)
         | _ \<Rightarrow> if oc_Transport cfg = ''tls'' then Some (tls_config0\<lparr>InsecureSkipVerify := True\<rparr>) else None)\<rparr>)"

definition k6_Options :: "(send_options_error \<Rightarrow> string) \<Rightarrow> send_options_error + options_result \<Rightarrow> sample list \<times> js_object" where
  "k6_Options Error r = (case r of
       Inl e \<Rightarrow> ([(OptionsFailure, 1)], [(''success'', JBool False), (''error'', JString (Error e))])
     | Inr res \<Rightarrow> ([(OptionsSuccess, 1), (OptionsRTT, fint (rtt_milliseconds (opt_RTT res)))],
         [(''success'', JBool True), (''status'', JInt (opt_StatusCode res)), (''rtt_ms'', JInt (rtt_milliseconds (opt_RTT res)))]))"

text \<open>\<open>sip.startHealthCheck()\<close>: target, local address, transport and the rest; without a target it panics.\<close>

definition parse_health :: "js_object \<Rightarrow> (string \<times> string \<times> string \<times> health_config) option" where
  "parse_health opts =
     (let target = on_string opts ''target'' (\<lambda>v _. v) [] in
      if target = [] then None
      else
        let localIP = on_string opts ''localIP'' (\<lambda>v _. v) [];
            transport = on_text opts ''transport'' (\<lambda>v _. v) [];
            cfg = \<lparr>hc_Interval = 0, hc_Timeout = 0, hc_MaxFailures = 0\<rparr>;
            cfg = on_duration opts ''interval'' (\<lambda>d c. c\<lparr>hc_Interval := d\<rparr>) cfg;
            cfg = on_duration opts ''timeout'' (\<lambda>d c. c\<lparr>hc_Timeout := d\<rparr>) cfg
        in Some (target, localIP, transport, on_positive opts ''maxFailures'' (\<lambda>n c. c\<lparr>hc_MaxFailures := n\<rparr>) cfg))"

section \<open>What a script sees of a call\<close>

definition finished_by :: "(call \<Rightarrow> call option) \<Rightarrow> bool" where
  "finished_by run \<longleftrightarrow> (\<forall>h h'. run h = Some h' \<longrightarrow> (\<exists>h0. finalize h0 = Some h'))"

lemma finalized_no_transfer: "finalize h = Some h' \<Longrightarrow> \<not> res_TransferOK (c_result h') \<and> res_PESQScore (c_result h') = 0"
  by (auto simp: finalize_def final_result_def Let_def split: option.splits)

lemma samples_of_result:
  assumes "\<not> res_TransferOK r"
  shows "distinct (map fst (result_samples elapsed r))" "CallFailure \<notin> fst ` set (result_samples elapsed r)"
    "(CallSuccess, 1) \<in> set (result_samples elapsed r)"
    "fst ` set (result_samples elapsed r) \<inter> {TransferSuccess, TransferDuration, ConferenceLegs} = {}"
  using assms by (simp_all add: result_samples_def)

lemma sip_call_cases:
  assumes "sip_call Error run opts env elapsed = Some (samples, obj)" "finished_by run"
  shows "(\<exists>e. samples = [(CallFailure, 1)] \<and> obj = [(''success'', JBool False), (''error'', JString (Error e))]
        \<and> (\<forall>h p r. Dial (parseCfg opts) env \<noteq> Some (Inr (h, p), r)))
    \<or> (\<exists>h plan r (h' :: call). Dial (parseCfg opts) env = Some (Inr (h, plan), r) \<and> \<not> res_TransferOK (c_result h') \<and> res_PESQScore (c_result h') = 0
        \<and> samples = result_samples elapsed (c_result h') \<and> obj = result_object (c_result h') \<and> (plan = None \<longrightarrow> c_result h' = call_result0))"
proof -
  from assms(1) obtain o' r where d: "Dial (parseCfg opts) env = Some (o', r)" 
    by (cases "Dial (parseCfg opts) env") (auto simp: sip_call_def StartCall_def)
  show ?thesis
  proof (cases o')
    case (Inl e)
    with assms(1) d show ?thesis by (auto simp: sip_call_def StartCall_def emitAndReturn_def)
  next
    case (Inr x)
    obtain h plan where x: "x = (h, plan)" by (cases x)
    from assms(1) d Inr x obtain h' where h: "(if c_done h then Some h else run h) = Some h'"
      "samples = result_samples elapsed (c_result h')" "obj = result_object (c_result h')"
      by (auto simp: sip_call_def StartCall_def emitAndReturn_def)
    have c: "c_result h' = call_result0" if "plan = None"
      using dial_cancelled [of "parseCfg opts" env h r] d h(1) Inr x that by (auto simp: cancelled_handle_def split: if_splits)
    have "\<not> res_TransferOK (c_result h') \<and> res_PESQScore (c_result h') = 0"
    proof (cases plan)
      case None
      with c show ?thesis by (simp add: call_result0_def)
    next
      case (Some p)
      obtain cod port ir sender rcv where "h = call_handle (parseCfg opts) env cod port ir sender rcv"
        by (rule dial_ok [OF d [unfolded Inr x Some]])
      with h(1) have "run h = Some h'" by (simp add: call_handle_def)
      with assms(2) show ?thesis using finalized_no_transfer by (auto simp: finished_by_def)
    qed
    with d Inr x h(2,3) c show ?thesis
      by - (rule disjI2, rule exI [of _ h], rule exI [of _ plan], rule exI [of _ r], rule exI [of _ h'], simp)
  qed
qed

text \<open>C40: 
  Whatever a script passes to \<open>sip.call()\<close>: if the call returns, it emits no metric twice, exactly one
  of the success and the failure counter, in accordance with the flag the script gets; it never
  emits one of the metrics for transfers and conferences, reports no transfer and a PESQ score of 0.
  A call that was given up while it rang counts as a success and adds a rating of 0 to the ratings.
\<close>
theorem call_metrics:
  assumes "sip_call Error run opts env elapsed = Some (samples, obj)" "finished_by run"
  shows "distinct (map fst samples)
    \<and> (CallSuccess \<in> fst ` set samples \<longleftrightarrow> CallFailure \<notin> fst ` set samples)
    \<and> map_of obj ''success'' = Some (JBool (CallSuccess \<in> fst ` set samples))
    \<and> fst ` set samples \<inter> {TransferSuccess, TransferDuration, ConferenceLegs} = {}
    \<and> map_of obj ''transfer_ok'' \<noteq> Some (JBool True)
    \<and> (\<forall>x. map_of obj ''pesq_mos'' = Some (JFloat x) \<longrightarrow> x = 0)
    \<and> (\<forall>h r. Dial (parseCfg opts) env = Some (Inr (h, None), r) \<longrightarrow> (CallSuccess, 1) \<in> set samples \<and> (MOSScore, 0) \<in> set samples)"
  using sip_call_cases [OF assms]
proof (elim disjE exE conjE)
  fix e
  assume "samples = [(CallFailure, 1)]" "obj = [(''success'', JBool False), (''error'', JString (Error e))]"
    "\<forall>h p r. Dial (parseCfg opts) env \<noteq> Some (Inr (h, p), r)"
  then show ?thesis by simp
next
  fix h plan r and h' :: call
  assume d: "Dial (parseCfg opts) env = Some (Inr (h, plan), r)" and n: "\<not> res_TransferOK (c_result h')" "res_PESQScore (c_result h') = 0"
    and s: "samples = result_samples elapsed (c_result h')" "obj = result_object (c_result h')" "plan = None \<longrightarrow> c_result h' = call_result0"
  note f = samples_of_result [OF n(1), of elapsed, folded s(1)]
  have m: "CallSuccess \<in> fst ` set samples" using f(3) by force
  have z: "plan = None \<Longrightarrow> (MOSScore, 0) \<in> set samples"
    using s(1,3) by (simp add: result_samples_def call_result0_def)
  show ?thesis
    using f m z d n s(2) by (auto simp: result_object_def)
qed

theorem call_metrics_witness:
  "\<exists>obj. sip_call (\<lambda>_. ''codec'') finalize [(''audio'', JObject [(''codec'', JString ''mp3'')])] (dial_env0 (answered 200 [])) 7 = Some ([(CallFailure, 1)], obj)
     \<and> map_of obj ''success'' = Some (JBool False)"
proof -
  let ?opts = "[(''audio'', JObject [(''codec'', JString ''mp3'')])]"
  have "cfg_Codec (parseCfg ?opts) = ''mp3''" "cfg_AudioMode (parseCfg ?opts) = []"
    by (simp_all add: parseCfg_def Let_def parse_audio_def on_string_def on_text_def on_duration_def on_bool_def on_positive_def
        on_object_def on_strings_def toInt_def tls_option_def call_config0_def)
  then have d: "Dial (parseCfg ?opts) (dial_env0 (answered 200 [])) = Some (Inl CodecFailed, held False False False False)"
    by (simp add: Dial_def dial_codec_def NewCodec_def ToUpper_def upcase_def Let_def char_of_def bit_iff_odd)
  let ?obj = "[(''success'', JBool False), (''error'', JString ''codec'')]"
  have s: "sip_call (\<lambda>_. ''codec'') finalize ?opts (dial_env0 (answered 200 [])) 7 = Some ([(CallFailure, 1)], ?obj)"
    by (simp add: sip_call_def StartCall_def d emitAndReturn_def)
  have "finished_by finalize" by (auto simp: finished_by_def)
  from call_metrics [OF s this] s show ?thesis by (intro exI [of _ ?obj]) auto
qed

end
