(* ===== verification/Health_Loop.thy ===== *)
theory Health_Loop
  imports Health Steps
begin

text \<open>
  The life of a health checker (\<open>run\<close> and \<open>Stop\<close> of \<open>sip/healthcheck.go\<close>): the goroutine that pings at
  once and then at every tick, and any number of goroutines that stop it, as an interleaved step
  relation over the checker of the theory \<open>Health\<close>.
\<close>

section \<open>The goroutine and the callers of Stop\<close>

text \<open>The first ping in flight, before \<open>time.NewTicker\<close>, in the \<open>select\<close>, a later ping in flight, returned.
  A caller of \<open>Stop\<close>: before \<open>cancel\<close>, at the wait for \<open>done\<close>, before closing the client, returned.\<close>

datatype loop_pc = LFirst | LTicker | LSelect | LPing | LExit

datatype stop_pc = StCancel | StWait | StClose | StReturned

text \<open>\<open>hl_pings\<close> records the answers to the pings, \<open>hl_closes\<close> how often the client was closed. After a
  panic the process is gone.\<close>

record health_loop =
  hl_pc :: loop_pc
  hl_hc :: health_checker
  hl_cancelled :: bool
  hl_done :: bool
  hl_panic :: bool
  hl_pings :: "options_net list"
  hl_closes :: nat
  hl_stoppers :: "stop_pc list"

definition health_loop_start :: "health_config \<Rightarrow> bool \<Rightarrow> nat \<Rightarrow> health_loop" where
  "health_loop_start cfg client callers = \<lparr>hl_pc = LFirst, hl_hc = StartHealthCheck cfg client, hl_cancelled = False,
     hl_done = False, hl_panic = False, hl_pings = [], hl_closes = 0, hl_stoppers = replicate callers StCancel\<rparr>"

definition stopper :: "stop_pc \<Rightarrow> nat \<Rightarrow> health_loop \<Rightarrow> bool" where
  "stopper pc i s \<longleftrightarrow> i < length (hl_stoppers s) \<and> hl_stoppers s ! i = pc"

definition set_stopper :: "nat \<Rightarrow> stop_pc \<Rightarrow> health_loop \<Rightarrow> health_loop" where
  "set_stopper i pc s = s\<lparr>hl_stoppers := (hl_stoppers s)[i := pc]\<rparr>"

text \<open>A ping is one step, when its answer is in; what the cancellation of its context changes is the answer.\<close>

inductive health_run_step :: "bool \<Rightarrow> health_loop \<Rightarrow> health_loop \<Rightarrow> bool" for target_ok where
  first_ping: "hl_pc s = LFirst \<Longrightarrow>
    health_run_step target_ok s (s\<lparr>hl_pc := LTicker, hl_hc := ping target_ok net (hl_hc s), hl_pings := hl_pings s @ [net]\<rparr>)"
| new_ticker: "hl_pc s = LTicker \<Longrightarrow> 0 < hc_Interval (hc_cfg (hl_hc s)) \<Longrightarrow> health_run_step target_ok s (s\<lparr>hl_pc := LSelect\<rparr>)"
| bad_ticker: "hl_pc s = LTicker \<Longrightarrow> hc_Interval (hc_cfg (hl_hc s)) \<le> 0 \<Longrightarrow>
    health_run_step target_ok s (s\<lparr>hl_pc := LExit, hl_panic := True\<rparr>)"
| tick_fires: "hl_pc s = LSelect \<Longrightarrow> health_run_step target_ok s (s\<lparr>hl_pc := LPing\<rparr>)"
| loop_ends: "hl_pc s = LSelect \<Longrightarrow> hl_cancelled s \<Longrightarrow> health_run_step target_ok s (s\<lparr>hl_pc := LExit, hl_done := True\<rparr>)"
| next_ping: "hl_pc s = LPing \<Longrightarrow>
    health_run_step target_ok s (s\<lparr>hl_pc := LSelect, hl_hc := ping target_ok net (hl_hc s), hl_pings := hl_pings s @ [net]\<rparr>)"

inductive Stop_step :: "health_loop \<Rightarrow> health_loop \<Rightarrow> bool" where
  stop_cancel: "stopper StCancel i s \<Longrightarrow> Stop_step s (set_stopper i StWait (s\<lparr>hl_cancelled := True\<rparr>))"
| stop_wait: "stopper StWait i s \<Longrightarrow> hl_done s \<Longrightarrow>
    Stop_step s (set_stopper i (if hc_client (hl_hc s) then StClose else StReturned) s)"
| stop_close: "stopper StClose i s \<Longrightarrow> Stop_step s (set_stopper i StReturned (s\<lparr>hl_closes := hl_closes s + 1\<rparr>))"

inductive health_step :: "bool \<Rightarrow> health_loop \<Rightarrow> health_loop \<Rightarrow> bool" for target_ok where
  by_run: "health_run_step target_ok s s' \<Longrightarrow> health_step target_ok s s'"
| by_Stop: "Stop_step s s' \<Longrightarrow> health_step target_ok s s'"


lemma set_stopper_fields [simp]:
  "hl_pc (set_stopper i pc s) = hl_pc s" "hl_hc (set_stopper i pc s) = hl_hc s" "hl_cancelled (set_stopper i pc s) = hl_cancelled s"
  "hl_done (set_stopper i pc s) = hl_done s" "hl_panic (set_stopper i pc s) = hl_panic s" "hl_pings (set_stopper i pc s) = hl_pings s"
  "hl_closes (set_stopper i pc s) = hl_closes s" "hl_stoppers (set_stopper i pc s) = (hl_stoppers s)[i := pc]"
  by (simp_all add: set_stopper_def)

section \<open>Invariant\<close>






lemma StartHealthCheck_cfg: "hc_cfg (StartHealthCheck cfg client) = health_defaults cfg"
  by (simp add: StartHealthCheck_def)







section \<open>Completion of Stop\<close>











definition sample_health :: health_config where
  "sample_health = \<lparr>hc_Interval = 0, hc_Timeout = 0, hc_MaxFailures = 1\<rparr>"


text \<open>A negative interval passes: after the first ping \<open>time.NewTicker\<close> panics in the goroutine.\<close>
theorem negative_interval_panics:
  assumes "hc_Interval cfg < 0"
  shows "\<exists>s. (health_step target_ok)\<^sup>*\<^sup>* (health_loop_start cfg client callers) s \<and> hl_panic s"
proof -
  let ?s0 = "health_loop_start cfg client callers"
  let ?s1 = "?s0\<lparr>hl_pc := LTicker, hl_hc := ping target_ok NoAnswer (hl_hc ?s0), hl_pings := hl_pings ?s0 @ [NoAnswer]\<rparr>"
  have "health_step target_ok ?s0 ?s1" by (rule by_run, rule first_ping) (simp add: health_loop_start_def)
  moreover have "health_step target_ok ?s1 (?s1\<lparr>hl_pc := LExit, hl_panic := True\<rparr>)"
    by (rule by_run, rule bad_ticker)
      (use assms in \<open>simp_all add: health_loop_start_def ping_cfg StartHealthCheck_cfg health_defaults_def Let_def\<close>)
  ultimately have "(health_step target_ok)\<^sup>*\<^sup>* ?s0 (?s1\<lparr>hl_pc := LExit, hl_panic := True\<rparr>)"
    by (meson converse_rtranclp_into_rtranclp rtranclp.rtrancl_refl)
  moreover have "hl_panic (?s1\<lparr>hl_pc := LExit, hl_panic := True\<rparr>)" by simp
  ultimately show ?thesis by blast
qed

theorem negative_interval_panics_witness:
  "\<exists>s. (health_step True)\<^sup>*\<^sup>* (health_loop_start (sample_health\<lparr>hc_Interval := - 1\<rparr>) True 0) s \<and> hl_panic s"
  by (rule negative_interval_panics) simp

end
