(* ===== verification/K6_Module.thy ===== *)
theory K6_Module
  imports K6_Api Csv_Pool Health_Loop
begin

text \<open>
  The functions of the module as a script calls them (\<open>k6ext/sip.go\<close>, \<open>k6ext/conference.go\<close>,
  \<open>k6ext/healthcheck.go\<close>): options read, the operation run, its error thrown under the name of the
  function or its handle returned with the sample it emits, and the registration of the metrics
  (\<open>k6ext/metrics.go\<close>). Texts of errors are arguments.
\<close>

section \<open>Functions\<close>

text \<open>\<open>common.Throw\<close> of an error wrapped with the name of the function.\<close>

definition throw :: "string \<Rightarrow> ('e \<Rightarrow> string) \<Rightarrow> 'e + 'a \<Rightarrow> string + 'a" where
  "throw name Error r = map_sum (\<lambda>e. name @ '': '' @ Error e) id r"

definition k6_Dial :: "(dial_error \<Rightarrow> string) \<Rightarrow> js_object \<Rightarrow> dial_env \<Rightarrow> (string + call) option" where
  "k6_Dial Error opts env = map_option (\<lambda>(r, _). throw ''sip.dial'' Error (map_sum id fst r)) (Dial (parseCfg opts) env)"

definition k6_Register :: "(register_error \<Rightarrow> string) \<Rightarrow> sip_lib \<Rightarrow> ('cert, 'pool) tls_files \<Rightarrow> sipgo_outcomes \<Rightarrow> string option
    \<Rightarrow> js_object \<Rightarrow> register_net \<Rightarrow> int \<Rightarrow> string + sample list \<times> registration" where
  "k6_Register Error lib files so route opts net now =
     throw ''sip.register'' Error
       (map_sum id (\<lambda>reg. ([(RegisterSuccess, 1)], reg)) (fst (Register lib files so route (parse_register opts) net now)))"

definition k6_RegisterAndListen :: "(ruas_error \<Rightarrow> string) \<Rightarrow> sip_lib \<Rightarrow> ('cert, 'pool) tls_files \<Rightarrow> sipgo_outcomes \<Rightarrow> string option
    \<Rightarrow> bool \<Rightarrow> register_net \<Rightarrow> js_object \<Rightarrow> string + sample list \<times> ruas_config" where
  "k6_RegisterAndListen Error lib files so route listen_failed net opts =
     throw ''sip.registerAndListen'' Error
       (map_sum id (\<lambda>uas. ([(RegisterSuccess, 1)], uas)) (fst (NewRegisteredUAS lib files so route listen_failed net (parse_ruas opts))))"

definition k6_Conference :: "(dial_error \<Rightarrow> string) \<Rightarrow> js_object \<Rightarrow> dial_env \<Rightarrow> (string + conference) option" where
  "k6_Conference Error opts env = map_option (throw ''sip.conference'' Error) (StartConference (parse_conference opts) env)"

definition k6_AddParticipant :: "string \<Rightarrow> js_object option \<Rightarrow> dial_env \<Rightarrow> conference \<Rightarrow> (dial_error option \<times> conference) option" where
  "k6_AddParticipant targetURI opts env c = AddParticipant targetURI (parse_participant opts) env c"

text \<open>The mode is forced by the option \<open>mode\<close>.\<close>

definition k6_LoadCSV :: "(csv_error \<Rightarrow> string) \<Rightarrow> (string \<Rightarrow> string option) \<Rightarrow> string \<Rightarrow> js_object option \<Rightarrow> string + pool" where
  "k6_LoadCSV Error files path rest =
     (let opts = (case rest of None \<Rightarrow> [] | Some opts \<Rightarrow> opts)
      in throw ''sip.loadCSV'' Error
        (loadCSVFile files path (case map_of opts ''mode'' of Some (JString m) \<Rightarrow> Some m | _ \<Rightarrow> None)))"

section \<open>Objects\<close>

definition conference_object :: "conference_result \<Rightarrow> js_object" where
  "conference_object r =
     [(''legs'', JInt (cr_Legs r)), (''avg_mos'', JFloat (cr_AvgMOS r)), (''min_mos'', JFloat (cr_MinMOS r)),
      (''max_mos'', JFloat (cr_MaxMOS r)), (''packets_sent'', JInt (cr_TotalPacketsSent r)),
      (''packets_lost'', JInt (cr_TotalPacketsLost r))]"

definition health_object :: "health_stats \<Rightarrow> js_object" where
  "health_object s =
     [(''checks'', JInt (Checks s)), (''successes'', JInt (Successes s)), (''failures'', JInt (Failures s)),
      (''consecFails'', JInt (ConsecFails s)), (''avgRttMs'', JFloat (AvgRTTms s)), (''lastRttMs'', JInt (LastRTTms s)),
      (''healthy'', JBool (Healthy s))]"

section \<open>Registration of the metrics\<close>

datatype metric_kind = Counter | Trend
datatype metric_unit = Default | Time | Data

type_synonym metric_spec = "metric \<times> string \<times> metric_kind \<times> metric_unit"

definition metric_table :: "metric_spec list" where
  "metric_table =
     [(CallSuccess, ''sip_call_success'', Counter, Default), (CallFailure, ''sip_call_failure'', Counter, Default),
      (CallDuration, ''sip_call_duration'', Trend, Time), (RTPPacketsSent, ''rtp_packets_sent'', Counter, Default),
      (RTPPacketsReceived, ''rtp_packets_received'', Counter, Default), (RTPPacketsLost, ''rtp_packets_lost'', Counter, Default),
      (RTPJitter, ''rtp_jitter_ms'', Trend, Default), (MOSScore, ''mos_score'', Trend, Default),
      (TransferSuccess, ''sip_transfer_success'', Counter, Default), (TransferDuration, ''sip_transfer_duration_ms'', Trend, Default),
      (RegisterSuccess, ''sip_register_success'', Counter, Default), (ConferenceLegs, ''sip_conference_legs'', Trend, Default),
      (OptionsSuccess, ''sip_options_success'', Counter, Default), (OptionsFailure, ''sip_options_failure'', Counter, Default),
      (OptionsRTT, ''sip_options_rtt_ms'', Trend, Time), (RTPBytesSent, ''rtp_bytes_sent'', Counter, Data),
      (RTPBytesReceived, ''rtp_bytes_received'', Counter, Data)]"

text \<open>\<open>newMetric\<close> is the registry of k6 with its state: an error, or the state with the metric.\<close>

fun registerAll :: "('r \<Rightarrow> metric_spec \<Rightarrow> 'err + 'r) \<Rightarrow> metric_spec list \<Rightarrow> 'r \<Rightarrow> 'err + 'r" where
  "registerAll newMetric [] r = Inr r"
| "registerAll newMetric (m # ms) r = (case newMetric r m of Inl e \<Rightarrow> Inl e | Inr r' \<Rightarrow> registerAll newMetric ms r')"

definition registerMetrics :: "('r \<Rightarrow> metric_spec \<Rightarrow> 'err + 'r) \<Rightarrow> 'r \<Rightarrow> 'err + 'r" where
  "registerMetrics newMetric r = registerAll newMetric metric_table r"

lemma metric_table_names: "distinct (map (fst \<circ> snd) metric_table)"
  by (simp add: metric_table_def)

lemma metric_table_complete: "m \<in> set (map fst metric_table)"
  by (cases m) (simp_all add: metric_table_def)

text \<open>
  The metrics register without a clash among themselves: a registry that takes every name it does not
  yet have takes all of them when it has none of them, and then has exactly these names more.
\<close>
theorem metrics_registered:
  assumes "\<And>r m. fst (snd m) \<notin> names r \<Longrightarrow> \<exists>r'. newMetric r m = Inr r' \<and> names r' = insert (fst (snd m)) (names r)"
    and "names r \<inter> set (map (fst \<circ> snd) metric_table) = {}"
  shows "\<exists>r'. registerMetrics newMetric r = Inr r' \<and> names r' = names r \<union> set (map (fst \<circ> snd) metric_table)"
proof -
  have "distinct (map (fst \<circ> snd) ms) \<Longrightarrow> names r \<inter> set (map (fst \<circ> snd) ms) = {} \<Longrightarrow>
      \<exists>r'. registerAll newMetric ms r = Inr r' \<and> names r' = names r \<union> set (map (fst \<circ> snd) ms)" for ms r
  proof (induction ms arbitrary: r)
    case (Cons m ms)
    from Cons.prems(2) have "fst (snd m) \<notin> names r" by auto
    then obtain r1 where r1: "newMetric r m = Inr r1" "names r1 = insert (fst (snd m)) (names r)" using assms(1) by blast
    moreover from Cons.prems r1(2) have "names r1 \<inter> set (map (fst \<circ> snd) ms) = {}" by auto
    ultimately show ?case using Cons.IH [of r1] Cons.prems(1) by auto
  qed simp
  from this [OF metric_table_names assms(2)] show ?thesis by (simp add: registerMetrics_def)
qed

theorem metrics_registered_witness:
  "\<exists>r'. registerMetrics (\<lambda>r m. Inr (insert (fst (snd m)) r)) ({} :: string set) = (Inr r' :: unit + string set)
    \<and> ''mos_score'' \<in> r'"
  using metrics_registered [where names = "\<lambda>r. r" and newMetric = "\<lambda>r m. Inr (insert (fst (snd m)) r) :: unit + string set"
      and r = "{}"]
  by (auto simp: metric_table_def)

section \<open>Health checks of a script\<close>

text \<open>A script can set any interval but 0, so also one that panics: with \<open>interval: '-1s'\<close> the first ping of
  \<open>sip.startHealthCheck()\<close> ends the whole test process.\<close>

lemma minus_second: "ParseDuration ''-1s'' = Some (- 1000000000)"
proof -
  have "digit_char 1 = CHR ''1''" by code_simp
  then have "show_duration [(1, ''s'')] = ''1s''" by (simp add: show_duration_def show_nat.simps)
  with ParseDuration_show [of "[(1, ''s'')]"] show ?thesis
    by (simp add: units_def duration_of_def unit_of_def unit_ns_def)
qed

theorem script_interval_panics:
  "\<exists>target ip transport cfg s.
     parse_health [(''target'', JString ''sip:p''), (''interval'', JString ''-1s'')] = Some (target, ip, transport, cfg)
     \<and> (health_step ok)\<^sup>*\<^sup>* (health_loop_start cfg client callers) s \<and> hl_panic s"
proof -
  let ?cfg = "\<lparr>hc_Interval = - 1000000000, hc_Timeout = 0, hc_MaxFailures = 0\<rparr>"
  have "parse_health [(''target'', JString ''sip:p''), (''interval'', JString ''-1s'')] = Some (''sip:p'', [], [], ?cfg)"
    by (simp add: parse_health_def on_string_def on_text_def on_duration_def on_positive_def toInt_def minus_second Let_def)
  moreover have "\<exists>s. (health_step ok)\<^sup>*\<^sup>* (health_loop_start ?cfg client callers) s \<and> hl_panic s"
    by (rule negative_interval_panics) simp
  ultimately show ?thesis by blast
qed

end
