(* ===== verification/K6_Handles.thy ===== *)
theory K6_Handles
  imports K6_Module Hold
begin

text \<open>
  What a script does with the calls it holds (\<open>k6ext/call_handle.go\<close>): the methods of the handles of
  \<open>sip.dial()\<close>, several calls at a time, in any order; and the instances of the module, one per VU
  (\<open>k6ext/module.go\<close>). The theory shows that no script panics on established calls, but for an
  attended transfer to no handle, that the accessors never change, that a hung-up call refuses
  every request, and that all instances share the metrics of the first.
\<close>

section \<open>Methods of a handle\<close>

text \<open>What a script gets: an error or none, a text, a flag, or nothing.\<close>

datatype js_answer = Answered "call_error option" | Text string | Flag bool | Done

definition k6_Hold :: "do_answer \<Rightarrow> bool \<Rightarrow> call \<Rightarrow> (js_answer \<times> call) option" where
  "k6_Hold answer ack_ok h = map_option (map_prod Answered id) (Hold answer ack_ok h)"

definition k6_Unhold :: "do_answer \<Rightarrow> bool \<Rightarrow> call \<Rightarrow> (js_answer \<times> call) option" where
  "k6_Unhold answer ack_ok h = map_option (map_prod Answered id) (Unhold answer ack_ok h)"

definition k6_SendDTMF :: "(rtp_packet \<Rightarrow> bytes option) \<Rightarrow> string \<Rightarrow> call \<Rightarrow> js_answer \<times> call" where
  "k6_SendDTMF marshal digit h = (Done, snd (call_SendDTMF marshal digit h))"

definition k6_SendInfo :: "string \<Rightarrow> string \<Rightarrow> do_answer \<Rightarrow> call \<Rightarrow> (js_answer \<times> call) option" where
  "k6_SendInfo body contentType answer h = map_option (map_prod Answered id) (SendInfo body contentType answer h)"

definition k6_SendDTMFInfo :: "string \<Rightarrow> int \<Rightarrow> do_answer \<Rightarrow> call \<Rightarrow> (js_answer \<times> call) option" where
  "k6_SendDTMFInfo digit durationMs answer h = map_option (map_prod Answered id) (SendDTMFInfo digit durationMs answer h)"

definition k6_BlindTransfer :: "string \<Rightarrow> do_answer \<Rightarrow> call \<Rightarrow> (js_answer \<times> call) option" where
  "k6_BlindTransfer targetURI answer h = map_option (map_prod Answered id) (BlindTransfer targetURI answer h)"

text \<open>\<open>other.handle\<close> is read first: without a handle the method panics, whatever the state of the call. The
  hangup of the other call that a success schedules is a later call of its \<open>Hangup\<close>.\<close>

definition k6_AttendedTransfer :: "call option \<Rightarrow> do_answer \<Rightarrow> call \<Rightarrow> (js_answer \<times> call) option" where
  "k6_AttendedTransfer other answer h =
     Option.bind other (\<lambda>c. map_option (\<lambda>(r, _). map_prod Answered id r) (AttendedTransfer answer c h))"

text \<open>\<open>Hangup\<close> answers no error, whatever becomes of its BYE.\<close>

definition k6_Hangup :: "call \<Rightarrow> js_answer \<times> call" where
  "k6_Hangup h = (Answered None, Hangup h)"

definition k6_IsActive :: "call \<Rightarrow> js_answer" where
  "k6_IsActive h = Flag (IsActive h)"

definition k6_ResponseHeader :: "string \<Rightarrow> call \<Rightarrow> js_answer" where
  "k6_ResponseHeader name h = Text (ResponseHeader name h)"

definition k6_CallID :: "call \<Rightarrow> js_answer" where
  "k6_CallID h = Text (CallID h)"

definition k6_ToTag :: "call \<Rightarrow> js_answer" where
  "k6_ToTag h = Text (ToTag h)"

definition k6_RemoteContactURI :: "(uri \<Rightarrow> string) \<Rightarrow> call \<Rightarrow> js_answer option" where
  "k6_RemoteContactURI uri_String h = map_option Text (RemoteContactURI uri_String h)"

definition k6_ResponseBody :: "call \<Rightarrow> js_answer" where
  "k6_ResponseBody h = Text (ResponseBody h)"

definition k6_RequestHeader :: "string \<Rightarrow> call \<Rightarrow> js_answer" where
  "k6_RequestHeader name h = Text (RequestHeader name h)"

section \<open>Scripts over several calls\<close>

text \<open>A script names its handles; a request comes with the answer it gets. \<open>SPeerBye\<close> is the peer's BYE.\<close>

datatype 'i script_op =
    SHold do_answer bool
  | SUnhold do_answer bool
  | SSendDTMF string
  | SSendInfo string string do_answer
  | SSendDTMFInfo string int do_answer
  | SBlindTransfer string do_answer
  | SAttendedTransfer "'i option" do_answer
  | SHangup
  | SPeerBye
  | SIsActive
  | SResponseHeader string
  | SCallID
  | SToTag
  | SRemoteContactURI
  | SResponseBody
  | SRequestHeader string

definition handle_op :: "(rtp_packet \<Rightarrow> bytes option) \<Rightarrow> (uri \<Rightarrow> string) \<Rightarrow> ('i \<Rightarrow> call) \<Rightarrow> 'i script_op \<Rightarrow> call
    \<Rightarrow> (js_answer \<times> call) option" where
  "handle_op marshal uri_String hs m h = (case m of
       SHold a k \<Rightarrow> k6_Hold a k h
     | SUnhold a k \<Rightarrow> k6_Unhold a k h
     | SSendDTMF d \<Rightarrow> Some (k6_SendDTMF marshal d h)
     | SSendInfo b ct a \<Rightarrow> k6_SendInfo b ct a h
     | SSendDTMFInfo d ms a \<Rightarrow> k6_SendDTMFInfo d ms a h
     | SBlindTransfer t a \<Rightarrow> k6_BlindTransfer t a h
     | SAttendedTransfer other a \<Rightarrow> k6_AttendedTransfer (map_option hs other) a h
     | SHangup \<Rightarrow> Some (k6_Hangup h)
     | SPeerBye \<Rightarrow> Some (Done, snd (remote_bye h))
     | SIsActive \<Rightarrow> Some (k6_IsActive h, h)
     | SResponseHeader name \<Rightarrow> Some (k6_ResponseHeader name h, h)
     | SCallID \<Rightarrow> Some (k6_CallID h, h)
     | SToTag \<Rightarrow> Some (k6_ToTag h, h)
     | SRemoteContactURI \<Rightarrow> map_option (\<lambda>r. (r, h)) (k6_RemoteContactURI uri_String h)
     | SResponseBody \<Rightarrow> Some (k6_ResponseBody h, h)
     | SRequestHeader name \<Rightarrow> Some (k6_RequestHeader name h, h))"

text \<open>The answers of a script in order, and its calls afterwards; nothing if it panics.\<close>

fun run_script :: "(rtp_packet \<Rightarrow> bytes option) \<Rightarrow> (uri \<Rightarrow> string) \<Rightarrow> ('i \<times> 'i script_op) list \<Rightarrow> ('i \<Rightarrow> call)
    \<Rightarrow> (js_answer list \<times> ('i \<Rightarrow> call)) option" where
  "run_script marshal uri_String [] hs = Some ([], hs)"
| "run_script marshal uri_String ((i, m) # script) hs =
     Option.bind (handle_op marshal uri_String hs m (hs i)) (\<lambda>(r, h).
       map_option (map_prod ((#) r) id) (run_script marshal uri_String script (hs(i := h))))"

section \<open>What a script can rely on\<close>

text \<open>The methods that only read, and those that send a request within the dialog.\<close>

fun accessor :: "'i script_op \<Rightarrow> bool" where
  "accessor (SResponseHeader name) = True"
| "accessor SCallID = True"
| "accessor SToTag = True"
| "accessor SRemoteContactURI = True"
| "accessor SResponseBody = True"
| "accessor (SRequestHeader name) = True"
| "accessor m = False"

fun in_dialog :: "'i script_op \<Rightarrow> bool" where
  "in_dialog (SHold a k) = True"
| "in_dialog (SUnhold a k) = True"
| "in_dialog (SSendInfo b ct a) = True"
| "in_dialog (SSendDTMFInfo d ms a) = True"
| "in_dialog (SBlindTransfer t a) = True"
| "in_dialog (SAttendedTransfer other a) = True"
| "in_dialog m = False"

text \<open>What a method does to its call, in terms of the operations of the call.\<close>

fun op_of :: "('i \<Rightarrow> call) \<Rightarrow> 'i script_op \<Rightarrow> call_op option" where
  "op_of hs (SHold a k) = Some (OpHold a k)"
| "op_of hs (SUnhold a k) = Some (OpUnhold a k)"
| "op_of hs (SSendDTMF d) = Some (OpDTMF d)"
| "op_of hs (SSendInfo b ct a) = Some (OpInfo b ct a)"
| "op_of hs (SSendDTMFInfo d ms a) = Some (OpDTMFInfo d ms a)"
| "op_of hs (SBlindTransfer t a) = Some (OpBlind t a)"
| "op_of hs (SAttendedTransfer (Some i) a) = Some (OpAttended (hs i) a)"
| "op_of hs SHangup = Some OpHangup"
| "op_of hs SPeerBye = Some OpRemoteBye"
| "op_of hs m = None"

lemmas k6_methods = k6_Hold_def k6_Unhold_def k6_SendDTMF_def k6_SendInfo_def k6_SendDTMFInfo_def k6_BlindTransfer_def
  k6_AttendedTransfer_def k6_Hangup_def k6_IsActive_def k6_ResponseHeader_def k6_CallID_def k6_ToTag_def
  k6_RemoteContactURI_def k6_ResponseBody_def k6_RequestHeader_def

lemma handle_op_state:
  "map_option snd (handle_op marshal us hs m h) = (case op_of hs m of
      Some op \<Rightarrow> call_step marshal op h
    | None \<Rightarrow> (case m of SAttendedTransfer None a \<Rightarrow> None | SRemoteContactURI \<Rightarrow> map_option (\<lambda>_. h) (remoteContact h) | _ \<Rightarrow> Some h))"
proof (cases m)
  case (SAttendedTransfer other a)
  then show ?thesis
    by (cases other) (simp_all add: handle_op_def call_step_def k6_AttendedTransfer_def option.map_comp comp_def split_beta)
qed (simp_all add: handle_op_def call_step_def k6_methods RemoteContactURI_def option.map_comp comp_def)

lemma handle_op_total:
  assumes "\<And>i. established (hs i)" "established h"
  shows "handle_op marshal us hs m h = None \<longleftrightarrow> (\<exists>a. m = SAttendedTransfer None a)"
proof -
  have step: "call_step marshal op h \<noteq> None" if "op_of hs m = Some op" for op
    using call_step_total [OF assms(2)] that assms(1) by (cases "(hs, m)" rule: op_of.cases) (auto simp: op_ok_def)
  have "remoteContact h \<noteq> None" using established_contact [OF assms(2)] by auto
  with handle_op_state [of marshal us hs m h] step show ?thesis
    by (cases "(hs, m)" rule: op_of.cases) auto
qed

lemma handle_op_same:
  assumes "handle_op marshal us hs m h = Some (r, h')"
  shows "same_call h h'"
proof (cases "op_of hs m")
  case None
  with assms handle_op_state [of marshal us hs m h] have "h' = h"
    by (cases "remoteContact h") (auto split: script_op.splits option.splits)
  then show ?thesis by (simp add: same_call_def)
next
  case (Some op)
  with assms handle_op_state [of marshal us hs m h] have "call_step marshal op h = Some h'" by simp
  then show ?thesis by (rule call_step_same)
qed

text \<open>An ended call is never changed again and refuses every request.\<close>

lemma handle_op_ended:
  assumes "handle_op marshal us hs m h = Some (r, h')" "\<not> c_active h"
  shows "h' = h" "in_dialog m \<Longrightarrow> r = Answered (Some NotActive)"
  using assms
  by (cases m; auto simp: handle_op_def k6_methods call_ops bind_eq_Some_conv)+

lemma handle_op_hangup: "handle_op marshal us hs SHangup h = Some (r, h') \<Longrightarrow> \<not> c_active h'"
  by (auto simp: handle_op_def k6_Hangup_def Hangup_def split: if_splits)

lemma accessor_same:
  assumes "accessor m" "same_call h h'" "handle_op marshal us hs m h' = Some (r, h2)"
  shows "handle_op marshal us hs0 m h = Some (r, h)"
  using assms
  by (cases m) (auto simp: handle_op_def k6_methods same_call_def ResponseHeader_def CallID_def ToTag_def
      RemoteContactURI_def remoteContact_def ResponseBody_def RequestHeader_def)

lemma run_script_total:
  "\<forall>i. established (hs i) \<Longrightarrow> run_script marshal us script hs = None \<longleftrightarrow> (\<exists>i a. (i, SAttendedTransfer None a) \<in> set script)"
proof (induction script arbitrary: hs)
  case Nil
  then show ?case by simp
next
  case (Cons s script)
  obtain i m where s: "s = (i, m)" by (cases s)
  show ?case
  proof (cases "handle_op marshal us hs m (hs i)")
    case None
    with handle_op_total [of hs "hs i" marshal us m] Cons.prems show ?thesis by (auto simp: s)
  next
    case (Some rh)
    obtain r h where rh: "rh = (r, h)" by (cases rh)
    have "\<nexists>a. m = SAttendedTransfer None a"
      using handle_op_total [of hs "hs i" marshal us m] Cons.prems Some by simp
    moreover have "\<forall>j. established ((hs(i := h)) j)"
      using same_call_established [OF handle_op_same [OF Some [unfolded rh]]] Cons.prems by simp
    then have "run_script marshal us script (hs(i := h)) = None \<longleftrightarrow> (\<exists>i a. (i, SAttendedTransfer None a) \<in> set script)"
      by (rule Cons.IH)
    ultimately show ?thesis using Some by (simp add: s rh) blast
  qed
qed

definition answers_ok :: "(rtp_packet \<Rightarrow> bytes option) \<Rightarrow> (uri \<Rightarrow> string) \<Rightarrow> ('i \<times> 'i script_op) list \<Rightarrow> ('i \<Rightarrow> call) \<Rightarrow> js_answer list \<Rightarrow> bool" where
  "answers_ok marshal us script hs answers \<longleftrightarrow> length answers = length script \<and> (\<forall>n i m. n < length script \<and> script ! n = (i, m) \<longrightarrow>
     (accessor m \<longrightarrow> handle_op marshal us hs m (hs i) = Some (answers ! n, hs i))
     \<and> (in_dialog m \<and> (\<not> c_active (hs i) \<or> (i, SHangup) \<in> set (take n script)) \<longrightarrow> answers ! n = Answered (Some NotActive)))"

lemma run_script_answers:
  "run_script marshal us script hs = Some (answers, hs') \<Longrightarrow>
    answers_ok marshal us script hs answers \<and> (\<forall>i. \<not> c_active (hs i) \<longrightarrow> hs' i = hs i)"
proof (induction script arbitrary: hs answers)
  case Nil
  then show ?case by (simp add: answers_ok_def)
next
  case (Cons s script)
  obtain i m where s: "s = (i, m)" by (cases s)
  from Cons.prems obtain r h rs where op: "handle_op marshal us hs m (hs i) = Some (r, h)"
    and run: "run_script marshal us script (hs(i := h)) = Some (rs, hs')" and answers: "answers = r # rs"
    by (auto simp: s bind_eq_Some_conv)
  let ?hs = "hs(i := h)"
  note same = handle_op_same [OF op] and ended = handle_op_ended [OF op]
  from Cons.IH [OF run] have ok: "answers_ok marshal us script ?hs rs" and keep: "\<And>j. \<not> c_active (?hs j) \<Longrightarrow> hs' j = ?hs j"
    by blast+
  have down: "\<not> c_active (?hs j)" if "\<not> c_active (hs j) \<or> (j, SHangup) = (i, m)" for j
    using that ended(1) handle_op_hangup [of marshal us hs "hs i" r h] op by auto
  have "answers_ok marshal us (s # script) hs answers"
    unfolding answers_ok_def
  proof (intro conjI allI impI; (elim conjE)?)
    show "length answers = length (s # script)" using ok by (simp add: answers answers_ok_def)
  next
    fix n j m'
    assume n: "n < length (s # script)" "(s # script) ! n = (j, m')" "accessor m'"
    show "handle_op marshal us hs m' (hs j) = Some (answers ! n, hs j)"
    proof (cases n)
      case 0
      with n s have "accessor m" "j = i" "m' = m" by simp_all
      moreover have "same_call (hs i) (hs i)" by (simp add: same_call_def)
      ultimately show ?thesis using accessor_same [OF _ _ op] 0 answers by simp
    next
      case (Suc k)
      with n ok have "handle_op marshal us ?hs m' (?hs j) = Some (rs ! k, ?hs j)" by (simp add: answers_ok_def)
      moreover have "same_call (hs j) (?hs j)" using same by (simp add: same_call_def)
      ultimately show ?thesis using accessor_same [OF n(3)] Suc answers by simp
    qed
  next
    fix n j m'
    assume n: "n < length (s # script)" "(s # script) ! n = (j, m')" "in_dialog m'"
      "\<not> c_active (hs j) \<or> (j, SHangup) \<in> set (take n (s # script))"
    show "answers ! n = Answered (Some NotActive)"
    proof (cases n)
      case 0
      with n s ended(2) answers show ?thesis by simp
    next
      case (Suc k)
      with n(4) s down [of j] have "\<not> c_active (?hs j) \<or> (j, SHangup) \<in> set (take k script)" by auto
      with n(1-3) ok Suc answers show ?thesis by (simp add: answers_ok_def)
    qed
  qed
  moreover have "hs' j = hs j" if "\<not> c_active (hs j)" for j
    using keep [of j] down [of j] ended(1) that by (cases "j = i") auto
  ultimately show ?case by blast
qed

text \<open>C33: 
  Scripts on handles of established calls, however they mix their calls: a script panics exactly when it
  transfers a call to no handle; otherwise the accessors answer at any moment, also after the end
  of a call, what they answered at first, a call that has been hung up refuses every request
  within its dialog, and a call that has ended is never changed.
\<close>
theorem script_on_handles:
  assumes "\<And>i. established (hs i)"
  shows "(run_script marshal us script hs = None \<longleftrightarrow> (\<exists>i a. (i, SAttendedTransfer None a) \<in> set script))
    \<and> (\<forall>answers hs'. run_script marshal us script hs = Some (answers, hs') \<longrightarrow>
         length answers = length script \<and> (\<forall>i. \<not> c_active (hs i) \<longrightarrow> hs' i = hs i)
         \<and> (\<forall>n i m. n < length script \<and> script ! n = (i, m) \<longrightarrow>
              (accessor m \<longrightarrow> handle_op marshal us hs m (hs i) = Some (answers ! n, hs i))
              \<and> (in_dialog m \<and> (\<not> c_active (hs i) \<or> (i, SHangup) \<in> set (take n script)) \<longrightarrow>
                   answers ! n = Answered (Some NotActive))))"
proof -
  have "\<forall>i. established (hs i)" using assms by blast
  from run_script_total [OF this] run_script_answers [of marshal us script hs] show ?thesis
    unfolding answers_ok_def by blast
qed

theorem script_on_handles_witness:
  "\<exists>answers hs'. run_script rfc3550_marshal (\<lambda>u. Host u)
      [(0 :: nat, SHold (sample_ok 200) True), (0, SHangup), (0, SCallID), (0, SBlindTransfer ''sip:x'' None)] (\<lambda>_. sample_call)
        = Some (answers, hs')
    \<and> answers ! 2 = Text (CallID sample_call) \<and> answers ! 3 = Answered (Some NotActive)"
proof -
  let ?script = "[(0 :: nat, SHold (sample_ok 200) True), (0, SHangup), (0, SCallID), (0, SBlindTransfer ''sip:x'' None)]"
  have "established sample_call" using sample_fresh by (simp add: fresh_call_def)
  then have e: "established ((\<lambda>_. sample_call) i)" for i :: nat by simp
  note s = script_on_handles [OF e, of rfc3550_marshal "\<lambda>u. Host u" ?script]
  from s [THEN conjunct1] obtain answers hs' where
    r: "run_script rfc3550_marshal (\<lambda>u. Host u) ?script (\<lambda>_. sample_call) = Some (answers, hs')"
    by (auto simp del: run_script.simps)
  note at = s [THEN conjunct2, THEN spec, THEN spec, THEN mp, OF r, THEN conjunct2, THEN conjunct2]
  have "answers ! 2 = Text (CallID sample_call)"
    using at [THEN spec [of _ 2], THEN spec [of _ 0], THEN spec [of _ SCallID]] by (simp add: handle_op_def k6_CallID_def)
  moreover have "answers ! 3 = Answered (Some NotActive)"
    using at [THEN spec [of _ 3], THEN spec [of _ 0], THEN spec [of _ "SBlindTransfer ''sip:x'' None"]]
    by (simp add: numeral_3_eq_3)
  ultimately show ?thesis using r by blast
qed

section \<open>The other handles\<close>

text \<open>The handles of conferences, registrations, registered servers and health checks
  (\<open>k6ext/conference.go\<close>, \<open>registration.go\<close>, \<open>registered_uas.go\<close>, \<open>healthcheck.go\<close>) pass every call on.\<close>

definition k6_ParticipantCount :: "conference \<Rightarrow> int" where
  "k6_ParticipantCount c = ParticipantCount c"

definition k6_conf_Hangup :: "conference \<Rightarrow> conference" where
  "k6_conf_Hangup c = conf_Hangup c"

definition k6_Refresh :: "sip_lib \<Rightarrow> string option \<Rightarrow> register_net \<Rightarrow> int \<Rightarrow> registration \<Rightarrow> register_error option \<times> registration" where
  "k6_Refresh lib route net now r = Refresh lib route net now r"

definition k6_Unregister :: "sip_lib \<Rightarrow> string option \<Rightarrow> register_net \<Rightarrow> registration \<Rightarrow> register_error option \<times> registration" where
  "k6_Unregister lib route net r = Unregister lib route net r"

definition k6_ruas_Stop :: "sip_lib \<Rightarrow> register_net \<Rightarrow> ruas_config \<Rightarrow> request option \<times> (bool \<times> bool)" where
  "k6_ruas_Stop lib net cfg = ruas_Stop lib net cfg"

definition k6_ruas_Unregister :: "sip_lib \<Rightarrow> register_net \<Rightarrow> ruas_config \<Rightarrow> register_error option" where
  "k6_ruas_Unregister lib net cfg = snd (ruas_Unregister lib net cfg)"

definition k6_IsHealthy :: "health_checker \<Rightarrow> bool" where
  "k6_IsHealthy h = IsHealthy h"

section \<open>Instances of the module\<close>

text \<open>The root module with its \<open>sync.Once\<close>, which counts as done also when its function panics.\<close>

record 'm root_module =
  metricsOnce :: bool
  root_metrics :: "'m option"

definition root_module0 :: "'m root_module" where
  "root_module0 = \<lparr>metricsOnce = False, root_metrics = None\<rparr>"

text \<open>The instance of a VU holds the metrics of the root, nil included; the outer \<open>None\<close> is the panic.
  \<open>registered\<close> is what registering in the VU's registry would give.\<close>

definition NewModuleInstance :: "'err + 'm \<Rightarrow> 'm root_module \<Rightarrow> 'm option option \<times> 'm root_module" where
  "NewModuleInstance registered r =
     (if metricsOnce r then (Some (root_metrics r), r)
      else case registered of
          Inl err \<Rightarrow> (None, r\<lparr>metricsOnce := True, root_metrics := None\<rparr>)
        | Inr m \<Rightarrow> (Some (Some m), r\<lparr>metricsOnce := True, root_metrics := Some m\<rparr>))"

fun new_instances :: "('err + 'm) list \<Rightarrow> 'm root_module \<Rightarrow> 'm option option list" where
  "new_instances [] r = []"
| "new_instances (reg # regs) r = (let (i, r) = NewModuleInstance reg r in i # new_instances regs r)"

lemma new_instances_done: "metricsOnce r \<Longrightarrow> new_instances regs r = replicate (length regs) (Some (root_metrics r))"
  by (induction regs) (simp_all add: NewModuleInstance_def)

text \<open>
  Every VU gets the metrics that the first registered, whatever its own registry would say; when the first
  registration fails the first instance panics, and all later ones come to be without metrics.
\<close>
theorem instances_share_metrics:
  "new_instances (reg # regs) root_module0
    = (case reg of Inr m \<Rightarrow> replicate (Suc (length regs)) (Some (Some m)) | Inl err \<Rightarrow> None # replicate (length regs) (Some None))"
  by (cases reg) (simp_all add: NewModuleInstance_def root_module0_def new_instances_done)

end
