(* ===== verification/Prometheus.thy ===== *)
theory Prometheus
  imports Go_Strings
begin

text \<open>
  The exporter for Prometheus (\<open>metrics/prometheus.go\<close>): the collectors the package registers when it is
  loaded (bounds as the decimals that are written), and \<open>Init\<close>, which starts the HTTP server once. The client library that keeps the
  collectors and the server itself are not modelled. The theory shows that at most one server is
  started, on a valid port, and that the first enabled call decides on which.
\<close>

section \<open>Collectors\<close>

datatype collector_kind =
    Histogram "rat list"
  | LinearHistogram rat rat nat
  | CounterVec "string list"
  | Gauge

definition collectors :: "(string \<times> collector_kind) list" where
  "collectors =
     [(''sip_mos_score'', Histogram [1, 2, 3, 35 / 10, 4, 43 / 10, 5]),
      (''sip_rtp_packet_loss_percent'', LinearHistogram 0 5 10),
      (''sip_rtp_jitter_ms'', LinearHistogram 0 5 20),
      (''sip_calls_total'', CounterVec [''outcome'']),
      (''sip_active_calls'', Gauge)]"

text \<open>What the library demands of a collector at its registration, where \<open>promauto\<close> panics: a valid name, and
  bounds that increase.\<close>

definition name_char :: "char \<Rightarrow> bool" where
  "name_char c = (let n = of_char c :: nat in (97 \<le> n \<and> n \<le> 122) \<or> (65 \<le> n \<and> n \<le> 90) \<or> n = 95 \<or> n = 58)"

definition name_digit :: "char \<Rightarrow> bool" where
  "name_digit c = (let n = of_char c :: nat in 48 \<le> n \<and> n \<le> 57)"

definition valid_name :: "string \<Rightarrow> bool" where
  "valid_name s = (case s of [] \<Rightarrow> False | c # cs \<Rightarrow> name_char c \<and> list_all (\<lambda>c. name_char c \<or> name_digit c) cs)"

definition bounds_of :: "collector_kind \<Rightarrow> rat list" where
  "bounds_of k = (case k of
       Histogram bs \<Rightarrow> bs
     | LinearHistogram start width count \<Rightarrow> map (\<lambda>i. start + of_nat i * width) [0..<count]
     | _ \<Rightarrow> [])"

lemma linear_increasing: "0 < width \<Longrightarrow> sorted_wrt (<) (bounds_of (LinearHistogram start width count))"
  by (simp add: bounds_of_def sorted_wrt_map)

text \<open>Loading the package does not panic: the names are valid and differ, and the bounds increase.\<close>
theorem collectors_register:
  "list_all (\<lambda>(name, kind). valid_name name \<and> sorted_wrt (<) (bounds_of kind)) collectors \<and> distinct (map fst collectors)"
proof -
  have "list_all (\<lambda>(name, kind). valid_name name) collectors"
    by (simp add: collectors_def valid_name_def name_char_def Let_def)
  moreover have "list_all (\<lambda>(name, kind). sorted_wrt (<) (bounds_of kind)) collectors"
    by (simp add: collectors_def linear_increasing) (simp add: bounds_of_def)
  ultimately show ?thesis by (simp add: collectors_def)
qed

section \<open>The server\<close>

text \<open>The environment yields the empty string for a variable that is not set.\<close>

record prometheus =
  prom_once :: bool
  prom_servers :: "string list"
  prom_log :: "int option list"

definition prometheus0 :: prometheus where
  "prometheus0 = \<lparr>prom_once = False, prom_servers = [], prom_log = []\<rparr>"

definition prom_port :: "string \<Rightarrow> int + int" where
  "prom_port env_port =
     (let port = (if env_port = [] then ''2112'' else env_port) in
      case Atoi port of
        None \<Rightarrow> Inl 2112
      | Some portNum \<Rightarrow> if portNum < 1 \<or> portNum > 65535 then Inl 2112 else Inr portNum)"

text \<open>\<open>Init\<close>; a line of the log is the warning, \<open>None\<close>, or the port that is announced.\<close>

definition prom_Init :: "(string \<Rightarrow> string) \<Rightarrow> prometheus \<Rightarrow> prometheus" where
  "prom_Init Getenv s =
     (if Getenv ''PROMETHEUS_ENABLED'' \<noteq> ''1'' then s
      else if prom_once s then s
      else
        let s = s\<lparr>prom_once := True\<rparr>;
            (portNum, s) = (case prom_port (Getenv ''PROMETHEUS_PORT'') of
                Inl n \<Rightarrow> (n, s\<lparr>prom_log := prom_log s @ [None]\<rparr>)
              | Inr n \<Rightarrow> (n, s));
            s = s\<lparr>prom_servers := prom_servers s @ [CHR '':'' # show_int portNum]\<rparr>
        in s\<lparr>prom_log := prom_log s @ [Some portNum]\<rparr>)"

definition prom_enabled :: "(string \<Rightarrow> string) \<Rightarrow> bool" where
  "prom_enabled Getenv \<longleftrightarrow> Getenv ''PROMETHEUS_ENABLED'' = ''1''"

lemma prom_again: "prom_once s \<Longrightarrow> fold prom_Init envs s = s"
  by (induction envs) (simp_all add: prom_Init_def)

lemma prom_disabled: "\<not> prom_enabled env \<Longrightarrow> prom_Init env s = s"
  by (simp add: prom_Init_def prom_enabled_def)

lemma prom_first:
  assumes "prom_enabled env" "\<not> prom_once s"
  obtains n s' where "prom_Init env s = s'" "prom_once s'" "prom_servers s' = prom_servers s @ [CHR '':'' # show_int n]"
    "prom_port (env ''PROMETHEUS_PORT'') \<in> {Inl n, Inr n}"
  using assms by (cases "prom_port (env ''PROMETHEUS_PORT'')") (auto simp: prom_Init_def prom_enabled_def Let_def)

lemma prom_port_range: "prom_port p \<in> {Inl n, Inr n} \<Longrightarrow> 1 \<le> n \<and> n \<le> 65535"
  by (auto simp: prom_port_def Let_def split: option.splits if_splits)

text \<open>
  However often \<open>Init\<close> is called, and whatever the environment says at each call: nothing is started while
  the export is not enabled; otherwise exactly one server is started, on the port that the first
  enabled call finds in its environment if that is a number from 1 to 65535, and on 2112 if not.
\<close>
theorem one_metrics_server:
  "prom_servers (fold prom_Init envs prometheus0) = (case filter prom_enabled envs of
      [] \<Rightarrow> []
    | env # _ \<Rightarrow> [CHR '':'' # show_int (case Atoi (env ''PROMETHEUS_PORT'') of
        Some n \<Rightarrow> if 1 \<le> n \<and> n \<le> 65535 then n else 2112 | None \<Rightarrow> 2112)])"
proof (induction envs)
  case Nil
  then show ?case by (simp add: prometheus0_def)
next
  case (Cons env envs)
  show ?case
  proof (cases "prom_enabled env")
    case False
    with Cons show ?thesis by (simp add: prom_disabled)
  next
    case True
    have "\<not> prom_once prometheus0" by (simp add: prometheus0_def)
    from True this obtain n s' where s: "prom_Init env prometheus0 = s'" "prom_once s'"
      "prom_servers s' = prom_servers prometheus0 @ [CHR '':'' # show_int n]" "prom_port (env ''PROMETHEUS_PORT'') \<in> {Inl n, Inr n}"
      by (rule prom_first)
    have "Atoi [] = None" "Atoi ''2112'' = Some 2112" by code_simp+
    with s(4) have "n = (case Atoi (env ''PROMETHEUS_PORT'') of
        Some n \<Rightarrow> if 1 \<le> n \<and> n \<le> 65535 then n else 2112 | None \<Rightarrow> 2112)"
      by (auto simp: prom_port_def Let_def split: option.splits if_splits)
    with True s(1-3) prom_again [OF s(2)] show ?thesis by (simp add: prometheus0_def)
  qed
qed

end
