(* ===== verification/Spec2Isabelle.thy ===== *)
theory Spec2Isabelle
  imports Mos Recorder Media_Players Audio_Path Rtcp_Life Audio Pcap Sdp Sdp_Srtp Csv_Pool
    Call_Transfer Hangup_Order Dtmf_Sequence Uas_Server K6_Handles Prometheus
begin

text \<open>
  Verification of xk6-sip-media, a k6 extension that makes and answers SIP calls and carries their
  media. Below, the names of theories stand next to the files under \<open>src/\<close> that they model; definitions
  keep the names of the Go code.

  \<^bold>\<open>The program and its model.\<close> A script calls the API of \<open>k6ext/\<close>, which reads its options and calls
  \<open>sip/\<close>; a call negotiates media by SDP and then runs goroutines of \<open>core/rtp\<close> that send, receive,
  encrypt and measure RTP packets prepared by \<open>core/audio\<close> and \<open>core/codec\<close>. Structs are records,
  enumerations datatypes, fixed-width integers words or integers wrapped to their width, \<open>float64\<close>
  rational numbers rounded after every operation, maps partial functions, byte slices lists. A
  function that changes its receiver returns it changed; an error is \<open>Inl\<close>, a panic or a run that
  never returns is \<open>None\<close>. Goroutines are inductive step relations over one state: any interleaving
  of their steps is a run.

  \<^item> \<^bold>\<open>Foundations.\<close> \<open>Prelude\<close> (bytes, wrap-around), \<open>Steps\<close> (the contracts of step relations: keeping an
    invariant, getting to an end, coming to an end, admission up to a limit; counting threads),
    \<open>Float64\<close> (rounding to 53 bits), \<open>Go_Strings\<close>, \<open>Go_Duration\<close>, \<open>Base64\<close>, \<open>Crypto\<close> (AES-128, SHA-1,
    HMAC, counter mode): the parts of Go's standard library that the code uses.
  \<^item> \<^bold>\<open>RTP\<close> (\<open>core/rtp\<close>). \<open>Rtp_Session\<close> (\<open>session.go\<close>; the wire format as the locale \<open>rtp_wire\<close>),
    \<open>Rtp_Stats\<close> (\<open>stats.go\<close>), \<open>Mos\<close> (\<open>mos.go\<close>), \<open>Dtmf\<close> (\<open>dtmf.go\<close>), \<open>Jitter\<close> (\<open>jitter.go\<close>), \<open>Recorder\<close>
    (\<open>recorder.go\<close>; the sink contract \<open>frame_sink\<close>), \<open>Reactor\<close> (\<open>reactor.go\<close>; the contract \<open>tickable\<close> of
    what it drives), \<open>Sender\<close> (\<open>sender.go\<close>), \<open>Srtp\<close> and \<open>Srtp_Sender\<close> (\<open>srtp.go\<close>), \<open>Media_Players\<close> (both
    kinds of players in one reactor), \<open>Receiver\<close> (\<open>receiver.go\<close>, \<open>echo.go\<close>, \<open>ReceiveSRTP\<close>), \<open>Audio_Path\<close>
    (player, network, receive loop, jitter buffer and recorder together; the contract \<open>audio_loop\<close> of
    both loops), \<open>Rtcp\<close> and \<open>Rtcp_Life\<close> (\<open>rtcp.go\<close>).
  \<^item> \<^bold>\<open>Audio and codecs\<close> (\<open>core/audio\<close>, \<open>core/codec\<close>). \<open>G722\<close>, \<open>Codec\<close> (the factory and the wrappers; the
    contract \<open>frame_codec\<close>), \<open>Audio\<close> (loading, mono, resampling, frames, silence), \<open>Pcap\<close>.
  \<^item> \<^bold>\<open>Signalling\<close> (\<open>sip/\<close>). \<open>Sip_Msg\<close> (what the code sees of sipgo's messages), \<open>Sdp\<close>, \<open>Sdp_Srtp\<close>, \<open>Client\<close>
    (\<open>client.go\<close>, \<open>retransmit.go\<close>, \<open>transport_utils.go\<close>), \<open>Invite\<close> (\<open>invite.go\<close>, \<open>early_media.go\<close>), \<open>Dial\<close> (\<open>dial.go\<close>, \<open>call.go\<close>) and
    \<open>Dtmf_Sequence\<close> (its step 20), \<open>Call\<close>, \<open>Hold\<close>, \<open>Call_Transfer\<close> (\<open>handle.go\<close>, \<open>hold.go\<close>, \<open>transfer.go\<close>,
    \<open>info.go\<close>, \<open>vars.go\<close>), \<open>Call_Threads\<close> and \<open>Hangup_Order\<close> (the goroutines
    of a call and \<open>Hangup\<close>, whose points are a \<open>linorder\<close>), \<open>Uas\<close> and \<open>Uas_Server\<close>
    (\<open>server.go\<close>), \<open>Registered_Uas\<close> and \<open>Uas_Registration\<close> (\<open>registered_uas.go\<close>), \<open>Register\<close>
    (\<open>register.go\<close>), \<open>Conference\<close> (\<open>conference.go\<close>, \<open>threepcc.go\<close>), \<open>Health\<close> and \<open>Health_Loop\<close>
    (\<open>options.go\<close>, \<open>healthcheck.go\<close>).
  \<^item> \<^bold>\<open>The API\<close> (\<open>k6ext/\<close>). \<open>K6_Config\<close> (\<open>parseCfg\<close>), \<open>K6_Api\<close> (the other options, results, samples),
    \<open>K6_Module\<close> (the functions as a script calls them, the metrics), \<open>K6_Handles\<close> (\<open>call_handle.go\<close> and the
    other handles, \<open>module.go\<close>), \<open>Csv_Pool\<close> (\<open>csv_pool.go\<close>). Apart from it, \<open>Prometheus\<close>
    (\<open>metrics/prometheus.go\<close>).

  \<^bold>\<open>What is shown.\<close> Numbered texts (C1, C2, ...) mark the main properties, most important first.

  \<^item> Media: a receiver with the key decrypts every packet of an SRTP stream, also with losses, no key
    stream is used twice, and of what a player sends the recorder at the other end hears exactly the
    frames that the network delivers in time, through encryption, wire format, receive loop and
    jitter buffer, with silence for the others; neither receive loop panics, and datagrams without the
    right tag change nothing that the SRTP loop counts, plays or records; the jitter buffer plays in sequence order; the reactor
    spreads its items evenly, never ticks one twice for a period, and every player leaves it; RTCP
    reports are read back and its goroutines end; the statistics of an undisturbed stream are
    exact; G.722 encoder and decoder stay in step and in their ranges; captures are read back, and so
    are the digits of DTMF unless an end packet arrives after the next digit has begun. The contracts of the cipher, the codecs, the sinks, the items of the reactor and the wire
    format are locales, each interpreted for the definitions that provide them.
  \<^item> Calls: at most one BYE, one closing of \<open>stop\<close> and a final result for any number of callers of
    \<open>Hangup\<close>, all of which return and none of which ever goes back; the hold state agrees with what the peer was last told, and the
    re-INVITEs are numbered; what an established call consists of and when it hangs itself up, and what each error exit of
    \<open>Dial\<close> leaves open; which legs a third-party call has; the REFER of an attended transfer names the dialog it replaces; the digits of
    the DTMF sequence in order and in time.
  \<^item> Servers: never more legs than the limit with an exact counter (one contract, \<open>limited_steps\<close>, for
    both servers), a BYE stops its leg, shutdown drains all legs, offer and answer agree; a binding
    that is refreshed in time never lapses, and a registration knows when its binding ends.
  \<^item> Scripts: exactly which configurations a script can reach, what a call returns and emits, when a
    script on the handles of its calls panics and what its methods answer, the rows of a credential
    file, the health flag with its goroutines, and the one server of the Prometheus export.
  \<^item> Where the code does not do what it promises, a theorem says what it does instead, for instance
    that an answer to an SRTP offer loses the key, that a forged packet desynchronises a receiver, that
    a BYE of the peer does not end a call, or that loss figures of RTCP never reach a result.

  \<^bold>\<open>Termination and bounds.\<close> Definitions are total; recursion that is not structural has a measure (the
  length of the rest of the input for parsers, the frames still missing for \<open>loopPayloads\<close>). No fuel is
  used but for what the code itself bounds: \<open>bind_loop 5\<close> is the five attempts of \<open>Dial\<close> to bind a
  port. Loops that run until they are stopped are step relations, and that they end is proved by a
  measure on their states.

  \<^bold>\<open>What is assumed.\<close> sipgo, pion/rtp, the G.711, G.729 and Opus libraries, the WAV and MP3 decoders, files,
  sockets, clocks and random numbers are arguments of the definitions: functions with the laws of
  \<open>rtp_wire\<close>, \<open>frame_codec\<close> where a property needs any, or outcomes over which it quantifies. A step
  of a step relation is what the code does between two points where another goroutine can interfere;
  sending a digit and a ping are one step each. In \<open>Audio_Path\<close> the ticks of the jitter buffer are
  exactly 20 ms apart, and a stream ends before its sequence numbers wrap (with SRTP, before the
  receiver could take a late packet for one of the next cycle): beyond that \<open>Jitter\<close> shows the
  buffer silent.

  \<^bold>\<open>Not modelled.\<close> The HTTP server of the Prometheus export and its client library, logging and the
  registration of the module with k6, \<open>ResolveLocalIPv6\<close> (it asks the operating system), the texts of
  error messages, tests, examples and dashboards.
\<close>

end
